(* ===== verification/Prelude.thy ===== *)
theory Prelude
  imports Main "HOL-Library.Word" "HOL-Library.Sublist"
begin

text \<open>
  Shared vocabulary of the development: the C++ scalar types at their widths, byte strings,
  the outcome of a C++ call (normal return, thrown exception, undefined behaviour, no
  return), the big-endian 16-bit fields of the TFTP packets, and the list lemmas the
  component theories share.  The collections declared here hold the facts the component
  proofs pass to the simplifier as a group.
\<close>

unbundle bit_operations_syntax

named_theorems codec_simps \<open>definitions of the packet encoders and decoders\<close>
named_theorems be16_simps \<open>16-bit big-endian fields\<close>
named_theorems outcome_simps \<open>sequencing of outcomes\<close>

subsection \<open>Scalar types\<close>

text \<open>
  \<open>char\<close> is signed on the platform the Makefile targets (g++ on x86-64 Linux); \<open>byte\<close> is its
  bit pattern, read with \<open>ucast\<close> where the code casts to \<open>unsigned char\<close> first and
  with \<open>scast\<close> where it widens the \<open>char\<close> itself.
\<close>

type_synonym byte = "8 word"
type_synonym u16 = "16 word"
type_synonym u32 = "32 word"
type_synonym u64 = "64 word"
type_synonym bytes = "byte list"

definition bytes_of :: "string \<Rightarrow> bytes" where
  "bytes_of s = map of_char s"

text \<open>\<open>std::string::c_str\<close> read by a C function: the characters before the first NUL.\<close>

definition c_str :: "bytes \<Rightarrow> bytes" where
  "c_str s = takeWhile (\<lambda>b. b \<noteq> 0) s"

definition nul_free :: "bytes \<Rightarrow> bool" where
  "nul_free s \<longleftrightarrow> 0 \<notin> set s"

text \<open>\<open>::toupper\<close> in the C locale (the program never calls \<open>setlocale\<close>).\<close>

definition toupper :: "byte \<Rightarrow> byte" where
  "toupper b = (if 97 \<le> b \<and> b \<le> 122 then b - 32 else b)"

subsection \<open>Outcomes of C++ calls\<close>

datatype exn =
    Runtime_error string
  | Errno_error int \<comment> \<open>\<open>std::runtime_error(strerror(errno))\<close>\<close>
  | Out_of_range string
  | Invalid_argument string
  | Filesystem_error

text \<open>
  \<open>Undefined\<close> is undefined behaviour of the C++ abstract machine (a null \<open>FILE *\<close> dereferenced, an
  end iterator advanced); \<open>Diverges\<close> is a call that never returns (a loop that spins
  for ever, or a blocking receive for which no datagram ever arrives).
\<close>

datatype 'a outcome = Ret 'a | Throw exn | Undefined | Diverges

fun obind :: "'a outcome \<Rightarrow> ('a \<Rightarrow> 'b outcome) \<Rightarrow> 'b outcome" where
  "obind (Ret a) f = f a"
| "obind (Throw e) f = Throw e"
| "obind Undefined f = Undefined"
| "obind Diverges f = Diverges"

fun returns :: "'a outcome \<Rightarrow> bool" where
  "returns (Ret a) = True"
| "returns (Throw e) = False"
| "returns Undefined = False"
| "returns Diverges = False"

lemma obind_Ret_iff [outcome_simps]:
  "obind m f = Ret b \<longleftrightarrow> (\<exists>a. m = Ret a \<and> f a = Ret b)"
  by (cases m) auto

lemma obind_Throw_iff:
  "obind m f = Throw e \<longleftrightarrow> m = Throw e \<or> (\<exists>a. m = Ret a \<and> f a = Throw e)"
  by (cases m) auto

lemma obind_assoc: "obind (obind m f) g = obind m (\<lambda>a. obind (f a) g)"
  by (cases m) auto

lemma returns_iff: "returns m \<longleftrightarrow> (\<exists>a. m = Ret a)"
  by (cases m) auto

lemma obind_cong [fundef_cong]:
  "m = m' \<Longrightarrow> (\<And>a. m' = Ret a \<Longrightarrow> f a = f' a) \<Longrightarrow> obind m f = obind m' f'"
  by (cases m') auto

subsection \<open>Big-endian 16-bit fields\<close>

definition hi_byte :: "u16 \<Rightarrow> byte" where
  "hi_byte w = ucast (drop_bit 8 w)"

definition lo_byte :: "u16 \<Rightarrow> byte" where
  "lo_byte w = ucast (w AND 0xFF)"

text \<open>
  \<open>(static_cast<uint16_t>(h) << 8) | static_cast<uint16_t>(l)\<close> stored in a \<open>uint16_t\<close>: both operands are
  promoted to \<open>int\<close>, shifted and combined there, and the result truncated.
\<close>

definition combine16 :: "u16 \<Rightarrow> u16 \<Rightarrow> u16" where
  "combine16 h l = ucast (push_bit 8 (ucast h :: u32) OR (ucast l :: u32))"

definition be16 :: "byte \<Rightarrow> byte \<Rightarrow> u16" where
  "be16 h l = combine16 (ucast h) (ucast l)"

definition be16_signed :: "byte \<Rightarrow> byte \<Rightarrow> u16" where
  "be16_signed h l = combine16 (scast h) (scast l)"

lemma bit_out_of_range: "LENGTH('a) \<le> n \<Longrightarrow> \<not> bit (w :: 'a::len word) n"
  using bit_imp_le_length leD by blast

lemma bit_high [be16_simps]:
  "8 \<le> n \<Longrightarrow> bit (b :: byte) n = False"
  "16 \<le> n \<Longrightarrow> bit (w :: u16) n = False"
  by (simp_all add: bit_out_of_range)

lemma lo_byte_ucast [be16_simps]: "lo_byte w = ucast w"
proof -
  have "w AND 0xFF = take_bit 8 w"
    by (simp add: take_bit_eq_mask mask_eq_exp_minus_1)
  then show ?thesis
    unfolding lo_byte_def by (simp only:) (rule bit_word_eqI, simp add: bit_simps)
qed

lemma FF00_mask: "(0xFF00 :: u16) = push_bit 8 (mask 8)"
  by (simp add: mask_eq_exp_minus_1)

lemma be16_hi_lo [simp]: "be16 (hi_byte w) (lo_byte w) = w"
  unfolding be16_def combine16_def hi_byte_def lo_byte_ucast
  by (rule bit_word_eqI) (auto simp: bit_simps be16_simps)

lemma be16_signed_hi_lo [simp]:
  "be16_signed (hi_byte w) (lo_byte w) = (if bit w 7 then 0xFF00 OR w else w)"
proof -
  have "bit (be16_signed (hi_byte w) (lo_byte w)) n =
      bit (if bit w 7 then push_bit 8 (mask 8) OR w else w) n" if "n < 16" for n
  proof (cases "n < 8")
    case True
    with that show ?thesis
      unfolding be16_signed_def combine16_def hi_byte_def lo_byte_ucast
      by (auto simp: bit_simps min_def; cases "n = 7"; simp)
  next
    case False
    then obtain k where "n = 8 + k" by (metis le_Suc_ex not_less)
    with that show ?thesis
      unfolding be16_signed_def combine16_def hi_byte_def lo_byte_ucast
      by (auto simp: bit_simps min_def le_less_Suc_eq; cases "k = 7"; simp)
  qed
  then show ?thesis unfolding FF00_mask by (intro bit_word_eqI) simp
qed

lemma hi_byte_be16: "hi_byte (be16 h l) = h"
  unfolding be16_def combine16_def hi_byte_def
  by (rule bit_word_eqI) (auto simp: bit_simps be16_simps)

lemma lo_byte_be16: "lo_byte (be16 h l) = l"
  unfolding be16_def combine16_def lo_byte_ucast
  by (rule bit_word_eqI) (auto simp: bit_simps be16_simps)

subsection \<open>Lists\<close>

lemma takeWhile_nz_append [simp]:
  "0 \<notin> set s \<Longrightarrow> takeWhile (\<lambda>b. b \<noteq> (0::byte)) (s @ 0 # r) = s"
  by (induction s) auto

lemma dropWhile_nz_append [simp]:
  "0 \<notin> set s \<Longrightarrow> dropWhile (\<lambda>b. b \<noteq> (0::byte)) (s @ 0 # r) = 0 # r"
  by (induction s) auto

lemma c_str_nul_free [simp]: "nul_free s \<Longrightarrow> c_str s = s"
  by (auto simp: c_str_def nul_free_def intro: ccontr)

lemma nul_free_c_str [simp]: "nul_free (c_str s)"
  by (auto simp: c_str_def nul_free_def dest: set_takeWhileD)

lemma nul_free_simps [simp]:
  "nul_free []"
  "nul_free (b # s) \<longleftrightarrow> b \<noteq> 0 \<and> nul_free s"
  "nul_free (s @ t) \<longleftrightarrow> nul_free s \<and> nul_free t"
  by (auto simp: nul_free_def)

lemma toupper_eq_0_iff [simp]: "toupper b = 0 \<longleftrightarrow> b = 0"
proof -
  have "b - 32 \<noteq> 0" if "97 \<le> b"
  proof
    assume "b - 32 = 0"
    then have "b = 32" by simp
    with that show False by simp
  qed
  then show ?thesis by (auto simp: toupper_def)
qed

lemma nul_free_map_toupper [simp]: "nul_free (map toupper s) \<longleftrightarrow> nul_free s"
  by (auto simp: nul_free_def image_iff)

lemma toupper_idem [simp]: "toupper (toupper b) = toupper b"
proof (cases "97 \<le> b \<and> b \<le> 122")
  case True
  then have "unat (b - 32) = unat b - 32"
    by (simp add: unat_sub_if' word_le_nat_alt)
  with True have "\<not> 97 \<le> unat (b - 32)"
    by (auto simp: word_le_nat_alt)
  then have "\<not> 97 \<le> b - 32"
    by (simp add: word_le_nat_alt)
  with True show ?thesis by (simp add: toupper_def)
qed (simp add: toupper_def)

end
