(* ===== verification/Queues.thy ===== *)
theory Queues
  imports Prelude
begin

text \<open>
  The contract of a FIFO queue of requests: what is enqueued comes out in order, and taking
  from the empty queue is an error.  Interpreted in \<open>Handler\<close> for the server's request queue,
  and used by the accept loop of \<open>Server\<close>.
\<close>

locale fifo =
  fixes enq :: "'a \<Rightarrow> 's \<Rightarrow> 's"
    and deq :: "'s \<Rightarrow> ('a \<times> 's) outcome"
    and pending :: "'s \<Rightarrow> bool"
    and elems :: "'s \<Rightarrow> 'a list"
    and on_empty :: exn
  assumes elems_enq: "elems (enq x s) = elems s @ [x]"
    and pending_iff: "pending s \<longleftrightarrow> elems s \<noteq> []"
    and deq_empty: "elems s = [] \<Longrightarrow> deq s = Throw on_empty"
    and deq_front: "elems s = x # xs \<Longrightarrow> \<exists>s'. deq s = Ret (x, s') \<and> elems s' = xs"
begin

lemma elems_enq_all: "elems (fold enq xs s) = elems s @ xs"
  by (induction xs arbitrary: s) (simp_all add: elems_enq)

lemma deq_pending: "pending s \<Longrightarrow> \<exists>s'. deq s = Ret (hd (elems s), s') \<and> elems s' = tl (elems s)"
  using deq_front [of s "hd (elems s)" "tl (elems s)"] by (simp add: pending_iff)

lemma deq_returns_iff: "returns (deq s) \<longleftrightarrow> pending s"
proof (cases "pending s")
  case True
  with deq_pending show ?thesis by fastforce
next
  case False
  then show ?thesis using deq_empty [of s] by (simp add: pending_iff)
qed

text \<open>Taking up to \<open>n\<close> elements while some are pending: the prefix, in order.\<close>

fun take_pending :: "nat \<Rightarrow> 's \<Rightarrow> ('a list \<times> 's) outcome" where
  "take_pending 0 s = Ret ([], s)"
| "take_pending (Suc n) s =
     (if pending s then
        obind (deq s) (\<lambda>(x, s). obind (take_pending n s) (\<lambda>(xs, s). Ret (x # xs, s)))
      else Ret ([], s))"

lemma take_pending_prefix:
  "\<exists>s'. take_pending n s = Ret (take n (elems s), s') \<and> elems s' = drop n (elems s)"
proof (induction n arbitrary: s)
  case (Suc n)
  show ?case
  proof (cases "pending s")
    case True
    then obtain x xs where xs: "elems s = x # xs" by (cases "elems s") (auto simp: pending_iff)
    from deq_front [OF xs] obtain s1 where s1: "deq s = Ret (x, s1)" "elems s1 = xs" by blast
    from Suc.IH [of s1] s1 True xs show ?thesis by auto
  next
    case False
    then have "elems s = []" by (simp add: pending_iff)
    with False show ?thesis by (simp del: take_pending.simps add: take_pending.simps(2))
  qed
qed simp

end

end
