(* ===== verification/Std_Text.thy ===== *)
theory Std_Text
  imports Prelude
begin

text \<open>
  The text routines of the C and C++ standard libraries that the program calls:
  \<open>std::stoul\<close> / \<open>std::stoull\<close> (64-bit on the target), \<open>std::to_string\<close> on unsigned values, \<open>inet_pton\<close> and
  \<open>inet_ntop\<close> for IPv4, and \<open>htons\<close> / \<open>ntohs\<close> on a little-endian host.  They are modelled because the
  option negotiation and the address handling of the program rest on them.
\<close>

subsection \<open>Decimal numbers\<close>

definition isspace :: "byte \<Rightarrow> bool" where
  "isspace b \<longleftrightarrow> b = 32 \<or> (9 \<le> b \<and> b \<le> 13)"

definition isdigit :: "byte \<Rightarrow> bool" where
  "isdigit b \<longleftrightarrow> 48 \<le> b \<and> b \<le> 57"

fun digits_val :: "nat \<Rightarrow> bytes \<Rightarrow> nat" where
  "digits_val acc [] = acc"
| "digits_val acc (d # ds) = digits_val (10 * acc + unat (d - 48)) ds"

definition strip_sign :: "bytes \<Rightarrow> bool \<times> bytes" where
  "strip_sign s = (case s of
      [] \<Rightarrow> (False, [])
    | b # r \<Rightarrow> if b = 45 then (True, r) else if b = 43 then (False, r) else (False, s))"

text \<open>
  \<open>std::stoul(s)\<close>: white space, an optional sign, then the longest run of digits; nothing
  converted is \<open>std::invalid_argument\<close>, a magnitude beyond 64 bits is \<open>std::out_of_range\<close>, and a minus
  sign negates modulo \<open>2^64\<close>.  \<open>std::stoull\<close> is the same function on this target.
\<close>

definition stoul :: "bytes \<Rightarrow> u64 outcome" where
  "stoul s =
     (let (neg, r) = strip_sign (dropWhile isspace (c_str s));
          ds = takeWhile isdigit r;
          v = digits_val 0 ds
      in if ds = [] then Throw (Invalid_argument ''stoul'')
         else if 2 ^ 64 \<le> v then Throw (Out_of_range ''stoul'')
         else Ret (if neg then - of_nat v else of_nat v))"

fun to_string :: "nat \<Rightarrow> bytes" where
  "to_string n = (if n < 10 then [48 + of_nat n]
                  else to_string (n div 10) @ [48 + of_nat (n mod 10)])"

declare to_string.simps [simp del]

lemma digits_val_append:
  "digits_val acc (xs @ ys) = digits_val (digits_val acc xs) ys"
  by (induction xs arbitrary: acc) auto

lemma byte_bound: "unat (b :: byte) < 256"
  by (rule order_less_le_trans [OF unsigned_less]) simp

lemma unat_digit: "n < 10 \<Longrightarrow> unat (48 + of_nat n :: byte) = 48 + n"
  by (simp add: unat_word_ariths unat_of_nat)

lemma unat_small: "n < 10 \<Longrightarrow> unat (of_nat n :: byte) = n"
  by (simp add: unat_of_nat)

lemma digit_minus_48: "n < 10 \<Longrightarrow> unat ((48 + of_nat n :: byte) - 48) = n"
  by (simp add: unat_of_nat)

lemma isdigit_digit: "n < 10 \<Longrightarrow> isdigit (48 + of_nat n)"
  by (simp add: isdigit_def word_le_nat_alt unat_digit)

lemma to_string_digits: "\<forall>b \<in> set (to_string n). isdigit b"
proof (induction n rule: to_string.induct)
  case (1 n)
  then show ?case
    by (subst to_string.simps) (auto simp: isdigit_digit)
qed

lemma to_string_nonempty [simp]: "to_string n \<noteq> []"
  by (subst to_string.simps) simp

lemma digits_val_to_string [simp]: "digits_val 0 (to_string n) = n"
proof (induction n rule: to_string.induct)
  case (1 n)
  then show ?case
    by (subst to_string.simps) (auto simp: digits_val_append unat_small)
qed

lemma isdigit_props:
  assumes "isdigit b"
  shows "\<not> isspace b" and "b \<noteq> 45" and "b \<noteq> 43" and "b \<noteq> 0" and "b \<noteq> 46"
proof -
  have nat: "48 \<le> unat b" "unat b \<le> 57"
    using assms by (simp_all add: isdigit_def word_le_nat_alt)
  then have "\<not> b \<le> 13" by (simp add: word_le_nat_alt)
  moreover have "b \<noteq> k" if "unat k < 48" for k
    using nat(1) that by auto
  ultimately show "\<not> isspace b" and "b \<noteq> 45" and "b \<noteq> 43" and "b \<noteq> 0" and "b \<noteq> 46"
    by (simp_all add: isspace_def)
qed

lemma nul_free_to_string [simp]: "nul_free (to_string n)"
  by (metis isdigit_props(4) nul_free_def to_string_digits)

lemma hd_to_string: "hd (to_string n) = 48 \<longleftrightarrow> n = 0"
proof (induction n rule: to_string.induct)
  case (1 n)
  have "(of_nat n :: byte) = 0 \<longleftrightarrow> n = 0" if "n < 10"
    using unat_small [OF that] by auto
  with 1 show ?case
    by (subst to_string.simps) auto
qed

lemma toupper_digit: "isdigit b \<Longrightarrow> toupper b = b"
  by (auto simp: isdigit_def toupper_def word_le_nat_alt)

lemma map_toupper_to_string [simp]: "map toupper (to_string n) = to_string n"
  using to_string_digits [of n] by (simp add: map_idI toupper_digit)

lemma strip_digits:
  assumes "ds \<noteq> []" and "\<forall>b \<in> set ds. isdigit b"
  shows "strip_sign (dropWhile isspace ds) = (False, ds)"
  using assms isdigit_props by (cases ds) (auto simp: strip_sign_def)

text \<open>Reading back a printed number gives the number.\<close>

lemma stoul_to_string:
  assumes "n < 2 ^ 64"
  shows "stoul (to_string n) = Ret (of_nat n)"
proof -
  have "takeWhile isdigit (to_string n) = to_string n"
    using to_string_digits by (simp add: takeWhile_eq_all_conv)
  note digits = this
  show ?thesis
    using assms by (simp add: stoul_def Let_def strip_digits to_string_digits digits)
qed

subsection \<open>IPv4 addresses and ports\<close>

text \<open>The four bytes of \<open>in_addr::s_addr\<close> as they lie in memory (network order).\<close>

datatype in_addr = In_addr byte byte byte byte

definition INADDR_ANY :: in_addr where
  "INADDR_ANY = In_addr 0 0 0 0"

definition htons :: "u16 \<Rightarrow> u16" where
  "htons w = be16 (lo_byte w) (hi_byte w)"

definition ntohs :: "u16 \<Rightarrow> u16" where
  "ntohs w = be16 (lo_byte w) (hi_byte w)"

lemma ntohs_htons [simp]: "ntohs (htons w) = w"
  by (simp add: ntohs_def htons_def hi_byte_be16 lo_byte_be16)

lemma htons_htons [simp]: "htons (htons w) = w"
  by (simp add: htons_def hi_byte_be16 lo_byte_be16)

text \<open>\<open>inet_ntop(AF_INET, ...)\<close>: the dotted quad, or \<open>NULL\<close> when it does not fit the buffer with its NUL.\<close>

fun dotted_quad :: "in_addr \<Rightarrow> bytes" where
  "dotted_quad (In_addr a b c d) =
     to_string (unat a) @ 46 # to_string (unat b) @ 46 # to_string (unat c) @ 46 # to_string (unat d)"

definition inet_ntop :: "in_addr \<Rightarrow> nat \<Rightarrow> bytes option" where
  "inet_ntop a sz = (if length (dotted_quad a) < sz then Some (dotted_quad a) else None)"

text \<open>\<open>inet_pton(AF_INET, ...)\<close>: four decimal octets without leading zeros, separated by dots.\<close>

fun split_on :: "byte \<Rightarrow> bytes \<Rightarrow> bytes list" where
  "split_on sep [] = [[]]"
| "split_on sep (b # bs) =
     (if b = sep then [] # split_on sep bs
      else (case split_on sep bs of [] \<Rightarrow> [[b]] | w # ws \<Rightarrow> (b # w) # ws))"

definition parse_octet :: "bytes \<Rightarrow> byte option" where
  "parse_octet ds =
     (if ds \<noteq> [] \<and> list_all isdigit ds \<and> (hd ds = 48 \<longrightarrow> length ds = 1) \<and> digits_val 0 ds \<le> 255
      then Some (of_nat (digits_val 0 ds)) else None)"

definition inet_pton :: "bytes \<Rightarrow> in_addr option" where
  "inet_pton s = (case map parse_octet (split_on 46 (c_str s)) of
      [Some a, Some b, Some c, Some d] \<Rightarrow> Some (In_addr a b c d)
    | _ \<Rightarrow> None)"

lemma split_on_no_sep: "sep \<notin> set w \<Longrightarrow> split_on sep w = [w]"
  by (induction w) auto

lemma split_on_sep: "sep \<notin> set w \<Longrightarrow> split_on sep (w @ sep # r) = w # split_on sep r"
  by (induction w) auto

lemma no_dot_to_string [simp]: "46 \<notin> set (to_string n)"
  by (metis isdigit_props(5) to_string_digits)

lemma parse_octet_to_string [simp]: "parse_octet (to_string (unat b)) = Some b"
proof -
  have bound: "unat b \<le> 255"
    using byte_bound [of b] by simp
  have len: "length (to_string n) = 1" if "hd (to_string n) = 48" for n
    using that by (simp add: hd_to_string to_string.simps [of 0])
  have "list_all isdigit (to_string (unat b))"
    using to_string_digits [of "unat b"] by (simp add: list_all_iff)
  with bound len show ?thesis
    by (simp add: parse_octet_def)
qed

lemma nul_free_dotted_quad [simp]: "nul_free (dotted_quad a)"
  by (cases a) simp

lemma inet_pton_dotted_quad [simp]: "inet_pton (dotted_quad a) = Some a"
  by (cases a) (simp add: inet_pton_def split_on_sep split_on_no_sep del: to_string.simps)

lemma dotted_quad_nonempty [simp]: "dotted_quad a \<noteq> []"
  by (cases a) simp

lemma length_to_string_byte: "length (to_string (unat (b :: byte))) \<le> 3"
proof -
  have "unat b < 1000"
    using byte_bound [of b] by simp
  then have "unat b div 10 div 10 < 10" by simp
  then show ?thesis
    by (subst to_string.simps, subst (1) to_string.simps, subst (1) to_string.simps) simp
qed

text \<open>A dotted quad always fits \<open>INET_ADDRSTRLEN\<close> (16), so \<open>inet_ntop\<close> does not fail in this program.\<close>

lemma inet_ntop_16: "inet_ntop a 16 = Some (dotted_quad a)"
proof (cases a)
  case (In_addr w x y z)
  have "length (dotted_quad a) \<le> 15"
    using length_to_string_byte [of w] length_to_string_byte [of x]
      length_to_string_byte [of y] length_to_string_byte [of z]
    by (simp add: In_addr)
  then show ?thesis by (simp add: inet_ntop_def)
qed

end
