(* ===== verification/Utils.thy ===== *)
theory Utils
  imports Std_Text
begin

text \<open>
  The functions of \<open>src/common/utils.cpp\<close> (and the formatters of \<open>include/common/utils.hpp\<close>): the
  netascii conversions, the extraction of NUL-terminated strings, the sub-path test the
  server confines requests with, socket addresses, and the thin wrappers around \<open>ioctl\<close> and
  \<open>stat\<close>, whose answers are arguments.
\<close>

subsection \<open>Netascii\<close>

abbreviation CR :: byte where "CR \<equiv> 0x0D"
abbreviation LF :: byte where "LF \<equiv> 0x0A"

fun native_to_netascii :: "bytes \<Rightarrow> bytes" where
  "native_to_netascii [] = []"
| "native_to_netascii (c # data) =
     (if c = LF then CR # LF # native_to_netascii data
      else if c = CR then CR # 0 # native_to_netascii data
      else c # native_to_netascii data)"

text \<open>
  The \<open>while\<close> loop of \<open>netascii_to_native\<close> from its iterator on.  On CR NUL the CR is pushed and
  both characters are passed; on CR LF only the CR is passed and the next round of the
  loop pushes the LF; anything else after a CR throws.
\<close>

fun netascii_to_native :: "bytes \<Rightarrow> bytes outcome" where
  "netascii_to_native [] = Ret []"
| "netascii_to_native [c] =
     (if c = CR then Throw (Runtime_error ''Invalid character sequence : EOL after CR'')
      else Ret [c])"
| "netascii_to_native (c # nxt # data) =
     (if c = CR then
        (if nxt = 0 then obind (netascii_to_native data) (\<lambda>r. Ret (CR # r))
         else if nxt = LF then netascii_to_native (nxt # data)
         else Throw (Runtime_error ''Invalid character sequence : CR with no LF or NULL''))
      else obind (netascii_to_native (nxt # data)) (\<lambda>r. Ret (c # r)))"

lemma netascii_to_native_other:
  "c \<noteq> CR \<Longrightarrow> netascii_to_native (c # data) = obind (netascii_to_native data) (\<lambda>r. Ret (c # r))"
  by (cases data) auto

lemma native_to_netascii_append [simp]:
  "native_to_netascii (xs @ ys) = native_to_netascii xs @ native_to_netascii ys"
  by (induction xs) auto

lemma native_to_netascii_length:
  "length xs \<le> length (native_to_netascii xs)" "length (native_to_netascii xs) \<le> 2 * length xs"
  by (induction xs) auto

lemma native_to_netascii_eq_Nil [simp]: "native_to_netascii xs = [] \<longleftrightarrow> xs = []"
  by (cases xs) auto

lemma netascii_roundtrip: "netascii_to_native (native_to_netascii xs) = Ret xs"
proof (induction xs)
  case (Cons c xs)
  then show ?case
    by (auto simp: netascii_to_native_other)
qed simp

lemma netascii_to_native_append:
  "netascii_to_native xs = Ret xs' \<Longrightarrow>
   netascii_to_native (xs @ ys) = obind (netascii_to_native ys) (\<lambda>r. Ret (xs' @ r))"
proof (induction xs arbitrary: xs' rule: netascii_to_native.induct)
  case 1
  then show ?case by (cases "netascii_to_native ys") auto
next
  case (2 c)
  then show ?case by (auto simp: netascii_to_native_other split: if_splits)
next
  case (3 c nxt data)
  then show ?case
    by (cases "netascii_to_native ys")
      (auto simp: outcome_simps netascii_to_native_other split: if_splits)
qed

text \<open>
  A piece of text converts on its own exactly when it does not end inside a CR pair:
  a block boundary between CR and its partner makes the conversion of the first block throw.
\<close>

lemma netascii_to_native_trailing_CR:
  assumes "netascii_to_native xs = Ret xs'"
  shows "netascii_to_native (xs @ [CR]) =
    Throw (Runtime_error ''Invalid character sequence : EOL after CR'')"
  using netascii_to_native_append [OF assms, of "[CR]"] by simp

text \<open>
  So of a text that converts, a first part either converts by itself or ends in the CR of a pair,
  and then it does not.
\<close>

lemma netascii_prefix_CR:
  "netascii_to_native (xs @ ys) = Ret z \<Longrightarrow> xs \<noteq> [] \<Longrightarrow> last xs = CR \<Longrightarrow>
   netascii_to_native xs = Throw (Runtime_error ''Invalid character sequence : EOL after CR'')"
proof (induction xs arbitrary: z rule: netascii_to_native.induct)
  case (3 c nxt data)
  then show ?case by (auto simp: outcome_simps split: if_splits)
qed auto

lemma netascii_prefix_whole:
  "netascii_to_native (xs @ ys) = Ret z \<Longrightarrow> xs = [] \<or> last xs \<noteq> CR \<Longrightarrow>
   \<exists>x y. netascii_to_native xs = Ret x \<and> netascii_to_native ys = Ret y \<and> z = x @ y"
proof (induction xs arbitrary: z rule: netascii_to_native.induct)
  case (2 c)
  then show ?case by (auto simp: netascii_to_native_other outcome_simps)
next
  case (3 c nxt data)
  consider (cr_nul) "c = CR" "nxt = 0" | (cr_lf) "c = CR" "nxt = LF" | (other) "c \<noteq> CR"
    using 3(4) by (auto split: if_splits)
  then show ?case
  proof cases
    case cr_nul
    with 3(4) obtain r where r: "netascii_to_native (data @ ys) = Ret r" "z = CR # r"
      by (auto simp: outcome_simps)
    from 3(1) [OF cr_nul r(1)] 3(5) cr_nul r(2) show ?thesis by (auto split: if_splits)
  next
    case cr_lf
    with 3(2) [OF cr_lf(1) _ cr_lf(2), of z] 3(4,5) show ?thesis by simp
  next
    case other
    with 3(4) obtain r where r: "netascii_to_native ((nxt # data) @ ys) = Ret r" "z = c # r"
      by (auto simp: outcome_simps)
    from 3(3) [OF other r(1)] 3(5) other r(2) show ?thesis by auto
  qed
qed auto

lemma netascii_to_native_length:
  "netascii_to_native xs = Ret ys \<Longrightarrow> length ys \<le> length xs"
proof (induction xs arbitrary: ys rule: netascii_to_native.induct)
  case (3 c nxt data)
  then show ?case by (fastforce simp: outcome_simps split: if_splits)
qed (auto split: if_splits)

lemma netascii_to_native_no_CR:
  "CR \<notin> set xs \<Longrightarrow> netascii_to_native xs = Ret xs"
  by (induction xs) (auto simp: netascii_to_native_other)

lemma netascii_to_native_cases:
  "(\<exists>ys. netascii_to_native xs = Ret ys) \<or>
   (\<exists>m. netascii_to_native xs = Throw (Runtime_error m))"
proof (induction xs rule: netascii_to_native.induct)
  case (3 c nxt data)
  then show ?case by auto
qed auto

subsection \<open>NUL-terminated strings\<close>

text \<open>
  The loop of \<open>extract_c_strings_from_buffer\<close>, from iterator \<open>start\<close>: each NUL found closes a string;
  what follows the last NUL is dropped.  Both callers check that the buffer is at least
  \<open>offset\<close> long; advancing \<open>begin()\<close> further is undefined in C++ and yields no string here.
\<close>

function c_strings :: "bytes \<Rightarrow> bytes list" where
  "c_strings start =
     (if 0 \<in> set start
      then takeWhile (\<lambda>b. b \<noteq> 0) start # c_strings (tl (dropWhile (\<lambda>b. b \<noteq> 0) start))
      else [])"
  by pat_completeness auto
termination
proof (relation "measure length")
  fix start :: bytes
  assume "0 \<in> set start"
  then have "start \<noteq> []" by auto
  then show "(tl (dropWhile (\<lambda>b. b \<noteq> 0) start), start) \<in> measure length"
    using length_dropWhile_le [of "\<lambda>b. b \<noteq> 0" start]
    by (cases start) (auto simp: less_Suc_eq_le)
qed simp

definition extract_c_strings_from_buffer :: "bytes \<Rightarrow> nat \<Rightarrow> bytes list" where
  "extract_c_strings_from_buffer buffer offset = c_strings (drop offset buffer)"

declare c_strings.simps [simp del]

definition nul_terminated :: "bytes list \<Rightarrow> bytes" where
  "nul_terminated ss = concat (map (\<lambda>s. s @ [0]) ss)"

lemma nul_terminated_simps [simp]:
  "nul_terminated [] = []"
  "nul_terminated (s # ss) = s @ 0 # nul_terminated ss"
  "nul_terminated (xs @ ys) = nul_terminated xs @ nul_terminated ys"
  by (simp_all add: nul_terminated_def)

lemma c_strings_no_nul [simp]: "0 \<notin> set r \<Longrightarrow> c_strings r = []"
  by (subst c_strings.simps) simp

lemma c_strings_cons [simp]:
  "nul_free s \<Longrightarrow> c_strings (s @ 0 # r) = s # c_strings r"
  by (subst c_strings.simps) (simp add: nul_free_def)

lemma c_strings_nul_terminated:
  "\<forall>s \<in> set ss. nul_free s \<Longrightarrow> 0 \<notin> set r \<Longrightarrow> c_strings (nul_terminated ss @ r) = ss"
  by (induction ss) auto

lemma c_strings_nul_free: "s \<in> set (c_strings xs) \<Longrightarrow> nul_free s"
proof (induction xs rule: c_strings.induct)
  case (1 start)
  then show ?case
    by (subst (asm) (2) c_strings.simps)
      (auto simp: nul_free_def dest: set_takeWhileD split: if_splits)
qed

lemma c_strings_decompose:
  "\<exists>r. 0 \<notin> set r \<and> xs = nul_terminated (c_strings xs) @ r"
proof (induction xs rule: c_strings.induct)
  case (1 start)
  show ?case
  proof (cases "0 \<in> set start")
    case True
    then have drop: "dropWhile (\<lambda>b. b \<noteq> 0) start = 0 # tl (dropWhile (\<lambda>b. b \<noteq> 0) start)"
      by (metis (mono_tags, lifting) dropWhile_eq_Nil_conv hd_dropWhile list.collapse)
    obtain r where r: "0 \<notin> set r"
        "tl (dropWhile (\<lambda>b. b \<noteq> 0) start) =
          nul_terminated (c_strings (tl (dropWhile (\<lambda>b. b \<noteq> 0) start))) @ r"
      using 1 True by blast
    have "start = takeWhile (\<lambda>b. b \<noteq> 0) start @ 0 # tl (dropWhile (\<lambda>b. b \<noteq> 0) start)"
      using drop takeWhile_dropWhile_id [of "\<lambda>b. b \<noteq> 0" start] by simp
    also have "\<dots> = nul_terminated (c_strings start) @ r"
      using True by (subst c_strings.simps) (simp flip: r(2))
    finally show ?thesis using r(1) by blast
  qed (auto intro: exI [of _ start])
qed

subsection \<open>Paths\<close>

text \<open>
  The elements that \<open>begin()\<close> .. \<open>end()\<close> of a POSIX \<open>std::filesystem::path\<close> visit: the root directory
  of an absolute path, the file names, and an empty element for a trailing slash.
\<close>

abbreviation slash :: byte where "slash \<equiv> 0x2F"

definition path_elems :: "bytes \<Rightarrow> bytes list" where
  "path_elems p =
     (let names = filter (\<lambda>n. n \<noteq> []) (split_on slash p)
      in (if p \<noteq> [] \<and> hd p = slash then [[slash]] else []) @ names @
         (if names \<noteq> [] \<and> last p = slash then [[]] else []))"

text \<open>\<open>path::operator/=\<close>: an absolute right operand replaces the left one.\<close>

definition path_append :: "bytes \<Rightarrow> bytes \<Rightarrow> bytes" where
  "path_append p q =
     (if q \<noteq> [] \<and> hd q = slash then q
      else if p \<noteq> [] \<and> last p \<noteq> slash then p @ slash # q
      else p @ q)"

text \<open>\<open>path::filename\<close>: what follows the last slash.\<close>

definition path_filename :: "bytes \<Rightarrow> bytes" where
  "path_filename p = last (split_on slash p)"

text \<open>\<open>std::mismatch\<close> over two ranges, as the pair of ranges that remain where they part.\<close>

fun mismatch :: "'a list \<Rightarrow> 'a list \<Rightarrow> 'a list \<times> 'a list" where
  "mismatch (x # xs) (y # ys) = (if x = y then mismatch xs ys else (x # xs, y # ys))"
| "mismatch xs ys = (xs, ys)"

definition is_subpath :: "bytes \<Rightarrow> bytes \<Rightarrow> bool" where
  "is_subpath path base = (snd (mismatch (path_elems path) (path_elems base)) = [])"

lemma mismatch_prefix: "snd (mismatch xs ys) = [] \<longleftrightarrow> prefix ys xs"
  by (induction xs ys rule: mismatch.induct) auto

lemma is_subpath_prefix: "is_subpath path base \<longleftrightarrow> prefix (path_elems base) (path_elems path)"
  by (simp add: is_subpath_def mismatch_prefix)

subsection \<open>Socket addresses\<close>

record sockaddr_in =
  sin_port :: u16 \<comment> \<open>network byte order\<close>
  sin_addr :: in_addr

definition to_sockaddr_in :: "bytes \<Rightarrow> u16 \<Rightarrow> sockaddr_in option" where
  "to_sockaddr_in addr port =
     (if addr = [] then Some \<lparr>sin_port = htons port, sin_addr = INADDR_ANY\<rparr>
      else (case inet_pton addr of
          None \<Rightarrow> None
        | Some a \<Rightarrow> Some \<lparr>sin_port = htons port, sin_addr = a\<rparr>))"

text \<open>\<open>operator<<\<close> for \<open>sockaddr_in\<close>, \<open>sockaddr_to_str\<close>, which calls it, and the \<open>fmt\<close> formatter.\<close>

definition put_sockaddr :: "bytes \<Rightarrow> sockaddr_in \<Rightarrow> bytes" where
  "put_sockaddr os sa =
     os @ (case inet_ntop (sin_addr sa) 16 of
        None \<Rightarrow> bytes_of ''unknown:'' @ to_string (unat (htons (sin_port sa)))
      | Some addr_buf \<Rightarrow> addr_buf @ bytes_of '':'' @ to_string (unat (htons (sin_port sa))))"

definition sockaddr_to_str :: "sockaddr_in \<Rightarrow> bytes" where
  "sockaddr_to_str sa = put_sockaddr [] sa"

definition format_sockaddr :: "sockaddr_in \<Rightarrow> bytes" where
  "format_sockaddr sa =
     (case inet_ntop (sin_addr sa) 16 of
        None \<Rightarrow> bytes_of ''unknown:'' @ to_string (unat (htons (sin_port sa)))
      | Some addr_buf \<Rightarrow> addr_buf @ bytes_of '':'' @ to_string (unat (htons (sin_port sa))))"

lemma to_sockaddr_in_dotted [simp]:
  "to_sockaddr_in (dotted_quad a) p = Some \<lparr>sin_port = htons p, sin_addr = a\<rparr>"
  by (simp add: to_sockaddr_in_def)

lemma sockaddr_to_str_text:
  "sockaddr_to_str \<lparr>sin_port = htons p, sin_addr = a\<rparr> =
     dotted_quad a @ bytes_of '':'' @ to_string (unat p)"
  "format_sockaddr sa = sockaddr_to_str sa"
  by (simp_all add: sockaddr_to_str_def put_sockaddr_def format_sockaddr_def inet_ntop_16)

subsection \<open>System queries\<close>

text \<open>\<open>get_mtu\<close>: the answer of \<open>ioctl(SIOCGIFMTU)\<close> is \<open>ret\<close> with \<open>ifr_mtu\<close> filled in.\<close>

definition get_mtu :: "int \<Rightarrow> int \<Rightarrow> int" where
  "get_mtu ret ifr_mtu = (if ret < 0 then -1 else ifr_mtu)"

text \<open>\<open>get_file_size\<close>: \<open>stat\<close> answers with the size, or fails.\<close>

definition get_file_size :: "nat option \<Rightarrow> nat" where
  "get_file_size stat = (case stat of Some st_size \<Rightarrow> st_size | None \<Rightarrow> 0)"

end
