(* ===== verification/Codec.thy ===== *)
theory Codec
  imports Prelude
begin

text \<open>
  The contract of a packet format: what is encoded decodes to itself (\<open>codec\<close>), and the second
  byte of the datagram tells the format (\<open>tagged_codec\<close>), so a decoder refuses every datagram of
  another format.  Interpreted in \<open>Packets\<close> for the five TFTP formats.
\<close>

locale codec =
  fixes encode :: "'p \<Rightarrow> bytes"
    and decode :: "bytes \<Rightarrow> 'p option"
    and valid :: "'p \<Rightarrow> bool"
  assumes decode_encode: "valid p \<Longrightarrow> decode (encode p) = Some p"
begin

lemma encode_injective:
  assumes "valid p" and "valid q" and "encode p = encode q"
  shows "p = q"
  using assms decode_encode by (metis option.inject)

lemma encode_inj_on: "inj_on encode {p. valid p}"
  by (auto intro: inj_onI encode_injective)

end

locale tagged_codec = codec encode decode valid
  for encode :: "'p \<Rightarrow> bytes" and decode :: "bytes \<Rightarrow> 'p option" and valid :: "'p \<Rightarrow> bool" +
  fixes tags :: "byte set"
  assumes encode_tag: "valid p \<Longrightarrow> 1 < length (encode p) \<and> encode p ! 1 \<in> tags"
    and decode_tag: "decode d = Some p \<Longrightarrow> 1 < length d \<and> d ! 1 \<in> tags"
begin

lemma decode_other_tag: "d ! 1 \<notin> tags \<Longrightarrow> decode d = None"
  using decode_tag by (cases "decode d") auto

lemma decode_short: "length d < 2 \<Longrightarrow> decode d = None"
  using decode_tag [of d] by (cases "decode d") (auto simp: not_less)

text \<open>A datagram one format produces is refused by every decoder whose tags are disjoint.\<close>

lemma foreign_refused:
  assumes "valid p" and "tags \<inter> tags' = {}"
    and "\<And>d q. dec' d = Some q \<Longrightarrow> 1 < length d \<and> d ! 1 \<in> tags'"
  shows "dec' (encode p) = None"
  using assms encode_tag by (cases "dec' (encode p)") fastforce+

end

end
