(* ===== verification/Packets.thy ===== *)
theory Packets
  imports Utils Codec
begin

text \<open>
  The packet formats of \<open>include/common/tftp.hpp\<close> and \<open>src/common/tftp.cpp\<close>: the packet and error codes,
  the packet structs as records, and the five serialisers and deserialisers.
\<close>

subsection \<open>Constants, enumerations and structs\<close>

definition DATA_PKT_MAX_SIZE :: nat where "DATA_PKT_MAX_SIZE = 516"
definition DATA_PKT_DATA_MAX_SIZE :: nat where "DATA_PKT_DATA_MAX_SIZE = 512"
definition ACK_PKT_MAX_SIZE :: nat where "ACK_PKT_MAX_SIZE = 4"

datatype packet_t = READ | WRITE | DATA | ACK | ERROR | OACK

fun packet_code :: "packet_t \<Rightarrow> byte" where
  "packet_code READ = 1"
| "packet_code WRITE = 2"
| "packet_code DATA = 3"
| "packet_code ACK = 4"
| "packet_code ERROR = 5"
| "packet_code OACK = 6"

lemma packet_code_inject [simp]: "packet_code a = packet_code b \<longleftrightarrow> a = b"
  by (cases a; cases b) simp_all

text \<open>A scoped enumeration is ordered by its underlying value.\<close>

instantiation packet_t :: linorder
begin

definition less_eq_packet_t :: "packet_t \<Rightarrow> packet_t \<Rightarrow> bool" where
  "less_eq_packet_t a b \<longleftrightarrow> packet_code a \<le> packet_code b"

definition less_packet_t :: "packet_t \<Rightarrow> packet_t \<Rightarrow> bool" where
  "less_packet_t a b \<longleftrightarrow> packet_code a < packet_code b"

instance
  by standard (auto simp: less_eq_packet_t_def less_packet_t_def order_less_le)

end

datatype mode_t = NETASCII | OCTET

datatype error_t =
    NOT_DEFINED | FILE_NOT_FOUND | ACCESS_ERROR | DISK_FULL | ILLEGAL_OPERATION
  | UNKNOWN_TID | FILE_EXISTS | NO_USER

fun error_value :: "error_t \<Rightarrow> u16" where
  "error_value NOT_DEFINED = 0"
| "error_value FILE_NOT_FOUND = 1"
| "error_value ACCESS_ERROR = 2"
| "error_value DISK_FULL = 3"
| "error_value ILLEGAL_OPERATION = 4"
| "error_value UNKNOWN_TID = 5"
| "error_value FILE_EXISTS = 6"
| "error_value NO_USER = 7"

fun error_code_to_string :: "error_t \<Rightarrow> bytes" where
  "error_code_to_string NOT_DEFINED = bytes_of ''Not defined''"
| "error_code_to_string FILE_NOT_FOUND = bytes_of ''File not found''"
| "error_code_to_string ACCESS_ERROR = bytes_of ''Access violation''"
| "error_code_to_string DISK_FULL = bytes_of ''Disk full or allocation exceeded''"
| "error_code_to_string ILLEGAL_OPERATION = bytes_of ''Illegal TFTP operation''"
| "error_code_to_string UNKNOWN_TID = bytes_of ''Unknown transfer ID''"
| "error_code_to_string FILE_EXISTS = bytes_of ''File already exists''"
| "error_code_to_string NO_USER = bytes_of ''No such user''"

type_synonym tftp_option = "bytes \<times> bytes"

record rw_packet_t =
  rw_type :: packet_t
  rw_filename :: bytes
  rw_mode :: mode_t
  rw_options :: "tftp_option list"

record oack_packet_t =
  oack_options :: "tftp_option list"

record data_packet_t =
  pkt_data :: bytes
  data_block_number :: u16

record ack_packet_t =
  ack_block_number :: u16

record error_packet_t =
  error_msg :: bytes
  error_code :: u16

lemma data_packet_update [simp]:
  "p\<lparr>pkt_data := d, data_block_number := n\<rparr> = \<lparr>pkt_data = d, data_block_number = n\<rparr>"
  by (cases p) simp

definition new_data_packet :: data_packet_t where
  "new_data_packet = \<lparr>pkt_data = [], data_block_number = 0\<rparr>"

definition new_error_packet :: error_packet_t where
  "new_error_packet = \<lparr>error_msg = [], error_code = 0\<rparr>"

definition mk_error_packet :: "error_t \<Rightarrow> string \<Rightarrow> error_packet_t" where
  "mk_error_packet code msg = \<lparr>error_msg = bytes_of msg, error_code = error_value code\<rparr>"

definition mk_rw_packet :: "bytes \<Rightarrow> packet_t \<Rightarrow> mode_t \<Rightarrow> rw_packet_t" where
  "mk_rw_packet f t m = \<lparr>rw_type = t, rw_filename = f, rw_mode = m, rw_options = []\<rparr>"

subsection \<open>Transfer modes\<close>

definition OCTET_MODE_STR :: bytes where "OCTET_MODE_STR = bytes_of ''OCTET''"
definition NETASCII_MODE_STR :: bytes where "NETASCII_MODE_STR = bytes_of ''NETASCII''"

definition string_to_mode_t :: "bytes \<Rightarrow> mode_t option" where
  "string_to_mode_t mode_str =
     (let s = map toupper mode_str
      in if c_str s = OCTET_MODE_STR then Some OCTET
         else if c_str s = NETASCII_MODE_STR then Some NETASCII
         else None)"

fun mode_t_to_string :: "mode_t \<Rightarrow> bytes" where
  "mode_t_to_string OCTET = OCTET_MODE_STR"
| "mode_t_to_string NETASCII = NETASCII_MODE_STR"

lemma mode_str_bytes:
  "OCTET_MODE_STR = [0x4F, 0x43, 0x54, 0x45, 0x54]"
  "NETASCII_MODE_STR = [0x4E, 0x45, 0x54, 0x41, 0x53, 0x43, 0x49, 0x49]"
  by (simp_all add: OCTET_MODE_STR_def NETASCII_MODE_STR_def bytes_of_def)

lemma string_to_mode_t_to_string [simp]: "string_to_mode_t (mode_t_to_string m) = Some m"
  by (cases m)
    (simp_all add: string_to_mode_t_def Let_def mode_str_bytes toupper_def c_str_def)

lemma nul_free_mode [simp]: "nul_free (mode_t_to_string m)"
  by (cases m) (simp_all add: mode_str_bytes)

lemma string_to_mode_t_upper: "string_to_mode_t (map toupper s) = string_to_mode_t s"
  by (simp add: string_to_mode_t_def comp_def)

text \<open>How the receiver of a transfer in a mode reads a payload.\<close>

definition mode_decode :: "mode_t \<Rightarrow> bytes \<Rightarrow> bytes outcome" where
  "mode_decode mode d = (if mode = OCTET then Ret d else netascii_to_native d)"

subsection \<open>Serialisers\<close>

definition serialise_rw_packet :: "rw_packet_t \<Rightarrow> bytes" where
  "serialise_rw_packet packet =
     [0, packet_code (rw_type packet)] @ rw_filename packet @ [0] @
     mode_t_to_string (rw_mode packet) @ [0]"

definition serialise_data_packet :: "data_packet_t \<Rightarrow> bytes" where
  "serialise_data_packet packet =
     [0, packet_code DATA, hi_byte (data_block_number packet), lo_byte (data_block_number packet)]
     @ pkt_data packet"

definition serialise_ack_packet :: "ack_packet_t \<Rightarrow> bytes" where
  "serialise_ack_packet packet =
     [0, packet_code ACK, hi_byte (ack_block_number packet), lo_byte (ack_block_number packet)]"

definition serialise_error_packet :: "error_packet_t \<Rightarrow> bytes" where
  "serialise_error_packet packet =
     [0, packet_code ERROR, hi_byte (error_code packet), lo_byte (error_code packet)]
     @ error_msg packet @ [0]"

fun serialise_options :: "tftp_option list \<Rightarrow> bytes" where
  "serialise_options [] = []"
| "serialise_options (param # params) =
     fst param @ [0] @ snd param @ [0] @ serialise_options params"

definition serialise_oack_packet :: "oack_packet_t \<Rightarrow> bytes" where
  "serialise_oack_packet packet =
     [0, packet_code OACK] @ serialise_options (oack_options packet)"

subsection \<open>Deserialisers\<close>

text \<open>
  The loop \<open>for (i = ...; i < params.size(); i += 2)\<close> over an even number of strings; the opcode tests
  look at the second byte only and stand behind the length test, as \<open>data.at(1)\<close> does.
\<close>

fun option_pairs :: "bytes list \<Rightarrow> tftp_option list" where
  "option_pairs (k # v # params) = (k, v) # option_pairs params"
| "option_pairs _ = []"

definition upcase_option :: "tftp_option \<Rightarrow> tftp_option" where
  "upcase_option opt = (map toupper (fst opt), map toupper (snd opt))"

definition deserialise_rw_packet :: "bytes \<Rightarrow> rw_packet_t option" where
  "deserialise_rw_packet data =
     (if length data < 4 \<or> (data ! 1 \<noteq> packet_code READ \<and> data ! 1 \<noteq> packet_code WRITE) then None
      else let type = (if data ! 1 = packet_code READ then READ else WRITE);
               params = extract_c_strings_from_buffer data 2
           in if length params < 2 then None
              else (case string_to_mode_t (params ! 1) of
                  None \<Rightarrow> None
                | Some mode \<Rightarrow>
                    Some \<lparr>rw_type = type, rw_filename = params ! 0, rw_mode = mode,
                          rw_options = (if length params mod 2 \<noteq> 0 then []
                                        else map upcase_option (option_pairs (drop 2 params)))\<rparr>))"

definition deserialise_data_packet :: "bytes \<Rightarrow> data_packet_t option" where
  "deserialise_data_packet data =
     (if length data < 4 \<or> data ! 1 \<noteq> packet_code DATA then None
      else Some \<lparr>pkt_data = drop 4 data, data_block_number = be16 (data ! 2) (data ! 3)\<rparr>)"

definition deserialise_ack_packet :: "bytes \<Rightarrow> ack_packet_t option" where
  "deserialise_ack_packet data =
     (if length data < 4 \<or> data ! 1 \<noteq> packet_code ACK then None
      else Some \<lparr>ack_block_number = be16 (data ! 2) (data ! 3)\<rparr>)"

text \<open>Here the code widens the two \<open>char\<close>s without the \<open>unsigned char\<close> cast of the other decoders.\<close>

definition deserialise_error_packet :: "bytes \<Rightarrow> error_packet_t option" where
  "deserialise_error_packet data =
     (if length data < 5 \<or> data ! 1 \<noteq> packet_code ERROR then None
      else let msg = takeWhile (\<lambda>b. b \<noteq> 0) (drop 4 data)
           in if 0 \<notin> set (drop 4 data) then None
              else Some \<lparr>error_msg = msg, error_code = be16_signed (data ! 2) (data ! 3)\<rparr>)"

definition deserialise_oack_packet :: "bytes \<Rightarrow> oack_packet_t option" where
  "deserialise_oack_packet data =
     (if length data < 2 \<or> data ! 1 \<noteq> packet_code OACK then None
      else let params = extract_c_strings_from_buffer data 2
           in if length params mod 2 \<noteq> 0 then Some \<lparr>oack_options = []\<rparr>
              else Some \<lparr>oack_options = option_pairs params\<rparr>)"

lemmas serialise_defs [codec_simps] =
  serialise_rw_packet_def serialise_data_packet_def serialise_ack_packet_def
  serialise_error_packet_def serialise_oack_packet_def

lemmas deserialise_defs [codec_simps] =
  deserialise_rw_packet_def deserialise_data_packet_def deserialise_ack_packet_def
  deserialise_error_packet_def deserialise_oack_packet_def

subsection \<open>Options on the wire\<close>

definition option_strings :: "tftp_option list \<Rightarrow> bytes list" where
  "option_strings opts = concat (map (\<lambda>opt. [fst opt, snd opt]) opts)"

lemma option_strings_simps [simp]:
  "option_strings [] = []"
  "option_strings (opt # opts) = fst opt # snd opt # option_strings opts"
  by (simp_all add: option_strings_def)

lemma option_pairs_strings [simp]: "option_pairs (option_strings opts) = opts"
  by (induction opts) auto

lemma length_option_strings [simp]: "length (option_strings opts) = 2 * length opts"
  by (induction opts) auto

lemma serialise_options_strings: "serialise_options opts = nul_terminated (option_strings opts)"
  by (induction opts) auto

definition nul_free_options :: "tftp_option list \<Rightarrow> bool" where
  "nul_free_options opts \<longleftrightarrow> (\<forall>opt \<in> set opts. nul_free (fst opt) \<and> nul_free (snd opt))"

lemma nul_free_option_strings [simp]:
  "(\<forall>s \<in> set (option_strings opts). nul_free s) \<longleftrightarrow> nul_free_options opts"
  by (induction opts) (auto simp: nul_free_options_def)

lemma c_strings_strings [simp]:
  "\<forall>s \<in> set ss. nul_free s \<Longrightarrow> c_strings (nul_terminated ss) = ss"
  using c_strings_nul_terminated [of ss "[]"] by simp

subsection \<open>What the deserialisers accept\<close>

lemma deserialise_rw_packet_request:
  assumes "t = READ \<or> t = WRITE" and "nul_free f" and "nul_free m" and "nul_free_options opts"
    and "string_to_mode_t m = Some mode"
  shows "deserialise_rw_packet (b # packet_code t # nul_terminated (f # m # option_strings opts)) =
    Some \<lparr>rw_type = t, rw_filename = f, rw_mode = mode, rw_options = map upcase_option opts\<rparr>"
proof -
  have "c_strings (f @ 0 # m @ 0 # nul_terminated (option_strings opts)) = f # m # option_strings opts"
    using assms by simp
  with assms show ?thesis
    by (auto simp: deserialise_rw_packet_def extract_c_strings_from_buffer_def Let_def)
qed

lemma nul_free_options_simps [simp]:
  "nul_free_options []"
  "nul_free_options ((k, v) # opts) \<longleftrightarrow> nul_free k \<and> nul_free v \<and> nul_free_options opts"
  by (auto simp: nul_free_options_def)

lemma nul_free_upcase [simp]: "nul_free_options (map upcase_option opts) = nul_free_options opts"
  by (induction opts) (auto simp: nul_free_options_def upcase_option_def)

lemma nul_free_option_pairs:
  "\<forall>s \<in> set ss. nul_free s \<Longrightarrow> nul_free_options (option_pairs ss)"
  by (induction ss rule: option_pairs.induct) auto

lemma deserialise_rw_packet_SomeD:
  assumes "deserialise_rw_packet data = Some p"
  shows "1 < length data" and "data ! 1 = packet_code (rw_type p)"
    and "rw_type p = READ \<or> rw_type p = WRITE" and "nul_free (rw_filename p)"
    and "nul_free_options (rw_options p)"
proof -
  define params where "params = c_strings (drop 2 data)"
  have nf: "\<forall>s \<in> set params. nul_free s"
    unfolding params_def using c_strings_nul_free by blast
  have opts: "nul_free_options (option_pairs (drop 2 params))"
    using nf by (intro nul_free_option_pairs) (auto dest: in_set_dropD)
  from assms have two: "1 < length params" and data: "1 < length data"
    and type: "rw_type p = (if data ! 1 = packet_code READ then READ else WRITE)"
    and code: "data ! 1 = packet_code READ \<or> data ! 1 = packet_code WRITE"
    and name: "rw_filename p = params ! 0"
    and options: "rw_options p = [] \<or> rw_options p = map upcase_option (option_pairs (drop 2 params))"
    unfolding deserialise_rw_packet_def extract_c_strings_from_buffer_def params_def [symmetric] Let_def
    by (simp_all split: if_splits option.splits) auto
  show "1 < length data" by (rule data)
  show "data ! 1 = packet_code (rw_type p)" using type code by auto
  show "rw_type p = READ \<or> rw_type p = WRITE" using type by simp
  show "nul_free (rw_filename p)" by (metis name nf nth_mem two zero_less_one order_less_trans)
  show "nul_free_options (rw_options p)" using options opts by auto
qed

subsection \<open>The five formats as codecs\<close>

definition valid_rw :: "rw_packet_t \<Rightarrow> bool" where
  "valid_rw p \<longleftrightarrow>
     (rw_type p = READ \<or> rw_type p = WRITE) \<and> nul_free (rw_filename p) \<and> rw_options p = []"

definition valid_error :: "error_packet_t \<Rightarrow> bool" where
  "valid_error p \<longleftrightarrow> nul_free (error_msg p) \<and> \<not> bit (error_code p) 7"

definition valid_oack :: "oack_packet_t \<Rightarrow> bool" where
  "valid_oack p \<longleftrightarrow> nul_free_options (oack_options p)"

lemma deserialise_serialise_rw:
  assumes "valid_rw p"
  shows "deserialise_rw_packet (serialise_rw_packet p) = Some p"
proof -
  have "serialise_rw_packet p = 0 # packet_code (rw_type p) #
      nul_terminated (rw_filename p # mode_t_to_string (rw_mode p) # option_strings [])"
    by (simp add: serialise_rw_packet_def)
  with assms show ?thesis
    using deserialise_rw_packet_request [of "rw_type p" "rw_filename p" "mode_t_to_string (rw_mode p)" "[]"]
    by (cases p) (simp add: valid_rw_def)
qed

lemma deserialise_serialise_data: "deserialise_data_packet (serialise_data_packet p) = Some p"
  by (simp add: codec_simps)

lemma deserialise_serialise_ack: "deserialise_ack_packet (serialise_ack_packet p) = Some p"
  by (simp add: codec_simps)

lemma deserialise_serialise_error_code:
  "nul_free msg \<Longrightarrow>
   deserialise_error_packet (serialise_error_packet \<lparr>error_msg = msg, error_code = c\<rparr>) =
     Some \<lparr>error_msg = msg, error_code = (if bit c 7 then 0xFF00 OR c else c)\<rparr>"
  by (simp add: codec_simps Let_def nul_free_def)

lemma deserialise_serialise_error:
  "valid_error p \<Longrightarrow> deserialise_error_packet (serialise_error_packet p) = Some p"
  by (cases p) (simp add: deserialise_serialise_error_code valid_error_def)

lemma deserialise_serialise_oack:
  assumes "valid_oack p"
  shows "deserialise_oack_packet (serialise_oack_packet p) = Some p"
  using assms
  by (simp add: codec_simps Let_def valid_oack_def serialise_options_strings
      extract_c_strings_from_buffer_def)

lemma serialise_tags:
  "1 < length (serialise_rw_packet rp) \<and> serialise_rw_packet rp ! 1 = packet_code (rw_type rp)"
  "1 < length (serialise_data_packet dp) \<and> serialise_data_packet dp ! 1 = packet_code DATA"
  "1 < length (serialise_ack_packet ap) \<and> serialise_ack_packet ap ! 1 = packet_code ACK"
  "1 < length (serialise_error_packet ep) \<and> serialise_error_packet ep ! 1 = packet_code ERROR"
  "1 < length (serialise_oack_packet op) \<and> serialise_oack_packet op ! 1 = packet_code OACK"
  by (simp_all add: serialise_defs)

lemma deserialise_rw_tag:
  "deserialise_rw_packet d = Some rp \<Longrightarrow> 1 < length d \<and> d ! 1 \<in> {packet_code READ, packet_code WRITE}"
  using deserialise_rw_packet_SomeD [of d rp] by (cases "rw_type rp") auto

lemma deserialise_tags:
  "deserialise_data_packet d = Some dp \<Longrightarrow> 1 < length d \<and> d ! 1 = packet_code DATA"
  "deserialise_ack_packet d = Some ap \<Longrightarrow> 1 < length d \<and> d ! 1 = packet_code ACK"
  "deserialise_error_packet d = Some ep \<Longrightarrow> 1 < length d \<and> d ! 1 = packet_code ERROR"
  "deserialise_oack_packet d = Some op \<Longrightarrow> 1 < length d \<and> d ! 1 = packet_code OACK"
  by (auto simp: deserialise_defs Let_def split: if_splits)

interpretation rw_codec: tagged_codec serialise_rw_packet deserialise_rw_packet valid_rw
    "{packet_code READ, packet_code WRITE}"
  using serialise_tags(1) deserialise_rw_tag
  by unfold_locales (blast intro: deserialise_serialise_rw, auto simp: valid_rw_def)

interpretation data_codec: tagged_codec serialise_data_packet deserialise_data_packet
    "\<lambda>_. True" "{packet_code DATA}"
  using serialise_tags(2) deserialise_tags(1)
  by unfold_locales (auto simp only: deserialise_serialise_data)

interpretation ack_codec: tagged_codec serialise_ack_packet deserialise_ack_packet
    "\<lambda>_. True" "{packet_code ACK}"
  using serialise_tags(3) deserialise_tags(2)
  by unfold_locales (auto simp only: deserialise_serialise_ack)

interpretation error_codec: tagged_codec serialise_error_packet deserialise_error_packet
    valid_error "{packet_code ERROR}"
  using serialise_tags(4) deserialise_tags(3)
  by unfold_locales (auto simp only: deserialise_serialise_error)

interpretation oack_codec: tagged_codec serialise_oack_packet deserialise_oack_packet
    valid_oack "{packet_code OACK}"
  using serialise_tags(5) deserialise_tags(4)
  by unfold_locales (auto simp only: deserialise_serialise_oack)

text \<open>The lengths the receive buffers are dimensioned for.\<close>

lemma length_serialise [simp]:
  "length (serialise_data_packet dp) = 4 + length (pkt_data dp)"
  "length (serialise_ack_packet ap) = 4"
  "length (serialise_error_packet ep) = 5 + length (error_msg ep)"
  by (simp_all add: codec_simps)

lemma deserialise_data_Some [simp]:
  "deserialise_data_packet d = Some p \<Longrightarrow> length d = 4 + length (pkt_data p)"
  by (auto simp: deserialise_data_packet_def split: if_splits)

lemma data_not_error [simp]: "deserialise_error_packet (serialise_data_packet p) = None"
  by (rule error_codec.decode_other_tag) (simp add: serialise_data_packet_def)

lemma ack_not_error [simp]: "deserialise_error_packet (serialise_ack_packet p) = None"
  by (rule error_codec.decode_other_tag) (simp add: serialise_ack_packet_def)

lemma empty_not_packet [simp]:
  "deserialise_ack_packet [] = None" "deserialise_data_packet [] = None"
  "deserialise_error_packet [] = None" "deserialise_rw_packet [] = None"
  "deserialise_oack_packet [] = None"
  by (simp_all add: codec_simps)

text \<open>An ACK fits the receive buffer.\<close>

lemma recv_ack [simp]: "take ACK_PKT_MAX_SIZE (serialise_ack_packet p) = serialise_ack_packet p"
  by (simp add: ACK_PKT_MAX_SIZE_def)

end
