(* ===== verification/Udp.thy ===== *)
theory Udp
  imports Utils
begin

text \<open>
  \<open>udp_connection\<close> (\<open>src/common/udp_connection.cpp\<close>) and \<open>timer\<close> (\<open>src/common/timer.cpp\<close>).  The kernel's answers to
  the system calls are arguments: for a call that succeeds or fails with an error number, an
  \<open>int option\<close> (\<open>None\<close> is success); for \<open>send\<close>, the returned count with \<open>errno\<close>; for a receive, the
  datagram or the error number.
\<close>

abbreviation EAGAIN :: int where "EAGAIN \<equiv> 11"
abbreviation EWOULDBLOCK :: int where "EWOULDBLOCK \<equiv> 11"

definition O_NONBLOCK :: u32 where "O_NONBLOCK = 0x800"

subsection \<open>The socket object\<close>

record udp_connection =
  udp_sd :: int
  udp_flags :: u32 \<comment> \<open>file status flags of the descriptor\<close>
  udp_local :: "sockaddr_in option"
  udp_peer :: "sockaddr_in option"

definition udp_new :: "int + int \<Rightarrow> int option \<Rightarrow> udp_connection outcome" where
  "udp_new socket setsockopt =
     (case socket of
        Inl e \<Rightarrow> Throw (Errno_error e)
      | Inr sd \<Rightarrow>
          (case setsockopt of
             Some e \<Rightarrow> Throw (Errno_error e)
           | None \<Rightarrow> Ret \<lparr>udp_sd = sd, udp_flags = 0, udp_local = None, udp_peer = None\<rparr>))"

definition udp_set_non_blocking ::
  "bool \<Rightarrow> int option \<Rightarrow> int option \<Rightarrow> udp_connection \<Rightarrow> udp_connection outcome" where
  "udp_set_non_blocking enable getfl setfl u =
     (case getfl of
        Some e \<Rightarrow> Throw (Errno_error e)
      | None \<Rightarrow>
          let flags = (if enable then udp_flags u OR O_NONBLOCK else udp_flags u AND NOT O_NONBLOCK)
          in (case setfl of
                Some e \<Rightarrow> Throw (Errno_error e)
              | None \<Rightarrow> Ret (u\<lparr>udp_flags := flags\<rparr>)))"

definition udp_bind :: "bytes \<Rightarrow> u16 \<Rightarrow> int option \<Rightarrow> udp_connection \<Rightarrow> udp_connection outcome" where
  "udp_bind ip_address port_num bind u =
     (case (if ip_address = [] then Some INADDR_ANY else inet_pton ip_address) of
        None \<Rightarrow> Throw (Runtime_error ''Invalid address'')
      | Some a \<Rightarrow>
          (case bind of
             Some e \<Rightarrow> Throw (Errno_error e)
           | None \<Rightarrow> Ret (u\<lparr>udp_local := Some \<lparr>sin_port = htons port_num, sin_addr = a\<rparr>\<rparr>)))"

definition udp_connect_sa :: "sockaddr_in \<Rightarrow> int option \<Rightarrow> udp_connection \<Rightarrow> udp_connection outcome" where
  "udp_connect_sa sa connect u =
     (case connect of
        Some e \<Rightarrow> Throw (Errno_error e)
      | None \<Rightarrow> Ret (u\<lparr>udp_peer := Some sa\<rparr>))"

definition udp_connect :: "bytes \<Rightarrow> u16 \<Rightarrow> int option \<Rightarrow> udp_connection \<Rightarrow> udp_connection outcome" where
  "udp_connect ip_address port_num connect u =
     (case inet_pton ip_address of
        None \<Rightarrow> Throw (Runtime_error ''Invalid IP address'')
      | Some a \<Rightarrow> udp_connect_sa \<lparr>sin_port = htons port_num, sin_addr = a\<rparr> connect u)"

subsection \<open>Sending and receiving\<close>

text \<open>\<open>send\<close> hands the datagram to the connected peer and returns what the kernel returned.\<close>

type_synonym send_answer = "int \<times> int" \<comment> \<open>returned count, \<open>errno\<close>\<close>

definition udp_send :: "bytes \<Rightarrow> send_answer \<Rightarrow> int \<times> bytes list" where
  "udp_send data answer = (fst answer, if fst answer > 0 then [data] else [])"

definition udp_send_to ::
  "bytes \<Rightarrow> u16 \<Rightarrow> bytes \<Rightarrow> send_answer \<Rightarrow> (int \<times> (sockaddr_in \<times> bytes) list) outcome" where
  "udp_send_to ip_address port_num data answer =
     (case inet_pton ip_address of
        None \<Rightarrow> Throw (Runtime_error ''Invalid IP address'')
      | Some a \<Rightarrow> Ret (fst answer,
          if fst answer > 0 then [(\<lparr>sin_port = htons port_num, sin_addr = a\<rparr>, data)] else []))"

definition send_failed :: "send_answer \<Rightarrow> bool" where
  "send_failed answer \<longleftrightarrow> fst answer \<le> 0 \<and> (snd answer \<noteq> EAGAIN \<and> snd answer \<noteq> EWOULDBLOCK)"

datatype recv_answer = Datagram bytes | Recv_errno int

text \<open>
  A datagram longer than the buffer is cut to it (the kernel drops the rest); would-block is
  an empty result, any other error is thrown.
\<close>

fun udp_recv :: "nat \<Rightarrow> recv_answer \<Rightarrow> bytes outcome" where
  "udp_recv sz (Datagram d) = Ret (take sz d)"
| "udp_recv sz (Recv_errno e) =
     (if e = EAGAIN \<or> e = EWOULDBLOCK then Ret [] else Throw (Errno_error e))"

datatype recvfrom_answer = Datagram_from sockaddr_in bytes | Recvfrom_errno int

text \<open>\<open>recv_from\<close> also stores the sender through its reference arguments \<open>(ip_address, port_num)\<close>.\<close>

fun udp_recv_from :: "bytes \<times> u16 \<Rightarrow> nat \<Rightarrow> recvfrom_answer \<Rightarrow> (bytes \<times> bytes \<times> u16) outcome" where
  "udp_recv_from refs sz (Datagram_from sa d) =
     (case inet_ntop (sin_addr sa) 16 of
        None \<Rightarrow> Throw (Runtime_error ''Invalid IP address'')
      | Some ip \<Rightarrow> Ret (take sz d, ip, ntohs (sin_port sa)))"
| "udp_recv_from refs sz (Recvfrom_errno e) =
     (if e = EAGAIN \<or> e = EWOULDBLOCK then Ret ([], refs) else Throw (Errno_error e))"

lemma udp_recv_from_datagram [simp]:
  "udp_recv_from refs sz (Datagram_from sa d) =
     Ret (take sz d, dotted_quad (sin_addr sa), ntohs (sin_port sa))"
  by (simp add: inet_ntop_16)

lemma htons_ntohs [simp]: "htons (ntohs w) = w"
  by (simp add: ntohs_def htons_def hi_byte_be16 lo_byte_be16)

text \<open>The sender reported by \<open>recv_from\<close>, converted back, is the sender.\<close>

lemma sender_roundtrip:
  "to_sockaddr_in (dotted_quad (sin_addr sa)) (ntohs (sin_port sa)) = Some sa"
  by simp

lemma udp_recv_length: "udp_recv sz a = Ret d \<Longrightarrow> length d \<le> sz"
  by (cases a) (auto split: if_splits)

lemma udp_set_non_blocking_flag:
  "udp_set_non_blocking True g s u = Ret u' \<Longrightarrow> udp_flags u' AND O_NONBLOCK = O_NONBLOCK"
  by (auto simp: udp_set_non_blocking_def Let_def bit_eq_iff bit_simps split: option.splits)

subsection \<open>The timer\<close>

text \<open>
  A one-shot \<open>timerfd\<close>: the seconds left while armed and the number of expirations not yet
  read.  Setting it forgets unread expirations; a zero value disarms it.
\<close>

record timer =
  tm_fd :: int
  tm_left :: "nat option"
  tm_expirations :: nat

definition timer_new :: "int + int \<Rightarrow> timer outcome" where
  "timer_new timerfd_create =
     (case timerfd_create of
        Inl e \<Rightarrow> Throw (Errno_error e)
      | Inr fd \<Rightarrow> Ret \<lparr>tm_fd = fd, tm_left = None, tm_expirations = 0\<rparr>)"

definition arm_timer :: "nat \<Rightarrow> timer \<Rightarrow> timer" where
  "arm_timer seconds t =
     t\<lparr>tm_left := (if seconds = 0 then None else Some seconds), tm_expirations := 0\<rparr>"

definition disarm_timer :: "timer \<Rightarrow> timer" where
  "disarm_timer t = t\<lparr>tm_left := None, tm_expirations := 0\<rparr>"

definition has_expired :: "timer \<Rightarrow> bool \<times> timer" where
  "has_expired t = (tm_expirations t > 0, t\<lparr>tm_expirations := 0\<rparr>)"

text \<open>The clock: \<open>s\<close> seconds pass.\<close>

definition elapse :: "nat \<Rightarrow> timer \<Rightarrow> timer" where
  "elapse s t =
     (case tm_left t of
        None \<Rightarrow> t
      | Some k \<Rightarrow> if k \<le> s then t\<lparr>tm_left := None, tm_expirations := tm_expirations t + 1\<rparr>
                  else t\<lparr>tm_left := Some (k - s)\<rparr>)"

lemma armed_timer_expires:
  "0 < s \<Longrightarrow> has_expired (elapse t (arm_timer s tm)) =
     (s \<le> t, arm_timer s tm\<lparr>tm_left := (if s \<le> t then None else Some (s - t))\<rparr>)"
  by (simp add: has_expired_def elapse_def arm_timer_def)

lemma has_expired_once: "has_expired (snd (has_expired t)) = (False, snd (has_expired t))"
  by (simp add: has_expired_def)

end
