(* ===== verification/Handler.thy ===== *)
theory Handler
  imports Queues Packets Udp
begin

text \<open>
  \<open>tftp_connection_handler\<close> (\<open>src/server/tftp_connection_handler.cpp\<close>): the socket that listens for
  requests and the queue of those parsed.  \<open>handle_read\<close> is given what the socket still holds,
  in order; when it is drained \<open>recv_from\<close> would block.
\<close>

record request_t =
  request :: rw_packet_t
  client :: sockaddr_in

record tftp_connection_handler =
  h_udp :: udp_connection
  h_request_queue :: "request_t list"

type_synonym handler = tftp_connection_handler

definition new_handler ::
  "bytes \<Rightarrow> u16 \<Rightarrow> int + int \<Rightarrow> int option \<Rightarrow> int option \<Rightarrow> int option \<Rightarrow> int option \<Rightarrow> handler outcome" where
  "new_handler addr port socket setsockopt bind getfl setfl =
     obind (udp_new socket setsockopt) (\<lambda>udp.
     obind (udp_bind addr port bind udp) (\<lambda>udp.
     obind (udp_set_non_blocking True getfl setfl udp) (\<lambda>udp.
     Ret \<lparr>h_udp = udp, h_request_queue = []\<rparr>)))"

abbreviation REQUEST_MAX_SIZE :: nat where "REQUEST_MAX_SIZE \<equiv> 2048"

definition enqueue :: "request_t \<Rightarrow> handler \<Rightarrow> handler" where
  "enqueue r h = h\<lparr>h_request_queue := h_request_queue h @ [r]\<rparr>"

text \<open>The body of the loop for one datagram from \<open>(ip_address, port_num)\<close>.\<close>

definition handle_request :: "bytes \<Rightarrow> bytes \<times> u16 \<Rightarrow> handler \<Rightarrow> handler" where
  "handle_request data from h =
     (case (deserialise_rw_packet data, to_sockaddr_in (fst from) (snd from)) of
        (Some req, Some cl) \<Rightarrow> enqueue \<lparr>request = req, client = cl\<rparr> h
      | _ \<Rightarrow> h)"

fun handler_read_loop ::
  "bytes \<Rightarrow> bytes \<times> u16 \<Rightarrow> recvfrom_answer list \<Rightarrow> handler \<Rightarrow> (handler \<times> recvfrom_answer list) outcome" where
  "handler_read_loop data from answers h =
     (if data = [] then Ret (h, answers)
      else
        let h = handle_request data from h in
        (case answers of
           [] \<Rightarrow> Ret (h, [])
         | a # as \<Rightarrow>
             obind (udp_recv_from from REQUEST_MAX_SIZE a) (\<lambda>(data, ip, port).
               handler_read_loop data (ip, port) as h)))"

declare handler_read_loop.simps [simp del]

definition handler_handle_read ::
  "recvfrom_answer list \<Rightarrow> handler \<Rightarrow> (handler \<times> recvfrom_answer list) outcome" where
  "handler_handle_read answers h =
     (case answers of
        [] \<Rightarrow> Ret (h, [])
      | a # as \<Rightarrow>
          obind (udp_recv_from ([], 0) REQUEST_MAX_SIZE a) (\<lambda>(data, ip, port).
            handler_read_loop data (ip, port) as h))"

definition requests_pending :: "handler \<Rightarrow> bool" where
  "requests_pending h \<longleftrightarrow> h_request_queue h \<noteq> []"

definition get_request :: "handler \<Rightarrow> (request_t \<times> handler) outcome" where
  "get_request h =
     (case h_request_queue h of
        [] \<Rightarrow> Throw (Out_of_range ''Request queue is empty'')
      | r # rs \<Rightarrow> Ret (r, h\<lparr>h_request_queue := rs\<rparr>))"

interpretation request_queue: fifo enqueue get_request requests_pending h_request_queue
  "Out_of_range ''Request queue is empty''"
  by unfold_locales (auto simp: enqueue_def requests_pending_def get_request_def)

subsection \<open>What one read event enqueues\<close>

text \<open>The request a datagram carries, with the sender as it was received.\<close>

definition parse_request :: "sockaddr_in \<times> bytes \<Rightarrow> request_t option" where
  "parse_request = (\<lambda>(sa, d). map_option (\<lambda>r. \<lparr>request = r, client = sa\<rparr>)
     (deserialise_rw_packet (take REQUEST_MAX_SIZE d)))"

abbreviation arrivals :: "(sockaddr_in \<times> bytes) list \<Rightarrow> recvfrom_answer list" where
  "arrivals \<equiv> map (\<lambda>(sa, d). Datagram_from sa d)"

lemma handle_request_parse:
  "h_request_queue (handle_request (take REQUEST_MAX_SIZE d) (dotted_quad (sin_addr sa), ntohs (sin_port sa)) h) =
     h_request_queue h @ List.map_filter parse_request [(sa, d)]"
  by (auto simp: handle_request_def sender_roundtrip parse_request_def enqueue_def List.map_filter_def
      split: option.splits)

lemma handle_request_frame [simp]: "h_udp (handle_request d from h) = h_udp h"
  by (auto simp: handle_request_def enqueue_def split: option.splits)

lemma map_filter_Cons: "List.map_filter f (x # xs) = List.map_filter f [x] @ List.map_filter f xs"
  by (simp add: List.map_filter_def)

text \<open>
  The loop consumes the datagrams up to the end of what the socket holds, or up to the first
  empty datagram; what follows that one stays in the socket.
\<close>

definition drained_to :: "recvfrom_answer list \<Rightarrow> recvfrom_answer list \<Rightarrow> bool" where
  "drained_to tail rest \<longleftrightarrow> (tail = [] \<and> rest = []) \<or> (\<exists>sa. tail = Datagram_from sa [] # rest)"

lemma handler_read_loop_end:
  "drained_to tail rest \<Longrightarrow> d \<noteq> [] \<Longrightarrow>
   handler_read_loop d from tail h = Ret (handle_request d from h, rest)"
  by (auto simp: drained_to_def handler_read_loop.simps [of d] handler_read_loop.simps [of "[]"])

lemma handler_read_loop_arrivals:
  assumes "\<forall>(sa, d) \<in> set ds. d \<noteq> []" and "d \<noteq> []" and tail: "drained_to tail rest"
  shows "\<exists>h'. handler_read_loop (take REQUEST_MAX_SIZE d) (dotted_quad (sin_addr sa), ntohs (sin_port sa))
       (arrivals ds @ tail) h = Ret (h', rest) \<and> h_udp h' = h_udp h \<and>
     h_request_queue h' = h_request_queue h @ List.map_filter parse_request ((sa, d) # ds)"
  using assms(1,2)
proof (induction ds arbitrary: sa d h)
  case Nil
  then show ?case
    by (simp add: handler_read_loop_end [OF tail] handle_request_parse)
next
  case (Cons e ds)
  obtain sa' d' where e: "e = (sa', d')" by force
  let ?h = "handle_request (take REQUEST_MAX_SIZE d) (dotted_quad (sin_addr sa), ntohs (sin_port sa)) h"
  from Cons.IH [of d' sa' ?h] Cons.prems e obtain h' where h':
    "handler_read_loop (take REQUEST_MAX_SIZE d') (dotted_quad (sin_addr sa'), ntohs (sin_port sa'))
       (arrivals ds @ tail) ?h = Ret (h', rest)" "h_udp h' = h_udp h"
    "h_request_queue h' = h_request_queue ?h @ List.map_filter parse_request ((sa', d') # ds)"
    by auto
  have "List.map_filter parse_request ((sa, d) # e # ds) =
      List.map_filter parse_request [(sa, d)] @ List.map_filter parse_request ((sa', d') # ds)"
    unfolding e by (rule map_filter_Cons)
  with h' Cons.prems show ?case
    by (subst handler_read_loop.simps) (simp add: handle_request_parse e)
qed

lemma handler_reads_arrivals:
  assumes "\<forall>(sa, d) \<in> set ds. d \<noteq> []" and "drained_to tail rest"
  shows "\<exists>h'. handler_handle_read (arrivals ds @ tail) h = Ret (h', rest) \<and> h_udp h' = h_udp h \<and>
     h_request_queue h' = h_request_queue h @ List.map_filter parse_request ds"
proof (cases ds)
  case Nil
  with assms(2) show ?thesis
    by (auto simp: drained_to_def handler_handle_read_def handler_read_loop.simps List.map_filter_def)
next
  case (Cons e es)
  obtain sa d where e: "e = (sa, d)" by force
  from handler_read_loop_arrivals [of es d tail rest sa h] assms Cons e show ?thesis
    by (simp add: handler_handle_read_def)
qed

end
