(* ===== verification/Stdio.thy ===== *)
theory Stdio
  imports Prelude
begin

text \<open>
  The C stdio streams the two file classes use.  An input stream is the bytes still to be
  read with the stream's end-of-file and error indicators and the number of bytes the
  device delivers before it reports an error (\<open>None\<close>: never).  An output stream is the bytes
  written, its error indicator and the number of bytes the device still accepts.  As ISO C
  guarantees, \<open>fread\<close> and \<open>fwrite\<close> return a short count only when an indicator is set.
\<close>

record infile =
  in_rest :: bytes
  in_eof :: bool
  in_err :: bool
  in_fault :: "nat option"

definition open_infile :: "bytes \<Rightarrow> infile" where
  "open_infile content = \<lparr>in_rest = content, in_eof = False, in_err = False, in_fault = None\<rparr>"

definition fread :: "nat \<Rightarrow> infile \<Rightarrow> bytes \<times> infile" where
  "fread n f =
     (let avail = (case in_fault f of None \<Rightarrow> in_rest f | Some k \<Rightarrow> take k (in_rest f));
          got = take n avail;
          short = length got < n;
          fault = (case in_fault f of None \<Rightarrow> False | Some k \<Rightarrow> k \<le> length (in_rest f))
      in (got, f\<lparr>in_rest := drop (length got) (in_rest f),
                 in_eof := in_eof f \<or> (short \<and> \<not> fault),
                 in_err := in_err f \<or> (short \<and> fault),
                 in_fault := map_option (\<lambda>k. k - length got) (in_fault f)\<rparr>))"

record outfile =
  out_data :: bytes
  out_err :: bool
  out_space :: "nat option"

definition open_outfile :: "nat option \<Rightarrow> outfile" where
  "open_outfile space = \<lparr>out_data = [], out_err = False, out_space = space\<rparr>"

definition fwrite :: "bytes \<Rightarrow> outfile \<Rightarrow> nat \<times> outfile" where
  "fwrite buf f =
     (let n = (case out_space f of None \<Rightarrow> length buf | Some k \<Rightarrow> min k (length buf))
      in (n, f\<lparr>out_data := out_data f @ take n buf,
               out_err := out_err f \<or> n < length buf,
               out_space := map_option (\<lambda>k. k - n) (out_space f)\<rparr>))"

lemma fread_progress:
  "fread n f = (got, f') \<Longrightarrow> length got = n \<or> in_eof f' \<or> in_err f'"
  by (auto simp: fread_def Let_def)

lemma fread_no_fault:
  "in_fault f = None \<Longrightarrow>
   fread n f = (take n (in_rest f),
     f\<lparr>in_rest := drop n (in_rest f), in_eof := in_eof f \<or> length (in_rest f) < n\<rparr>)"
  by (cases f) (auto simp: fread_def Let_def min_def)

lemma fwrite_unlimited:
  "out_space f = None \<Longrightarrow> fwrite buf f = (length buf, f\<lparr>out_data := out_data f @ buf\<rparr>)"
  by (cases f) (simp add: fwrite_def)

lemma fwrite_full:
  "out_space f = Some 0 \<Longrightarrow> buf \<noteq> [] \<Longrightarrow> fwrite buf f = (0, f\<lparr>out_err := True\<rparr>)"
  by (cases f) (simp add: fwrite_def)

end
