(* ===== verification/Block_Source.thy ===== *)
theory Block_Source
  imports Prelude
begin

text \<open>
  The contracts between the transfer state machines and the files they serve.  A
  \<open>block_source\<close> hands out its pending bytes in blocks of the requested size, the last one
  short; a \<open>byte_sink\<close> appends what it is given, decoded.  The connection's lemmas about whole
  transfers rest on these contracts; \<open>Read_File\<close> and \<open>Write_File\<close> interpret them.
\<close>

text \<open>The \<open>k\<close>-th block (from 0) of \<open>n\<close> bytes of a byte string.\<close>

definition chunk :: "nat \<Rightarrow> nat \<Rightarrow> bytes \<Rightarrow> bytes" where
  "chunk n k xs = take n (drop (k * n) xs)"

lemma length_chunk: "length (chunk n k xs) = min n (length xs - k * n)"
  by (simp add: chunk_def)

lemma chunk_short_iff: "0 < n \<Longrightarrow> length (chunk n k xs) < n \<longleftrightarrow> length xs div n \<le> k"
proof -
  assume n: "0 < n"
  have "length (chunk n k xs) < n \<longleftrightarrow> length xs < (k + 1) * n"
    using n by (auto simp: length_chunk)
  also have "\<dots> \<longleftrightarrow> length xs div n < k + 1"
    using n by (simp add: div_less_iff_less_mult)
  finally show ?thesis by auto
qed

lemma concat_chunks: "concat (map (\<lambda>k. chunk n k xs) [0..<m]) = take (m * n) xs"
proof (induction m)
  case (Suc m)
  have "take (Suc m * n) xs = take (m * n) xs @ take n (drop (m * n) xs)"
    by (metis add.commute mult_Suc take_add)
  with Suc show ?case by (simp add: chunk_def)
qed simp

lemma concat_all_chunks:
  "0 < n \<Longrightarrow> concat (map (\<lambda>k. chunk n k xs) [0..<Suc (length xs div n)]) = xs"
  by (simp only: concat_chunks) (simp add: dividend_less_div_times less_imp_le)

lemma chunk_0 [simp]: "chunk n 0 xs = take n xs"
  by (simp add: chunk_def)

lemma chunk_drop: "chunk n k (drop n xs) = chunk n (Suc k) xs"
  by (simp add: chunk_def add.commute)

fun read_blocks :: "(nat \<Rightarrow> 's \<Rightarrow> (bytes \<times> 's) outcome) \<Rightarrow> nat \<Rightarrow> nat \<Rightarrow> 's \<Rightarrow>
    (bytes list \<times> 's) outcome" where
  "read_blocks rd n 0 s = Ret ([], s)"
| "read_blocks rd n (Suc k) s =
     obind (rd n s) (\<lambda>(b, s'). obind (read_blocks rd n k s') (\<lambda>(bs, s''). Ret (b # bs, s'')))"

locale block_source =
  fixes read :: "nat \<Rightarrow> 's \<Rightarrow> (bytes \<times> 's) outcome"
    and pending :: "'s \<Rightarrow> bytes"
    and inv :: "nat \<Rightarrow> 's \<Rightarrow> bool"
  assumes read_law: "inv n s \<Longrightarrow>
    \<exists>s'. read n s = Ret (take n (pending s), s') \<and> pending s' = drop n (pending s) \<and> inv n s'"
begin

lemma blocks_are_chunks:
  "inv n s \<Longrightarrow> \<exists>s'. read_blocks read n k s = Ret (map (\<lambda>i. chunk n i (pending s)) [0..<k], s') \<and>
     pending s' = drop (k * n) (pending s) \<and> inv n s'"
proof (induction k arbitrary: s)
  case (Suc k)
  from read_law [OF Suc.prems] obtain s1 where s1:
    "read n s = Ret (take n (pending s), s1)" "pending s1 = drop n (pending s)" "inv n s1" by blast
  from Suc.IH [OF s1(3)] obtain s2 where s2:
    "read_blocks read n k s1 = Ret (map (\<lambda>i. chunk n i (pending s1)) [0..<k], s2)"
    "pending s2 = drop (k * n) (pending s1)" "inv n s2" by blast
  have "map (\<lambda>i. chunk n i (pending s)) [0..<Suc k] =
      take n (pending s) # map (\<lambda>i. chunk n i (pending s1)) [0..<k]"
    by (simp only: upt_conv_Cons [OF zero_less_Suc] map_Suc_upt [symmetric])
      (simp add: s1(2) chunk_drop)
  with s1 s2 show ?case by (simp add: add.commute)
qed simp

text \<open>Reading until the first short block yields all the pending bytes, and nothing more.\<close>

lemma blocks_deliver_all:
  assumes "inv n s" and "0 < n"
  shows "\<exists>bs s'. read_blocks read n (Suc (length (pending s) div n)) s = Ret (bs, s') \<and>
    concat bs = pending s \<and> pending s' = []"
proof -
  from blocks_are_chunks [OF assms(1)] obtain s' where s':
    "read_blocks read n (Suc (length (pending s) div n)) s =
      Ret (map (\<lambda>i. chunk n i (pending s)) [0..<Suc (length (pending s) div n)], s')"
    "pending s' = drop (Suc (length (pending s) div n) * n) (pending s)" by blast
  have "pending s' = []"
    using s'(2) assms(2) by (simp add: dividend_less_div_times less_imp_le)
  with s'(1) concat_all_chunks [OF assms(2)] show ?thesis by blast
qed

end

locale byte_sink =
  fixes put :: "bytes \<Rightarrow> 's \<Rightarrow> 's outcome"
    and decode :: "bytes \<Rightarrow> bytes outcome"
    and contents :: "'s \<Rightarrow> bytes"
    and inv :: "'s \<Rightarrow> bool"
  assumes write_law: "inv s \<Longrightarrow> decode d = Ret x \<Longrightarrow>
    \<exists>s'. put d s = Ret s' \<and> contents s' = contents s @ x \<and> inv s'"
begin

fun write_all :: "bytes list \<Rightarrow> 's \<Rightarrow> 's outcome" where
  "write_all [] s = Ret s"
| "write_all (d # ds) s = obind (put d s) (write_all ds)"

lemma write_all_appends:
  "inv s \<Longrightarrow> list_all2 (\<lambda>d x. decode d = Ret x) ds xs \<Longrightarrow>
   \<exists>s'. write_all ds s = Ret s' \<and> contents s' = contents s @ concat xs \<and> inv s'"
proof (induction ds arbitrary: s xs)
  case (Cons d ds)
  then obtain x xs' where xs: "xs = x # xs'" "decode d = Ret x"
      "list_all2 (\<lambda>d x. decode d = Ret x) ds xs'"
    by (auto simp: list_all2_Cons1)
  from write_law [OF Cons.prems(1) xs(2)] obtain s1 where s1:
    "put d s = Ret s1" "contents s1 = contents s @ x" "inv s1" by blast
  from Cons.IH [OF s1(3) xs(3)] s1 show ?case by (auto simp: xs(1))
qed simp

end

end
