(* ===== verification/Read_File.thy ===== *)
theory Read_File
  imports Stdio Block_Source Utils Packets
begin

text \<open>
  \<open>tftp_read_file\<close> (\<open>src/common/tftp_read_file.cpp\<close>): a file served in blocks, converted to
  netascii on the way when the mode asks for it, with the overflow buffer that carries
  the expansion of one block into the next.  A null \<open>_fd\<close> is \<open>None\<close>; the stdio calls on it are
  \<open>Undefined\<close>.
\<close>

record tftp_read_file =
  rf_fd :: "infile option"
  rf_mode :: mode_t
  rf_overflow :: bytes

definition new_read_file :: tftp_read_file where
  "new_read_file = \<lparr>rf_fd = None, rf_mode = OCTET, rf_overflow = []\<rparr>"

text \<open>
  \<open>open\<close>: the members are assigned before the test, so the object keeps a null stream when
  \<open>fopen\<close> fails and the exception leaves.  \<open>fopen\<close> answers with a stream or an error number.
\<close>

definition rf_open :: "int + infile \<Rightarrow> mode_t \<Rightarrow> tftp_read_file \<Rightarrow> tftp_read_file \<times> unit outcome" where
  "rf_open fopen mode rf =
     (case fopen of
        Inl e \<Rightarrow> (rf\<lparr>rf_mode := mode, rf_fd := None\<rparr>, Throw (Errno_error e))
      | Inr f \<Rightarrow> (rf\<lparr>rf_mode := mode, rf_fd := Some f\<rparr>, Ret ()))"

text \<open>The constructor with a file name; an exception of \<open>open\<close> leaves it.\<close>

definition open_read_file :: "int + infile \<Rightarrow> mode_t \<Rightarrow> tftp_read_file outcome" where
  "open_read_file fopen mode =
     (let (rf, r) = rf_open fopen mode (new_read_file\<lparr>rf_mode := mode\<rparr>)
      in obind r (\<lambda>_. Ret rf))"

definition rf_eof :: "tftp_read_file \<Rightarrow> bool outcome" where
  "rf_eof rf =
     (if rf_overflow rf = [] then (case rf_fd rf of None \<Rightarrow> Undefined | Some f \<Rightarrow> Ret (in_eof f))
      else Ret False)"

definition rf_error :: "tftp_read_file \<Rightarrow> bool outcome" where
  "rf_error rf = (case rf_fd rf of None \<Rightarrow> Undefined | Some f \<Rightarrow> Ret (in_err f))"

text \<open>
  The two \<open>fread\<close> loops.  The octet loop asks for what is missing, the netascii loop asks for
  the full \<open>bytes_from_file\<close> in every round; \<open>acc\<close> is the buffer up to \<open>read_bytes\<close>.
\<close>

function octet_read_loop :: "nat \<Rightarrow> bytes \<Rightarrow> infile \<Rightarrow> bytes \<times> infile" where
  "octet_read_loop size_bytes acc f =
     (if \<not> in_err f \<and> \<not> in_eof f \<and> length acc < size_bytes
      then (case fread (size_bytes - length acc) f of
              (got, f') \<Rightarrow> octet_read_loop size_bytes (acc @ got) f')
      else (acc, f))"
  by pat_completeness auto
termination
  by (relation "measure (\<lambda>(n, acc, f). if in_err f \<or> in_eof f then 0 else Suc (n - length acc))")
    (auto dest!: fread_progress [OF sym])

function netascii_read_loop :: "nat \<Rightarrow> bytes \<Rightarrow> infile \<Rightarrow> bytes \<times> infile" where
  "netascii_read_loop bytes_from_file acc f =
     (if \<not> in_err f \<and> \<not> in_eof f \<and> length acc < bytes_from_file
      then (case fread bytes_from_file f of
              (got, f') \<Rightarrow> netascii_read_loop bytes_from_file (acc @ got) f')
      else (acc, f))"
  by pat_completeness auto
termination
  by (relation "measure (\<lambda>(n, acc, f). if in_err f \<or> in_eof f then 0 else Suc (n - length acc))")
    (auto dest!: fread_progress [OF sym])

declare octet_read_loop.simps [simp del] netascii_read_loop.simps [simp del]

text \<open>
  \<open>read_in_to\<close>, returning the contents of \<open>ret\<close>.  With more overflow than \<open>size_bytes\<close> the unsigned
  subtraction wraps and \<open>fread\<close> is asked to write past the buffer.
\<close>

definition read_in_to :: "nat \<Rightarrow> tftp_read_file \<Rightarrow> (bytes \<times> tftp_read_file) outcome" where
  "read_in_to size_bytes rf =
     (case rf_fd rf of
        None \<Rightarrow> Undefined
      | Some f \<Rightarrow>
          if rf_mode rf \<noteq> OCTET then
            (if size_bytes < length (rf_overflow rf) then Undefined
             else
               let (raw, f') = netascii_read_loop (size_bytes - length (rf_overflow rf)) [] f;
                   ret = rf_overflow rf @ native_to_netascii raw
               in Ret (take size_bytes ret,
                       rf\<lparr>rf_fd := Some f', rf_overflow := drop size_bytes ret\<rparr>))
          else
            let (ret, f') = octet_read_loop size_bytes [] f
            in Ret (ret, rf\<lparr>rf_fd := Some f'\<rparr>))"

lemma read_in_to_stream: "read_in_to n rf = Ret r \<Longrightarrow> rf_fd rf \<noteq> None"
  by (cases "rf_fd rf") (simp_all add: read_in_to_def)

subsection \<open>What a loop reads\<close>

lemma octet_loop_done:
  "in_err f \<or> in_eof f \<or> n \<le> length acc \<Longrightarrow> octet_read_loop n acc f = (acc, f)"
  by (subst octet_read_loop.simps) auto

lemma netascii_loop_done:
  "in_err f \<or> in_eof f \<or> n \<le> length acc \<Longrightarrow> netascii_read_loop n acc f = (acc, f)"
  by (subst netascii_read_loop.simps) auto

lemma octet_loop_once:
  assumes "\<not> in_err f" "\<not> in_eof f"
  shows "octet_read_loop n [] f = (if n = 0 then ([], f) else fread n f)"
proof (cases "n = 0")
  case False
  obtain got f' where got: "fread n f = (got, f')" by force
  have "octet_read_loop n got f' = (got, f')"
    using fread_progress [OF got] by (intro octet_loop_done) auto
  with False got assms show ?thesis by (subst octet_read_loop.simps) simp
qed (simp add: octet_loop_done)

lemma netascii_loop_once:
  assumes "\<not> in_err f" "\<not> in_eof f"
  shows "netascii_read_loop n [] f = (if n = 0 then ([], f) else fread n f)"
proof (cases "n = 0")
  case False
  obtain got f' where got: "fread n f = (got, f')" by force
  have "netascii_read_loop n got f' = (got, f')"
    using fread_progress [OF got] by (intro netascii_loop_done) auto
  with False got assms show ?thesis by (subst netascii_read_loop.simps) simp
qed (simp add: netascii_loop_done)

text \<open>A healthy stream: no error, no fault ahead, and end-of-file only once all is read.\<close>

definition healthy :: "infile \<Rightarrow> bool" where
  "healthy f \<longleftrightarrow> \<not> in_err f \<and> in_fault f = None \<and> (in_eof f \<longrightarrow> in_rest f = [])"

lemma healthy_loop:
  assumes "healthy f"
  shows "\<exists>f'. octet_read_loop n [] f = (take n (in_rest f), f') \<and>
      netascii_read_loop n [] f = (take n (in_rest f), f') \<and>
      in_rest f' = drop n (in_rest f) \<and> healthy f' \<and>
      (length (in_rest f) < n \<longrightarrow> in_eof f')"
proof (cases "in_eof f")
  case True
  with assms show ?thesis
    by (auto simp: octet_loop_done netascii_loop_done healthy_def)
next
  case False
  with assms show ?thesis
    by (auto simp: octet_loop_once netascii_loop_once fread_no_fault healthy_def)
qed

subsection \<open>The block source\<close>

definition rf_convert :: "mode_t \<Rightarrow> bytes \<Rightarrow> bytes" where
  "rf_convert mode xs = (if mode = OCTET then xs else native_to_netascii xs)"

definition rf_pending :: "tftp_read_file \<Rightarrow> bytes" where
  "rf_pending rf = rf_overflow rf @
     (case rf_fd rf of None \<Rightarrow> [] | Some f \<Rightarrow> rf_convert (rf_mode rf) (in_rest f))"

definition rf_inv :: "nat \<Rightarrow> tftp_read_file \<Rightarrow> bool" where
  "rf_inv n rf \<longleftrightarrow> (case rf_fd rf of None \<Rightarrow> False | Some f \<Rightarrow> healthy f) \<and>
     length (rf_overflow rf) \<le> n \<and> (rf_mode rf = OCTET \<longrightarrow> rf_overflow rf = [])"

lemma read_in_to_octet:
  assumes "rf_inv n rf" and "rf_mode rf = OCTET"
  shows "\<exists>rf'. read_in_to n rf = Ret (take n (rf_pending rf), rf') \<and>
     rf_pending rf' = drop n (rf_pending rf) \<and> rf_inv n rf' \<and> rf_mode rf' = rf_mode rf"
proof -
  from assms obtain f where f: "rf_fd rf = Some f" "healthy f" "rf_overflow rf = []"
    by (auto simp: rf_inv_def split: option.splits)
  from healthy_loop [OF f(2), of n] obtain f' where
    "octet_read_loop n [] f = (take n (in_rest f), f')" "in_rest f' = drop n (in_rest f)" "healthy f'"
    by blast
  with f assms(2) show ?thesis
    by (auto simp: read_in_to_def rf_pending_def rf_inv_def rf_convert_def)
qed

lemma netascii_block:
  fixes xs :: bytes
  assumes "length ov \<le> n"
  defines "raw \<equiv> take (n - length ov) xs"
  shows "take n (ov @ native_to_netascii raw) = take n (ov @ native_to_netascii xs)"
    and "drop n (ov @ native_to_netascii raw) @ native_to_netascii (drop (n - length ov) xs) =
      drop n (ov @ native_to_netascii xs)"
    and "length (drop n (ov @ native_to_netascii raw)) \<le> n"
proof -
  have split: "native_to_netascii xs = native_to_netascii raw @ native_to_netascii (drop (n - length ov) xs)"
    unfolding raw_def by (metis append_take_drop_id native_to_netascii_append)
  have full: "n \<le> length (ov @ native_to_netascii raw) \<or> drop (n - length ov) xs = []"
    using native_to_netascii_length(1) [of raw] assms(1) by (auto simp: raw_def min_def split: if_splits)
  from full show "take n (ov @ native_to_netascii raw) = take n (ov @ native_to_netascii xs)"
    unfolding split by auto
  from full show "drop n (ov @ native_to_netascii raw) @ native_to_netascii (drop (n - length ov) xs) =
      drop n (ov @ native_to_netascii xs)"
    unfolding split by auto
  show "length (drop n (ov @ native_to_netascii raw)) \<le> n"
    using native_to_netascii_length(2) [of raw] assms(1) by (auto simp: raw_def min_def split: if_splits)
qed

lemma read_in_to_netascii:
  assumes "rf_inv n rf" and "rf_mode rf \<noteq> OCTET"
  shows "\<exists>rf'. read_in_to n rf = Ret (take n (rf_pending rf), rf') \<and>
     rf_pending rf' = drop n (rf_pending rf) \<and> rf_inv n rf' \<and> rf_mode rf' = rf_mode rf"
proof -
  from assms obtain f where f: "rf_fd rf = Some f" "healthy f" "length (rf_overflow rf) \<le> n"
    by (auto simp: rf_inv_def split: option.splits)
  from healthy_loop [OF f(2), of "n - length (rf_overflow rf)"] obtain f' where
    "netascii_read_loop (n - length (rf_overflow rf)) [] f =
      (take (n - length (rf_overflow rf)) (in_rest f), f')"
    "in_rest f' = drop (n - length (rf_overflow rf)) (in_rest f)" "healthy f'"
    by blast
  with f assms(2) netascii_block [OF f(3), of "in_rest f"] show ?thesis
    by (auto simp: read_in_to_def rf_pending_def rf_inv_def rf_convert_def)
qed

lemma read_in_to_block:
  assumes "rf_inv n rf"
  shows "\<exists>rf'. read_in_to n rf = Ret (take n (rf_pending rf), rf') \<and>
     rf_pending rf' = drop n (rf_pending rf) \<and> rf_inv n rf' \<and> rf_mode rf' = rf_mode rf"
  using read_in_to_octet [OF assms] read_in_to_netascii [OF assms] by blast

interpretation rf_source: block_source read_in_to rf_pending rf_inv
  by unfold_locales (use read_in_to_block in blast)

lemma rf_inv_flags:
  assumes "rf_inv n rf"
  shows "rf_error rf = Ret False" and "\<exists>b. rf_eof rf = Ret b"
  using assms by (auto simp: rf_inv_def rf_error_def rf_eof_def healthy_def split: option.splits)

lemma rf_inv_open:
  assumes "rf_open (Inr (open_infile content)) mode new_read_file = (rf, r)"
  shows "r = Ret ()" and "rf_inv n rf" and "rf_pending rf = rf_convert mode content"
    and "rf_mode rf = mode"
  using assms
  by (auto simp: rf_open_def new_read_file_def rf_inv_def healthy_def open_infile_def rf_pending_def)

text \<open>The overflow buffer never outgrows a block, whatever the device does.\<close>

lemma fread_length: "fread n f = (got, f') \<Longrightarrow> length got \<le> n"
  by (auto simp: fread_def Let_def)

lemma netascii_loop_length: "length (fst (netascii_read_loop n [] f)) \<le> n"
proof (cases "in_err f \<or> in_eof f")
  case False
  then show ?thesis
    using fread_length [of n f] by (cases "fread n f") (auto simp: netascii_loop_once)
qed (auto simp: netascii_loop_done)

lemma octet_loop_length: "length (fst (octet_read_loop n [] f)) \<le> n"
proof (cases "in_err f \<or> in_eof f")
  case False
  then show ?thesis
    using fread_length [of n f] by (cases "fread n f") (auto simp: octet_loop_once)
qed (auto simp: octet_loop_done)

lemma read_in_to_bounds:
  assumes "length (rf_overflow rf) \<le> n" and "rf_fd rf \<noteq> None"
  shows "\<exists>b rf'. read_in_to n rf = Ret (b, rf') \<and> length b \<le> n \<and>
    length (rf_overflow rf') \<le> n \<and> rf_fd rf' \<noteq> None \<and> rf_mode rf' = rf_mode rf"
proof -
  from assms obtain f where f: "rf_fd rf = Some f" by auto
  show ?thesis
  proof (cases "rf_mode rf = OCTET")
    case True
    with f assms octet_loop_length [of n f] show ?thesis
      by (cases "octet_read_loop n [] f") (auto simp: read_in_to_def)
  next
    case False
    obtain raw f' where raw: "netascii_read_loop (n - length (rf_overflow rf)) [] f = (raw, f')"
      by force
    then have "length raw \<le> n - length (rf_overflow rf)"
      using netascii_loop_length [of "n - length (rf_overflow rf)" f] by simp
    with False f raw assms native_to_netascii_length(2) [of raw] show ?thesis
      by (auto simp: read_in_to_def)
  qed
qed

end
