(* ===== verification/Write_File.thy ===== *)
theory Write_File
  imports Stdio Block_Source Utils Packets
begin

text \<open>
  \<open>tftp_write_file\<close> (\<open>src/common/tftp_write_file.cpp\<close>): received blocks written to a file, decoded from
  netascii when the mode asks for it.  The octet loop does not test the error indicator, so
  on a full device it never ends; it is a \<open>partial_function\<close>, and \<open>None\<close> is "does not return".
  \<open>feof\<close> is never set on a stream that is only written and does not appear.
\<close>

record tftp_write_file =
  wf_fd :: "outfile option"
  wf_mode :: mode_t

definition new_write_file :: tftp_write_file where
  "new_write_file = \<lparr>wf_fd = None, wf_mode = OCTET\<rparr>"

definition wf_open :: "int + outfile \<Rightarrow> mode_t \<Rightarrow> tftp_write_file \<Rightarrow> tftp_write_file \<times> unit outcome" where
  "wf_open fopen mode fw =
     (case fopen of
        Inl e \<Rightarrow> (fw\<lparr>wf_mode := mode, wf_fd := None\<rparr>, Throw (Errno_error e))
      | Inr f \<Rightarrow> (fw\<lparr>wf_mode := mode, wf_fd := Some f\<rparr>, Ret ()))"

definition open_write_file :: "int + outfile \<Rightarrow> mode_t \<Rightarrow> tftp_write_file outcome" where
  "open_write_file fopen mode =
     (let (fw, r) = wf_open fopen mode (new_write_file\<lparr>wf_mode := mode\<rparr>)
      in obind r (\<lambda>_. Ret fw))"

definition wf_eof :: "tftp_write_file \<Rightarrow> bool outcome" where
  "wf_eof fw = (case wf_fd fw of None \<Rightarrow> Undefined | Some f \<Rightarrow> Ret False)"

definition wf_error :: "tftp_write_file \<Rightarrow> bool outcome" where
  "wf_error fw = (case wf_fd fw of None \<Rightarrow> Undefined | Some f \<Rightarrow> Ret (out_err f))"

text \<open>Each round writes from the start of the buffer, \<open>data.data()\<close>, not from \<open>bytes_written\<close> on.\<close>

partial_function (option) octet_write_loop :: "bytes \<Rightarrow> nat \<Rightarrow> outfile \<Rightarrow> outfile option" where
  "octet_write_loop data bytes_written f =
     (if bytes_written < length data
      then (case fwrite (take (length data - bytes_written) data) f of
              (n, f') \<Rightarrow> octet_write_loop data (bytes_written + n) f')
      else Some f)"

lemma fwrite_progress: "fwrite buf f = (n, f') \<Longrightarrow> n = length buf \<or> out_err f'"
  by (cases "out_space f") (auto simp: fwrite_def Let_def)

function netascii_write_loop :: "bytes \<Rightarrow> nat \<Rightarrow> outfile \<Rightarrow> outfile" where
  "netascii_write_loop native_data bytes_written f =
     (if \<not> out_err f \<and> bytes_written < length native_data
      then (case fwrite (take (length native_data - bytes_written) native_data) f of
              (n, f') \<Rightarrow> netascii_write_loop native_data (bytes_written + n) f')
      else f)"
  by pat_completeness auto
termination
  by (relation "measure (\<lambda>(d, w, f). if out_err f then 0 else Suc (length d - w))")
    (auto dest!: fwrite_progress [OF sym])

declare netascii_write_loop.simps [simp del]

definition wf_write :: "bytes \<Rightarrow> tftp_write_file \<Rightarrow> tftp_write_file outcome" where
  "wf_write data fw =
     (if wf_mode fw \<noteq> OCTET then
        obind (netascii_to_native data) (\<lambda>native_data.
          (case wf_fd fw of
             None \<Rightarrow> Undefined
           | Some f \<Rightarrow> Ret (fw\<lparr>wf_fd := Some (netascii_write_loop native_data 0 f)\<rparr>)))
      else
        (case wf_fd fw of
           None \<Rightarrow> Undefined
         | Some f \<Rightarrow>
             (case octet_write_loop data 0 f of
                None \<Rightarrow> Diverges
              | Some f' \<Rightarrow> Ret (fw\<lparr>wf_fd := Some f'\<rparr>))))"

subsection \<open>The loops\<close>

lemma octet_write_unlimited:
  assumes "out_space f = None"
  shows "octet_write_loop data 0 f = Some (f\<lparr>out_data := out_data f @ data\<rparr>)"
proof (cases "data = []")
  case True
  then show ?thesis by (subst octet_write_loop.simps) (cases f, simp)
next
  case False
  with assms have "octet_write_loop data 0 f = octet_write_loop data (length data) (f\<lparr>out_data := out_data f @ data\<rparr>)"
    by (subst octet_write_loop.simps) (simp add: fwrite_unlimited)
  then show ?thesis by (subst (asm) (2) octet_write_loop.simps) simp
qed

lemma netascii_write_unlimited:
  assumes "out_space f = None" and "\<not> out_err f"
  shows "netascii_write_loop data 0 f = f\<lparr>out_data := out_data f @ data\<rparr>"
proof (cases "data = []")
  case True
  then show ?thesis by (subst netascii_write_loop.simps) (cases f, simp)
next
  case False
  with assms have "netascii_write_loop data 0 f =
      netascii_write_loop data (length data) (f\<lparr>out_data := out_data f @ data\<rparr>)"
    by (subst netascii_write_loop.simps) (simp add: fwrite_unlimited)
  then show ?thesis by (subst (asm) (2) netascii_write_loop.simps) simp
qed

text \<open>On a device without space left the octet loop makes no progress in any round.\<close>

lemma octet_write_full:
  assumes "octet_write_loop data w f = Some f'" and "out_space f = Some 0"
  shows "length data \<le> w"
proof -
  have "out_space f = Some 0 \<longrightarrow> length data \<le> w"
  proof (rule octet_write_loop.raw_induct
      [where P = "\<lambda>data w f r. out_space f = Some 0 \<longrightarrow> length data \<le> w", OF _ assms(1)])
    fix loop data w f r
    assume IH: "\<And>data w f r. loop data w f = Some r \<Longrightarrow> out_space f = Some 0 \<longrightarrow> length data \<le> w"
      and eq: "(if w < length data then
          (case fwrite (take (length data - w) data) f of (n, f') \<Rightarrow> loop data (w + n) f')
        else Some f) = Some r"
    show "out_space f = Some 0 \<longrightarrow> length data \<le> w"
    proof (intro impI, rule ccontr)
      assume full: "out_space f = Some 0" and less: "\<not> length data \<le> w"
      then have "take (length data - w) data \<noteq> []" by auto
      from fwrite_full [OF full this] less
      have "loop data w (f\<lparr>out_err := True\<rparr>) = Some r"
        using eq by auto
      from IH [OF this] full less show False by simp
    qed
  qed
  with assms(2) show ?thesis by blast
qed

lemma octet_write_diverges:
  assumes "out_space f = Some k" and "k < length data"
  shows "octet_write_loop data 0 f = None"
proof -
  let ?f = "f\<lparr>out_data := out_data f @ take k data, out_err := True, out_space := Some 0\<rparr>"
  have "fwrite (take (length data) data) f = (k, ?f)"
    using assms by (cases f) (auto simp: fwrite_def Let_def)
  then have step: "octet_write_loop data 0 f = octet_write_loop data k ?f"
    using assms by (subst octet_write_loop.simps) (auto simp del: take_all_iff)
  show ?thesis
  proof (cases "octet_write_loop data k ?f")
    case (Some f')
    from octet_write_full [OF this] assms(2) show ?thesis by simp
  qed (simp add: step)
qed

subsection \<open>The byte sinks\<close>

definition wf_contents :: "tftp_write_file \<Rightarrow> bytes" where
  "wf_contents fw = (case wf_fd fw of None \<Rightarrow> [] | Some f \<Rightarrow> out_data f)"

definition wf_inv :: "mode_t \<Rightarrow> tftp_write_file \<Rightarrow> bool" where
  "wf_inv mode fw \<longleftrightarrow> wf_mode fw = mode \<and>
     (case wf_fd fw of None \<Rightarrow> False | Some f \<Rightarrow> out_space f = None \<and> \<not> out_err f)"

lemma wf_write_octet:
  assumes "wf_inv OCTET fw"
  shows "\<exists>fw'. wf_write d fw = Ret fw' \<and> wf_contents fw' = wf_contents fw @ d \<and> wf_inv OCTET fw'"
  using assms
  by (auto simp: wf_inv_def wf_write_def wf_contents_def octet_write_unlimited split: option.splits)

lemma wf_write_netascii:
  assumes "wf_inv NETASCII fw" and "netascii_to_native d = Ret x"
  shows "\<exists>fw'. wf_write d fw = Ret fw' \<and> wf_contents fw' = wf_contents fw @ x \<and> wf_inv NETASCII fw'"
  using assms
  by (auto simp: wf_inv_def wf_write_def wf_contents_def netascii_write_unlimited split: option.splits)

interpretation octet_sink: byte_sink wf_write Ret wf_contents "wf_inv OCTET"
  by unfold_locales (use wf_write_octet in auto)

interpretation netascii_sink: byte_sink wf_write netascii_to_native wf_contents "wf_inv NETASCII"
  by unfold_locales (rule wf_write_netascii)

lemma wf_inv_no_error: "wf_inv mode fw \<Longrightarrow> wf_error fw = Ret False"
  by (auto simp: wf_inv_def wf_error_def split: option.splits)

lemma wf_inv_open:
  assumes "wf_open (Inr (open_outfile None)) mode new_write_file = (fw, r)"
  shows "r = Ret ()" and "wf_inv mode fw" and "wf_contents fw = []"
  using assms by (auto simp: wf_open_def wf_inv_def wf_contents_def open_outfile_def)

text \<open>What a write can do to the object: the mode and the open stream stay.\<close>

lemma wf_write_frame:
  "wf_write d fw = Ret fw' \<Longrightarrow> wf_mode fw' = wf_mode fw \<and> wf_fd fw \<noteq> None \<and> wf_fd fw' \<noteq> None"
  by (auto simp: wf_write_def outcome_simps split: if_splits option.splits)

end
