(* ===== verification/Connection.thy ===== *)
theory Connection
  imports Read_File Write_File Udp
begin

text \<open>
  \<open>tftp_server_connection\<close> (\<open>src/server/tftp_server_connection.cpp\<close>): the state of one client session, its
  constructor with the access check and the option negotiation, and the two event handlers.
  The operating system's answers during construction are the record \<open>system\<close>; during a handler
  they are the datagram received or the result of the send.
\<close>

subsection \<open>State\<close>

datatype state_t = SEND_ACK | SEND_OACK | SEND_DATA | WAIT_FOR_ACK | WAIT_FOR_DATA | STATE_ERROR

fun state_to_string :: "state_t \<Rightarrow> string" where
  "state_to_string WAIT_FOR_ACK = ''Wait for ACK''"
| "state_to_string WAIT_FOR_DATA = ''Wait for DATA''"
| "state_to_string SEND_ACK = ''Send ACK''"
| "state_to_string SEND_DATA = ''Send DATA''"
| "state_to_string SEND_OACK = ''Send OACK''"
| "state_to_string STATE_ERROR = ''Send ERROR''"

definition BLKSIZE_OPT :: bytes where "BLKSIZE_OPT = bytes_of ''BLKSIZE''"
definition TSIZE_OPT :: bytes where "TSIZE_OPT = bytes_of ''TSIZE''"
definition TIMEOUT_OPT :: bytes where "TIMEOUT_OPT = bytes_of ''TIMEOUT''"
definition MAX_TIMEOUTS :: byte where "MAX_TIMEOUTS = 3"

record tftp_server_connection =
  c_udp :: udp_connection
  c_type :: packet_t
  c_file_reader :: tftp_read_file
  c_file_writer :: tftp_write_file
  c_client :: sockaddr_in
  c_data_pkt :: data_packet_t
  c_error_pkt :: error_packet_t
  c_finished :: bool
  c_final_ack :: bool
  c_pkt_ready :: bool
  c_state :: state_t
  c_timeout_s :: byte
  c_timeout_count :: byte
  c_block_number :: u16
  c_block_size :: u64
  c_oack_packet :: oack_packet_t
  c_timer :: timer

type_synonym conn = tftp_server_connection

text \<open>\<open>_block_size\<close> as a length.\<close>

abbreviation block_len :: "conn \<Rightarrow> nat" where
  "block_len c \<equiv> unat (c_block_size c)"

text \<open>
  The system as the constructor finds it.  The file system functions may throw (\<open>None\<close>); \<open>fopen\<close>
  answers with a stream or an error number, \<open>stat\<close> with a size or nothing.
\<close>

record system =
  sys_socket :: "int + int"
  sys_setsockopt :: "int option"
  sys_bind :: "int option"
  sys_connect :: "int option"
  sys_getfl :: "int option"
  sys_setfl :: "int option"
  sys_timerfd :: "int + int"
  sys_cwd :: bytes
  sys_weakly_canonical :: "bytes \<Rightarrow> bytes option"
  sys_exists :: "bytes \<Rightarrow> bool option"
  sys_stat :: "bytes \<Rightarrow> nat option"
  sys_fopen_r :: "bytes \<Rightarrow> int + infile"
  sys_fopen_w :: "bytes \<Rightarrow> int + outfile"
  sys_mtu :: "int \<times> int"

subsection \<open>Access check\<close>

definition filesystem :: "'a option \<Rightarrow> 'a outcome" where
  "filesystem r = (case r of None \<Rightarrow> Throw Filesystem_error | Some a \<Rightarrow> Ret a)"

definition is_operation_allowed ::
  "system \<Rightarrow> bytes \<Rightarrow> packet_t \<Rightarrow> error_packet_t option outcome" where
  "is_operation_allowed sys file_request type =
     obind (filesystem (sys_weakly_canonical sys (path_append (sys_cwd sys) file_request)))
       (\<lambda>canonical_filepath.
        if \<not> is_subpath canonical_filepath (sys_cwd sys)
        then Ret (Some (mk_error_packet ACCESS_ERROR ''Access denied''))
        else obind (if type = WRITE then filesystem (sys_exists sys canonical_filepath) else Ret False)
          (\<lambda>clash.
           if clash then Ret (Some (mk_error_packet FILE_EXISTS ''File already exists''))
           else obind (if type = READ
                       then obind (filesystem (sys_exists sys canonical_filepath)) (\<lambda>e. Ret (\<not> e))
                       else Ret False)
             (\<lambda>missing.
              if missing then Ret (Some (mk_error_packet ACCESS_ERROR ''File not found''))
              else Ret None)))"

subsection \<open>Option negotiation\<close>

definition push_oack :: "tftp_option \<Rightarrow> conn \<Rightarrow> conn" where
  "push_oack opt c = c\<lparr>c_oack_packet := \<lparr>oack_options = oack_options (c_oack_packet c) @ [opt]\<rparr>\<rparr>"

text \<open>
  \<open>BLKSIZE\<close>: the value is cut to 32 bits, stored, compared with the MTU as a signed \<open>int\<close> and
  lowered to it.  The assignment precedes the tests, and an unparsable value changes nothing.
\<close>

definition process_blksize :: "system \<Rightarrow> tftp_option \<Rightarrow> conn \<Rightarrow> conn" where
  "process_blksize sys opt c =
     (case stoul (snd opt) of
        Ret v \<Rightarrow>
          let val = (ucast v :: u32);
              c = c\<lparr>c_block_size := ucast val\<rparr>;
              MTU = get_mtu (fst (sys_mtu sys)) (snd (sys_mtu sys))
          in if MTU < 0 then push_oack opt c
             else if MTU < sint (ucast (c_block_size c) :: u32)
             then push_oack (fst opt, to_string (nat MTU)) (c\<lparr>c_block_size := of_int MTU\<rparr>)
             else push_oack opt c
      | _ \<Rightarrow> c)"

definition process_timeout :: "tftp_option \<Rightarrow> conn \<Rightarrow> conn" where
  "process_timeout opt c =
     (case stoul (snd opt) of
        Ret req_timeout_s \<Rightarrow>
          if req_timeout_s < 1 \<or> 255 < req_timeout_s then c
          else let c = c\<lparr>c_timeout_s := ucast req_timeout_s\<rparr>
               in push_oack (fst opt, to_string (unat (c_timeout_s c))) c
      | _ \<Rightarrow> c)"

definition process_option :: "system \<Rightarrow> rw_packet_t \<Rightarrow> tftp_option \<Rightarrow> conn \<Rightarrow> conn" where
  "process_option sys request opt c =
     (if c_str (fst opt) = BLKSIZE_OPT then process_blksize sys opt c
      else if c_str (fst opt) = TSIZE_OPT then
        (case rw_type request of
           READ \<Rightarrow> push_oack (fst opt,
             to_string (get_file_size (sys_stat sys (c_str (rw_filename request))))) c
         | _ \<Rightarrow> c)
      else if c_str (fst opt) = TIMEOUT_OPT then process_timeout opt c
      else c)"

definition process_options :: "system \<Rightarrow> rw_packet_t \<Rightarrow> conn \<Rightarrow> conn" where
  "process_options sys request c = fold (process_option sys request) (rw_options request) c"

subsection \<open>Construction\<close>

definition initial_connection :: "udp_connection \<Rightarrow> timer \<Rightarrow> packet_t \<Rightarrow> sockaddr_in \<Rightarrow> conn" where
  "initial_connection udp tm type client =
     \<lparr>c_udp = udp, c_type = type, c_file_reader = new_read_file, c_file_writer = new_write_file,
      c_client = client, c_data_pkt = new_data_packet, c_error_pkt = new_error_packet,
      c_finished = False, c_final_ack = False, c_pkt_ready = False, c_state = STATE_ERROR,
      c_timeout_s = 2, c_timeout_count = 0, c_block_number = 0, c_block_size = 512,
      c_oack_packet = \<lparr>oack_options = []\<rparr>, c_timer = tm\<rparr>"

definition open_failure :: "string \<Rightarrow> unit outcome \<Rightarrow> conn \<Rightarrow> conn" where
  "open_failure msg r c =
     (case r of
        Throw e \<Rightarrow> c\<lparr>c_error_pkt := mk_error_packet ACCESS_ERROR msg, c_state := STATE_ERROR\<rparr>
      | _ \<Rightarrow> c)"

text \<open>
  For \<open>READ\<close> the state is assigned after the \<open>catch\<close> block, for \<open>WRITE\<close> before it.
\<close>

definition start_read :: "system \<Rightarrow> rw_packet_t \<Rightarrow> conn \<Rightarrow> conn" where
  "start_read sys request c =
     (let (reader, r) = rf_open (sys_fopen_r sys (c_str (rw_filename request))) (rw_mode request)
            (c_file_reader c);
          c = open_failure ''Failed to open file for reading'' r (c\<lparr>c_file_reader := reader\<rparr>)
      in if oack_options (c_oack_packet c) = []
         then c\<lparr>c_state := SEND_DATA, c_block_number := 1\<rparr>
         else c\<lparr>c_block_number := 0, c_state := SEND_OACK\<rparr>)"

definition start_write :: "system \<Rightarrow> rw_packet_t \<Rightarrow> conn \<Rightarrow> conn" where
  "start_write sys request c =
     (let c = c\<lparr>c_state := (if oack_options (c_oack_packet c) = [] then SEND_ACK else SEND_OACK),
                c_block_number := 0\<rparr>;
          (writer, r) = wf_open (sys_fopen_w sys (c_str (rw_filename request))) (rw_mode request)
            (c_file_writer c)
      in open_failure ''Failed to open file for writing'' r (c\<lparr>c_file_writer := writer\<rparr>))"

definition start_request :: "system \<Rightarrow> rw_packet_t \<Rightarrow> conn \<Rightarrow> conn" where
  "start_request sys request c =
     (case rw_type request of
        READ \<Rightarrow> start_read sys request c
      | WRITE \<Rightarrow> start_write sys request c
      | _ \<Rightarrow> c\<lparr>c_error_pkt := mk_error_packet ILLEGAL_OPERATION ''ILLEGAL_OPERATION'',
              c_state := STATE_ERROR\<rparr>)"

definition new_connection :: "system \<Rightarrow> rw_packet_t \<Rightarrow> sockaddr_in \<Rightarrow> conn outcome" where
  "new_connection sys request client =
     obind (udp_new (sys_socket sys) (sys_setsockopt sys)) (\<lambda>udp.
     obind (timer_new (sys_timerfd sys)) (\<lambda>tm.
     obind (udp_bind [] 0 (sys_bind sys) udp) (\<lambda>udp.
     obind (udp_connect_sa client (sys_connect sys) udp) (\<lambda>udp.
     obind (udp_set_non_blocking True (sys_getfl sys) (sys_setfl sys) udp) (\<lambda>udp.
     obind (is_operation_allowed sys (rw_filename request) (rw_type request)) (\<lambda>error.
       let c = initial_connection udp tm (rw_type request) client
       in case error of
            Some e \<Rightarrow> Ret (c\<lparr>c_error_pkt := e, c_state := STATE_ERROR\<rparr>)
          | None \<Rightarrow>
              let c = c\<lparr>c_data_pkt := (c_data_pkt c)\<lparr>pkt_data := replicate (block_len c) 0\<rparr>\<rparr>
              in Ret (start_request sys request (process_options sys request c))))))))"

subsection \<open>Queries\<close>

definition c_is_finished :: "conn \<Rightarrow> bool" where
  "c_is_finished c = c_finished c"

definition c_set_finished :: "bool \<Rightarrow> conn \<Rightarrow> conn" where
  "c_set_finished finished c = c\<lparr>c_finished := finished\<rparr>"

definition wait_for_read :: "conn \<Rightarrow> bool" where
  "wait_for_read c \<longleftrightarrow> c_state c = WAIT_FOR_ACK \<or> c_state c = WAIT_FOR_DATA"

definition wait_for_write :: "conn \<Rightarrow> bool" where
  "wait_for_write c \<longleftrightarrow> c_state c = SEND_ACK \<or> c_state c = SEND_DATA \<or> c_state c = SEND_OACK \<or>
     c_state c = STATE_ERROR"

subsection \<open>Handlers\<close>

text \<open>
  \<open>retransmit\<close>: in the other states the \<open>assert(false)\<close> is compiled out (\<open>NDEBUG\<close>, the Makefile's
  default build) and an error is logged.
\<close>

definition retransmit :: "conn \<Rightarrow> conn" where
  "retransmit c =
     (if c_state c = WAIT_FOR_ACK then c\<lparr>c_state := SEND_DATA\<rparr>
      else if c_state c = WAIT_FOR_DATA
      then c\<lparr>c_state := SEND_ACK, c_block_number := c_block_number c - 1\<rparr>
      else c)"

definition handle_timeout :: "conn \<Rightarrow> conn" where
  "handle_timeout c =
     (if MAX_TIMEOUTS \<le> c_timeout_count c then c\<lparr>c_finished := True\<rparr>
      else retransmit (c\<lparr>c_timeout_count := c_timeout_count c + 1\<rparr>))"

text \<open>A comparison with \<open>_block_number - 1\<close> happens in \<open>int\<close>: for block number 0 it is with -1.\<close>

definition is_previous :: "u16 \<Rightarrow> u16 \<Rightarrow> bool" where
  "is_previous n block_number \<longleftrightarrow> uint n = uint block_number - 1"

definition error_reply :: "bytes \<Rightarrow> conn \<Rightarrow> conn" where
  "error_reply recv_data c =
     (case deserialise_error_packet recv_data of
        Some e \<Rightarrow> c\<lparr>c_finished := True\<rparr>
      | None \<Rightarrow> c)"

definition read_ack :: "bytes \<Rightarrow> conn \<Rightarrow> conn" where
  "read_ack recv_data c =
     (case deserialise_ack_packet recv_data of
        Some ack_packet \<Rightarrow>
          let c = c\<lparr>c_timeout_count := 0\<rparr>
          in if is_previous (ack_block_number ack_packet) (c_block_number c)
             then c\<lparr>c_state := SEND_DATA\<rparr>
             else if ack_block_number ack_packet = c_block_number c then
               (if c_final_ack c then c\<lparr>c_finished := True\<rparr>
                else c\<lparr>c_pkt_ready := False, c_state := SEND_DATA,
                       c_block_number := c_block_number c + 1\<rparr>)
             else c\<lparr>c_state := STATE_ERROR\<rparr>
      | None \<Rightarrow> error_reply recv_data c)"

definition read_data :: "bytes \<Rightarrow> conn \<Rightarrow> conn outcome" where
  "read_data recv_data c =
     (case deserialise_data_packet recv_data of
        Some data_packet \<Rightarrow>
          let c = c\<lparr>c_timeout_count := 0\<rparr>
          in if is_previous (data_block_number data_packet) (c_block_number c)
             then Ret (c\<lparr>c_block_number := c_block_number c - 1, c_state := SEND_ACK\<rparr>)
             else if data_block_number data_packet = c_block_number c then
               obind (wf_write (pkt_data data_packet) (c_file_writer c)) (\<lambda>writer.
               let c = c\<lparr>c_file_writer := writer\<rparr> in
               obind (wf_error writer) (\<lambda>err.
                 if err then Ret (c\<lparr>c_error_pkt := mk_error_packet NOT_DEFINED ''Internal server error'',
                                   c_state := STATE_ERROR\<rparr>)
                 else
                   let c = (if length (pkt_data data_packet) < block_len c
                            then c\<lparr>c_final_ack := True\<rparr> else c)
                   in Ret (c\<lparr>c_state := SEND_ACK\<rparr>)))
             else Ret (c\<lparr>c_state := STATE_ERROR\<rparr>)
      | None \<Rightarrow> Ret (error_reply recv_data c))"

definition handle_read :: "recv_answer \<Rightarrow> conn \<Rightarrow> conn outcome" where
  "handle_read answer c =
     (let (expired, tm) = has_expired (c_timer c);
          c = c\<lparr>c_timer := tm\<rparr>
      in if expired then Ret (handle_timeout c)
         else (case c_state c of
             WAIT_FOR_ACK \<Rightarrow>
               obind (udp_recv ACK_PKT_MAX_SIZE answer) (\<lambda>recv_data. Ret (read_ack recv_data c))
           | WAIT_FOR_DATA \<Rightarrow>
               obind (udp_recv (block_len c) answer) (\<lambda>recv_data. read_data recv_data c)
           | _ \<Rightarrow> Ret c))"

definition internal_error :: "conn \<Rightarrow> conn" where
  "internal_error c =
     c\<lparr>c_error_pkt := mk_error_packet NOT_DEFINED ''Internal server error'', c_state := STATE_ERROR\<rparr>"

definition arm :: "conn \<Rightarrow> conn" where
  "arm c = c\<lparr>c_timer := arm_timer (unat (c_timeout_s c)) (c_timer c)\<rparr>"

text \<open>The \<open>if (!_pkt_ready)\<close> block of \<open>SEND_DATA\<close>: the flag tells whether the handler goes on to send.\<close>

definition prepare_data :: "conn \<Rightarrow> (bool \<times> conn) outcome" where
  "prepare_data c =
     (if c_pkt_ready c then Ret (True, c)
      else
        obind (read_in_to (block_len c) (c_file_reader c)) (\<lambda>(data, reader).
        let c = c\<lparr>c_file_reader := reader, c_data_pkt := (c_data_pkt c)\<lparr>pkt_data := data\<rparr>\<rparr> in
        obind (rf_error reader) (\<lambda>err.
          if err then Ret (False, internal_error c)
          else
            obind (if length data < block_len c then Ret True else rf_eof reader) (\<lambda>last_block.
            let c = (if last_block \<and> length data < block_len c then c\<lparr>c_final_ack := True\<rparr> else c)
            in Ret (True, c\<lparr>c_data_pkt := (c_data_pkt c)\<lparr>data_block_number := c_block_number c\<rparr>,
                            c_pkt_ready := True\<rparr>)))))"

definition write_data :: "send_answer \<Rightarrow> conn \<Rightarrow> conn \<times> bytes list" where
  "write_data answer c =
     (let (ret, sent) = udp_send (serialise_data_packet (c_data_pkt c)) answer
      in if send_failed answer then (internal_error c, sent)
         else if ret > 0 then (arm (c\<lparr>c_state := WAIT_FOR_ACK\<rparr>), sent)
         else (c, sent))"

definition write_ack :: "send_answer \<Rightarrow> conn \<Rightarrow> conn \<times> bytes list" where
  "write_ack answer c =
     (let (ret, sent) = udp_send (serialise_ack_packet \<lparr>ack_block_number = c_block_number c\<rparr>) answer
      in if send_failed answer then (internal_error c, sent)
         else if ret > 0 then
           (if c_final_ack c then (c\<lparr>c_finished := True\<rparr>, sent)
            else (arm (c\<lparr>c_block_number := c_block_number c + 1, c_state := WAIT_FOR_DATA\<rparr>), sent))
         else (c, sent))"

definition write_oack :: "send_answer \<Rightarrow> conn \<Rightarrow> conn \<times> bytes list" where
  "write_oack answer c =
     (let (ret, sent) = udp_send (serialise_oack_packet (c_oack_packet c)) answer
      in if send_failed answer then (c\<lparr>c_finished := True\<rparr>, sent)
         else if ret > 0 then
           (if c_type c = READ then (c\<lparr>c_state := WAIT_FOR_ACK\<rparr>, sent)
            else (c\<lparr>c_state := WAIT_FOR_DATA\<rparr>, sent))
         else (c, sent))"

definition write_error :: "send_answer \<Rightarrow> conn \<Rightarrow> conn \<times> bytes list" where
  "write_error answer c =
     (let (ret, sent) = udp_send (serialise_error_packet (c_error_pkt c)) answer
      in if send_failed answer \<or> ret > 0 then (c\<lparr>c_finished := True\<rparr>, sent)
         else (c, sent))"

definition handle_write :: "send_answer \<Rightarrow> conn \<Rightarrow> (conn \<times> bytes list) outcome" where
  "handle_write answer c =
     (case c_state c of
        SEND_DATA \<Rightarrow>
          obind (prepare_data c) (\<lambda>(go, c). if go then Ret (write_data answer c) else Ret (c, []))
      | SEND_ACK \<Rightarrow> Ret (write_ack answer c)
      | SEND_OACK \<Rightarrow> Ret (write_oack answer c)
      | STATE_ERROR \<Rightarrow> Ret (write_error answer c)
      | _ \<Rightarrow> Throw (Runtime_error ''Error state''))"

end
