(* ===== verification/Runs.thy ===== *)
theory Runs
  imports Main
begin

text \<open>
  Executions of a component as sequences of labelled steps that emit outputs, and the
  contract of an inductive invariant that also constrains every output.
\<close>

inductive run :: "('s \<Rightarrow> 'e \<Rightarrow> 'o list \<Rightarrow> 's \<Rightarrow> bool) \<Rightarrow> 's \<Rightarrow> 'o list \<Rightarrow> 's \<Rightarrow> bool"
  for step where
  run_refl: "run step s [] s"
| run_step: "run step s os s' \<Longrightarrow> step s' e os' s'' \<Longrightarrow> run step s (os @ os') s''"

lemma run_single: "step s e os s' \<Longrightarrow> run step s os s'"
  using run_step [OF run_refl, of step s e os s'] by simp

locale output_invariant =
  fixes step :: "'s \<Rightarrow> 'e \<Rightarrow> 'o list \<Rightarrow> 's \<Rightarrow> bool"
    and inv :: "'s \<Rightarrow> bool"
    and good :: "'o \<Rightarrow> bool"
  assumes step_law: "inv s \<Longrightarrow> step s e os s' \<Longrightarrow> inv s' \<and> (\<forall>d \<in> set os. good d)"
begin

lemma run_inv:
  assumes "run step s os s'" and "inv s"
  shows "inv s' \<and> (\<forall>d \<in> set os. good d)"
  using assms
proof (induction rule: run.induct)
  case (run_step s os s' e os' s'')
  then show ?case using step_law by auto
qed simp

lemma run_states: "run step s os s' \<Longrightarrow> inv s \<Longrightarrow> inv s'"
  using run_inv by blast

lemma run_outputs: "run step s os s' \<Longrightarrow> inv s \<Longrightarrow> d \<in> set os \<Longrightarrow> good d"
  using run_inv by blast

end

text \<open>The same with the events recorded, and the contract of a simulation between two systems.\<close>

inductive exec :: "('s \<Rightarrow> 'e \<Rightarrow> 'o list \<Rightarrow> 's \<Rightarrow> bool) \<Rightarrow> 's \<Rightarrow> ('e \<times> 'o list) list \<Rightarrow> 's \<Rightarrow> bool"
  for step where
  exec_refl: "exec step s [] s"
| exec_step: "exec step s tr s' \<Longrightarrow> step s' e os s'' \<Longrightarrow> exec step s (tr @ [(e, os)]) s''"

lemma exec_run: "exec step s tr s' \<Longrightarrow> run step s (concat (map snd tr)) s'"
  by (induction rule: exec.induct) (auto intro: run.intros)

lemma exec_single: "step s e os s' \<Longrightarrow> exec step s [(e, os)] s'"
  using exec_step [OF exec_refl, of step s e os s'] by simp

locale simulation =
  fixes cstep :: "'c \<Rightarrow> 'e \<Rightarrow> 'o list \<Rightarrow> 'c \<Rightarrow> bool"
    and astep :: "'a \<Rightarrow> 'e \<Rightarrow> 'o list \<Rightarrow> 'a \<Rightarrow> bool"
    and rel :: "'c \<Rightarrow> 'a \<Rightarrow> bool"
  assumes sim_law: "rel c s \<Longrightarrow> cstep c e os c' \<Longrightarrow> \<exists>s'. astep s e os s' \<and> rel c' s'"
begin

lemma exec_simulated:
  assumes "exec cstep c tr c'" and "rel c s"
  shows "\<exists>s'. exec astep s tr s' \<and> rel c' s'"
  using assms
proof (induction rule: exec.induct)
  case exec_refl
  then show ?case by (blast intro: exec.exec_refl)
next
  case (exec_step c tr c' e os c'')
  then show ?case using sim_law by (metis exec.exec_step)
qed

end

end
