(* ===== verification/Session.thy ===== *)
theory Session
  imports Connection Runs
begin

text \<open>
  One session as a transition system: what the event loop and the passage of time can do to a
  \<open>tftp_server_connection\<close>, with arbitrary datagrams, send results and delays, and the invariants
  that hold of both kinds of session.
\<close>

datatype session_event = Ev_read recv_answer | Ev_write send_answer | Ev_elapse nat | Ev_hangup

inductive session_step :: "conn \<Rightarrow> session_event \<Rightarrow> bytes list \<Rightarrow> conn \<Rightarrow> bool" where
  step_read: "handle_read a c = Ret c' \<Longrightarrow> session_step c (Ev_read a) [] c'"
| step_write: "handle_write a c = Ret (c', os) \<Longrightarrow> session_step c (Ev_write a) os c'"
| step_elapse: "session_step c (Ev_elapse s) [] (c\<lparr>c_timer := elapse s (c_timer c)\<rparr>)"
| step_hangup: "session_step c Ev_hangup [] (c_set_finished True c)"

inductive_cases session_step_cases [elim!]:
  "session_step c (Ev_read a) os c'" "session_step c (Ev_write a) os c'"
  "session_step c (Ev_elapse s) os c'" "session_step c Ev_hangup os c'"

abbreviation session_run :: "conn \<Rightarrow> bytes list \<Rightarrow> conn \<Rightarrow> bool" where
  "session_run \<equiv> run session_step"

subsection \<open>Case rules for the handlers\<close>

lemma has_expired_eq: "has_expired t = (0 < tm_expirations t, t\<lparr>tm_expirations := 0\<rparr>)"
  by (simp add: has_expired_def)

text \<open>The connection with its timer read, as every branch of \<open>handle_read\<close> sees it.\<close>

definition timer_read :: "conn \<Rightarrow> conn" where
  "timer_read c = c\<lparr>c_timer := (c_timer c)\<lparr>tm_expirations := 0\<rparr>\<rparr>"

lemma timer_read_simps [simp]:
  "c_udp (timer_read c) = c_udp c" "c_type (timer_read c) = c_type c"
  "c_file_reader (timer_read c) = c_file_reader c" "c_file_writer (timer_read c) = c_file_writer c"
  "c_client (timer_read c) = c_client c" "c_data_pkt (timer_read c) = c_data_pkt c"
  "c_error_pkt (timer_read c) = c_error_pkt c" "c_finished (timer_read c) = c_finished c"
  "c_final_ack (timer_read c) = c_final_ack c" "c_pkt_ready (timer_read c) = c_pkt_ready c"
  "c_state (timer_read c) = c_state c" "c_timeout_s (timer_read c) = c_timeout_s c"
  "c_timeout_count (timer_read c) = c_timeout_count c"
  "c_block_number (timer_read c) = c_block_number c"
  "c_block_size (timer_read c) = c_block_size c" "c_oack_packet (timer_read c) = c_oack_packet c"
  "tm_left (c_timer (timer_read c)) = tm_left (c_timer c)"
  "tm_expirations (c_timer (timer_read c)) = 0"
  by (simp_all add: timer_read_def)

lemma handle_read_eq:
  "handle_read a c =
     (if 0 < tm_expirations (c_timer c) then Ret (handle_timeout (timer_read c))
      else (case c_state c of
          WAIT_FOR_ACK \<Rightarrow> obind (udp_recv ACK_PKT_MAX_SIZE a) (\<lambda>d. Ret (read_ack d (timer_read c)))
        | WAIT_FOR_DATA \<Rightarrow> obind (udp_recv (block_len c) a) (\<lambda>d. read_data d (timer_read c))
        | _ \<Rightarrow> Ret (timer_read c)))"
  by (cases "c_state c") (simp_all add: handle_read_def has_expired_eq timer_read_def Let_def)

lemma handle_read_cases:
  assumes "handle_read a c = Ret c'"
  obtains (timeout) "0 < tm_expirations (c_timer c)" "c' = handle_timeout (timer_read c)"
  | (ack) d where "tm_expirations (c_timer c) = 0" "c_state c = WAIT_FOR_ACK"
      "udp_recv ACK_PKT_MAX_SIZE a = Ret d" "c' = read_ack d (timer_read c)"
  | (data) d where "tm_expirations (c_timer c) = 0" "c_state c = WAIT_FOR_DATA"
      "udp_recv (block_len c) a = Ret d" "read_data d (timer_read c) = Ret c'"
  | (idle) "tm_expirations (c_timer c) = 0" "c_state c \<noteq> WAIT_FOR_ACK" "c_state c \<noteq> WAIT_FOR_DATA"
      "c' = timer_read c"
  using assms that
  by (auto simp: handle_read_eq outcome_simps split: if_splits state_t.splits)

lemma read_ack_cases [consumes 0, case_names dup final next_block bad err ignored]:
  obtains (dup) p where "deserialise_ack_packet d = Some p"
      "is_previous (ack_block_number p) (c_block_number c)"
      "read_ack d c = c\<lparr>c_timeout_count := 0, c_state := SEND_DATA\<rparr>"
  | (final) p where "deserialise_ack_packet d = Some p" "ack_block_number p = c_block_number c"
      "c_final_ack c" "read_ack d c = c\<lparr>c_timeout_count := 0, c_finished := True\<rparr>"
  | (next_block) p where "deserialise_ack_packet d = Some p" "ack_block_number p = c_block_number c"
      "\<not> c_final_ack c"
      "read_ack d c = c\<lparr>c_timeout_count := 0, c_pkt_ready := False, c_state := SEND_DATA,
         c_block_number := c_block_number c + 1\<rparr>"
  | (bad) p where "deserialise_ack_packet d = Some p"
      "\<not> is_previous (ack_block_number p) (c_block_number c)"
      "ack_block_number p \<noteq> c_block_number c"
      "read_ack d c = c\<lparr>c_timeout_count := 0, c_state := STATE_ERROR\<rparr>"
  | (err) e where "deserialise_ack_packet d = None" "deserialise_error_packet d = Some e"
      "read_ack d c = c\<lparr>c_finished := True\<rparr>"
  | (ignored) "deserialise_ack_packet d = None" "deserialise_error_packet d = None"
      "read_ack d c = c"
proof (cases "deserialise_ack_packet d")
  case None
  show ?thesis
  proof (cases "deserialise_error_packet d")
    case None': None
    show ?thesis by (rule ignored) (simp_all add: None None' read_ack_def error_reply_def)
  next
    case (Some e)
    show ?thesis by (rule err) (simp_all add: None Some read_ack_def error_reply_def)
  qed
next
  case (Some p)
  show ?thesis
  proof (cases "is_previous (ack_block_number p) (c_block_number c)")
    case True
    show ?thesis by (rule dup [OF Some True]) (simp add: Some True read_ack_def)
  next
    case prev: False
    show ?thesis
    proof (cases "ack_block_number p = c_block_number c")
      case False
      show ?thesis by (rule bad [OF Some prev False]) (simp add: Some prev False read_ack_def)
    next
      case True
      show ?thesis
      proof (cases "c_final_ack c")
        case fin: True
        show ?thesis
          by (rule final [OF Some True fin]) (use prev True fin in \<open>simp add: Some read_ack_def\<close>)
      next
        case fin: False
        show ?thesis
          by (rule next_block [OF Some True fin]) (use prev True fin in \<open>simp add: Some read_ack_def\<close>)
      qed
    qed
  qed
qed

lemma handle_timeout_cases:
  obtains (give_up) "MAX_TIMEOUTS \<le> c_timeout_count c" "handle_timeout c = c\<lparr>c_finished := True\<rparr>"
  | (again_ack) "\<not> MAX_TIMEOUTS \<le> c_timeout_count c" "c_state c = WAIT_FOR_ACK"
      "handle_timeout c = c\<lparr>c_timeout_count := c_timeout_count c + 1, c_state := SEND_DATA\<rparr>"
  | (again_data) "\<not> MAX_TIMEOUTS \<le> c_timeout_count c" "c_state c = WAIT_FOR_DATA"
      "handle_timeout c = c\<lparr>c_timeout_count := c_timeout_count c + 1, c_state := SEND_ACK,
         c_block_number := c_block_number c - 1\<rparr>"
  | (no_wait) "\<not> MAX_TIMEOUTS \<le> c_timeout_count c" "c_state c \<noteq> WAIT_FOR_ACK"
      "c_state c \<noteq> WAIT_FOR_DATA"
      "handle_timeout c = c\<lparr>c_timeout_count := c_timeout_count c + 1\<rparr>"
proof (cases "MAX_TIMEOUTS \<le> c_timeout_count c")
  case True
  show ?thesis by (rule give_up [OF True]) (simp add: True handle_timeout_def)
next
  case False
  consider "c_state c = WAIT_FOR_ACK" | "c_state c = WAIT_FOR_DATA"
    | "c_state c \<noteq> WAIT_FOR_ACK" "c_state c \<noteq> WAIT_FOR_DATA" by blast
  then show ?thesis
  proof cases
    case 1
    show ?thesis by (rule again_ack [OF False 1]) (simp add: False 1 handle_timeout_def retransmit_def)
  next
    case 2
    show ?thesis by (rule again_data [OF False 2]) (simp add: False 2 handle_timeout_def retransmit_def)
  next
    case 3
    show ?thesis by (rule no_wait [OF False 3]) (simp add: False 3 handle_timeout_def retransmit_def)
  qed
qed

lemma send_cases:
  obtains (failed) "send_failed a" "\<not> 0 < fst a"
  | (sent) "\<not> send_failed a" "0 < fst a"
  | (again) "\<not> send_failed a" "\<not> 0 < fst a"
  by (cases "send_failed a"; cases "0 < fst a") (auto simp: send_failed_def)

lemmas write_defs = write_data_def write_ack_def write_oack_def write_error_def udp_send_def Let_def

lemma read_data_cases:
  assumes "read_data d c = Ret c'"
  obtains (dup) p where "deserialise_data_packet d = Some p"
      "is_previous (data_block_number p) (c_block_number c)"
      "c' = c\<lparr>c_timeout_count := 0, c_block_number := c_block_number c - 1, c_state := SEND_ACK\<rparr>"
  | (stored) p fw where "deserialise_data_packet d = Some p" "data_block_number p = c_block_number c"
      "wf_write (pkt_data p) (c_file_writer c) = Ret fw" "wf_error fw = Ret False"
      "c' = c\<lparr>c_timeout_count := 0, c_file_writer := fw,
         c_final_ack := c_final_ack c \<or> length (pkt_data p) < block_len c, c_state := SEND_ACK\<rparr>"
  | (disk) p fw where "deserialise_data_packet d = Some p" "data_block_number p = c_block_number c"
      "wf_write (pkt_data p) (c_file_writer c) = Ret fw" "wf_error fw = Ret True"
      "c' = internal_error (c\<lparr>c_timeout_count := 0, c_file_writer := fw\<rparr>)"
  | (bad) p where "deserialise_data_packet d = Some p"
      "\<not> is_previous (data_block_number p) (c_block_number c)" "data_block_number p \<noteq> c_block_number c"
      "c' = c\<lparr>c_timeout_count := 0, c_state := STATE_ERROR\<rparr>"
  | (err) e where "deserialise_data_packet d = None" "deserialise_error_packet d = Some e"
      "c' = c\<lparr>c_finished := True\<rparr>"
  | (ignored) "deserialise_data_packet d = None" "deserialise_error_packet d = None" "c' = c"
proof (cases "deserialise_data_packet d")
  case None
  show ?thesis
  proof (cases "deserialise_error_packet d")
    case None': None
    show ?thesis by (rule ignored) (use assms None None' in \<open>simp_all add: read_data_def error_reply_def\<close>)
  next
    case (Some e)
    show ?thesis by (rule err) (use assms None Some in \<open>simp_all add: read_data_def error_reply_def\<close>)
  qed
next
  case (Some p)
  show ?thesis
  proof (cases "is_previous (data_block_number p) (c_block_number c)")
    case True
    show ?thesis by (rule dup [OF Some True]) (use assms Some True in \<open>simp add: read_data_def\<close>)
  next
    case prev: False
    show ?thesis
    proof (cases "data_block_number p = c_block_number c")
      case False
      show ?thesis by (rule bad [OF Some prev False]) (use assms Some prev False in \<open>simp add: read_data_def\<close>)
    next
      case True
      with assms Some prev obtain fw e where fw:
        "wf_write (pkt_data p) (c_file_writer c) = Ret fw" "wf_error fw = Ret e"
        by (auto simp: read_data_def Let_def outcome_simps)
      show ?thesis
      proof (cases e)
        case e: True
        show ?thesis
          by (rule disk [OF Some True fw(1)])
            (use assms prev True fw e in \<open>simp_all add: Some read_data_def internal_error_def\<close>)
      next
        case e: False
        show ?thesis
          by (rule stored [OF Some True fw(1)])
            (use assms prev True fw e in
              \<open>auto simp: Some read_data_def Let_def intro!: tftp_server_connection.equality split: if_splits\<close>)
      qed
    qed
  qed
qed

lemma prepare_data_cases:
  assumes "prepare_data c = Ret (go, c')"
  obtains (ready) "c_pkt_ready c" "go" "c' = c"
  | (failed) b rf where "\<not> c_pkt_ready c" "\<not> go"
      "read_in_to (block_len c) (c_file_reader c) = Ret (b, rf)" "rf_error rf = Ret True"
      "c' = internal_error (c\<lparr>c_file_reader := rf, c_data_pkt := (c_data_pkt c)\<lparr>pkt_data := b\<rparr>\<rparr>)"
  | (filled) b rf where "\<not> c_pkt_ready c" "go"
      "read_in_to (block_len c) (c_file_reader c) = Ret (b, rf)" "rf_error rf = Ret False"
      "c' = c\<lparr>c_file_reader := rf, c_final_ack := c_final_ack c \<or> length b < block_len c,
         c_data_pkt := \<lparr>pkt_data = b, data_block_number = c_block_number c\<rparr>, c_pkt_ready := True\<rparr>"
proof (cases "c_pkt_ready c")
  case True
  show ?thesis by (rule ready [OF True]) (use assms True in \<open>simp_all add: prepare_data_def\<close>)
next
  case False
  with assms obtain b rf e where b:
    "read_in_to (block_len c) (c_file_reader c) = Ret (b, rf)" "rf_error rf = Ret e"
    by (auto simp: prepare_data_def Let_def outcome_simps)
  show ?thesis
  proof (cases e)
    case True
    show ?thesis
      by (rule failed [OF False _ b(1)]) (use assms False True b in \<open>simp_all add: prepare_data_def\<close>)
  next
    case e: False
    show ?thesis
    proof (cases "length b < block_len c")
      case True
      show ?thesis
        by (rule filled [OF False _ b(1)]) (use assms False b e True in \<open>simp_all add: prepare_data_def\<close>)
    next
      case long: False
      with assms False b e obtain l where "rf_eof rf = Ret l"
        by (auto simp: prepare_data_def Let_def outcome_simps)
      then show ?thesis
        by (intro filled [OF False _ b(1)])
          (use assms False b e long in \<open>simp_all add: prepare_data_def\<close>)
    qed
  qed
qed

subsection \<open>Invariants of every session\<close>

text \<open>
  The direction of the transfer limits the states, at most \<open>MAX_TIMEOUTS\<close> retransmissions are
  counted, and the reader's overflow buffer fits a block.
\<close>

definition direction_ok :: "conn \<Rightarrow> bool" where
  "direction_ok c \<longleftrightarrow>
     (c_state c = SEND_DATA \<or> c_state c = WAIT_FOR_ACK \<longrightarrow> c_type c = READ) \<and>
     (c_state c = SEND_ACK \<or> c_state c = WAIT_FOR_DATA \<longrightarrow> c_type c \<noteq> READ)"

definition session_inv :: "conn \<Rightarrow> bool" where
  "session_inv c \<longleftrightarrow> direction_ok c \<and> c_timeout_count c \<le> MAX_TIMEOUTS \<and>
     length (rf_overflow (c_file_reader c)) \<le> block_len c"

lemma count_succ: "\<not> MAX_TIMEOUTS \<le> n \<Longrightarrow> n + 1 \<le> MAX_TIMEOUTS"
  by (simp add: MAX_TIMEOUTS_def) unat_arith

lemma session_inv_timeout: "session_inv c \<Longrightarrow> session_inv (handle_timeout c)"
  by (cases c rule: handle_timeout_cases)
    (auto simp: session_inv_def direction_ok_def count_succ)

lemma session_inv_read_ack:
  "session_inv c \<Longrightarrow> c_state c = WAIT_FOR_ACK \<Longrightarrow> session_inv (read_ack d c)"
  by (cases d c rule: read_ack_cases) (auto simp: session_inv_def direction_ok_def)

lemma session_inv_read_data:
  "session_inv c \<Longrightarrow> c_state c = WAIT_FOR_DATA \<Longrightarrow> read_data d c = Ret c' \<Longrightarrow> session_inv c'"
  by (erule read_data_cases) (auto simp: session_inv_def direction_ok_def internal_error_def)

lemma session_inv_timer [simp]: "session_inv (timer_read c) = session_inv c"
  by (simp add: session_inv_def direction_ok_def)

lemma session_inv_handle_read:
  assumes "session_inv c" and "handle_read a c = Ret c'"
  shows "session_inv c'"
  using assms(2)
proof (cases rule: handle_read_cases)
  case timeout
  with assms(1) show ?thesis by (simp add: session_inv_timeout)
next
  case (ack d)
  with assms(1) show ?thesis by (simp add: session_inv_read_ack)
next
  case (data d)
  with assms(1) show ?thesis using session_inv_read_data [of "timer_read c" d c'] by simp
next
  case idle
  with assms(1) show ?thesis by simp
qed

lemma session_inv_prepare:
  assumes "session_inv c" and "prepare_data c = Ret (go, c')"
  shows "session_inv c'"
proof -
  have bound: "length (rf_overflow rf) \<le> block_len c"
    if "read_in_to (block_len c) (c_file_reader c) = Ret (b, rf)" for b rf
  proof -
    have "rf_fd (c_file_reader c) \<noteq> None"
      using read_in_to_stream [OF that] .
    with assms(1) read_in_to_bounds [of "c_file_reader c" "block_len c"] that
    show ?thesis by (auto simp: session_inv_def)
  qed
  from assms(2) show ?thesis
    by (cases rule: prepare_data_cases)
      (use assms(1) bound in \<open>auto simp: session_inv_def direction_ok_def internal_error_def\<close>)
qed

lemma session_inv_writes:
  assumes "session_inv c"
  shows "c_state c = SEND_DATA \<Longrightarrow> session_inv (fst (write_data a c))"
    and "c_state c = SEND_ACK \<Longrightarrow> session_inv (fst (write_ack a c))"
    and "c_state c = SEND_OACK \<Longrightarrow> session_inv (fst (write_oack a c))"
    and "session_inv (fst (write_error a c))"
  using assms
  by (auto simp: write_defs session_inv_def direction_ok_def internal_error_def arm_def)

lemma prepare_state:
  "prepare_data c = Ret (go, c') \<Longrightarrow> c_state c' = (if go then c_state c else STATE_ERROR) \<and> c_type c' = c_type c"
  by (erule prepare_data_cases) (auto simp: internal_error_def)

lemma handle_write_cases:
  assumes "handle_write a c = Ret (c', os)"
  obtains (data) c1 where "c_state c = SEND_DATA" "prepare_data c = Ret (True, c1)"
      "write_data a c1 = (c', os)"
  | (no_data) "c_state c = SEND_DATA" "prepare_data c = Ret (False, c')" "os = []"
  | (ack) "c_state c = SEND_ACK" "write_ack a c = (c', os)"
  | (oack) "c_state c = SEND_OACK" "write_oack a c = (c', os)"
  | (error) "c_state c = STATE_ERROR" "write_error a c = (c', os)"
proof (cases "c_state c")
  case SEND_DATA
  with assms obtain go c1 where c1: "prepare_data c = Ret (go, c1)"
      "(if go then Ret (write_data a c1) else Ret (c1, [])) = Ret (c', os)"
    by (auto simp: handle_write_def outcome_simps)
  with SEND_DATA show ?thesis using data no_data by (cases go) auto
next
  case SEND_ACK
  with assms ack show ?thesis by (simp add: handle_write_def)
next
  case SEND_OACK
  with assms oack show ?thesis by (simp add: handle_write_def)
next
  case STATE_ERROR
  with assms error show ?thesis by (simp add: handle_write_def)
qed (use assms in \<open>simp_all add: handle_write_def\<close>)

lemma session_inv_handle_write:
  assumes "session_inv c" and "handle_write a c = Ret (c', os)"
  shows "session_inv c'"
  using assms(2)
proof (cases rule: handle_write_cases)
  case (data c1)
  then have "session_inv c1" "c_state c1 = SEND_DATA"
    using session_inv_prepare [OF assms(1)] prepare_state by fastforce+
  with data(3) session_inv_writes(1) show ?thesis by (metis fst_conv)
next
  case no_data
  with session_inv_prepare [OF assms(1)] show ?thesis by blast
next
  case ack
  with session_inv_writes(2) [OF assms(1)] show ?thesis by (metis fst_conv)
next
  case oack
  with session_inv_writes(3) [OF assms(1)] show ?thesis by (metis fst_conv)
next
  case error
  with session_inv_writes(4) [OF assms(1)] show ?thesis by (metis fst_conv)
qed

lemma session_inv_step:
  assumes "session_inv c" and "session_step c e os c'"
  shows "session_inv c'"
  using assms(2)
proof (cases rule: session_step.cases)
  case (step_read a)
  with session_inv_handle_read [OF assms(1)] show ?thesis by blast
next
  case (step_write a)
  with session_inv_handle_write [OF assms(1)] show ?thesis by blast
next
  case (step_elapse s)
  with assms(1) show ?thesis by (simp add: session_inv_def direction_ok_def)
next
  case step_hangup
  with assms(1) show ?thesis by (simp add: session_inv_def direction_ok_def c_set_finished_def)
qed

text \<open>The error state is never left, and an \<open>ERROR\<close> packet is all it sends.\<close>

lemma error_absorbing_read:
  assumes "handle_read a c = Ret c'" and "c_state c = STATE_ERROR"
  shows "c_state c' = STATE_ERROR"
  using assms(1)
proof (cases rule: handle_read_cases)
  case timeout
  with assms(2) show ?thesis by (cases "timer_read c" rule: handle_timeout_cases) simp_all
qed (use assms(2) in simp_all)

lemma error_absorbing_step:
  assumes "session_step c e os c'" and "c_state c = STATE_ERROR"
  shows "c_state c' = STATE_ERROR \<and> (\<forall>d \<in> set os. \<exists>p. d = serialise_error_packet p)"
  using assms(1)
proof (cases rule: session_step.cases)
  case (step_read a)
  with assms(2) error_absorbing_read show ?thesis by auto
next
  case (step_write a)
  with assms(2) show ?thesis by (auto simp: handle_write_def write_defs split: if_splits)
next
  case (step_elapse s)
  with assms(2) show ?thesis by simp
next
  case step_hangup
  with assms(2) show ?thesis by (simp add: c_set_finished_def)
qed

interpretation session: output_invariant session_step session_inv "\<lambda>_. True"
  by unfold_locales (use session_inv_step in blast)

end
