(* ===== verification/Read_Session.thy ===== *)
theory Read_Session
  imports Session
begin

text \<open>
  A \<open>READ\<close> session serves a byte string \<open>S\<close> in blocks of \<open>n\<close>.  The invariant ties the connection's
  fields to an unbounded block index \<open>k\<close>: whatever datagrams arrive, and however sends fail or
  timers fire, a DATA packet on the wire is block \<open>k\<close> of \<open>S\<close> under the number \<open>k mod 2^16\<close>.
\<close>

definition nth_data_packet :: "nat \<Rightarrow> bytes \<Rightarrow> nat \<Rightarrow> data_packet_t" where
  "nth_data_packet n S k = \<lparr>pkt_data = chunk n (k - 1) S, data_block_number = of_nat k\<rparr>"

text \<open>The datagrams a \<open>READ\<close> session may send: its OACK, an ERROR, or a block up to the first short one.\<close>

definition read_output :: "nat \<Rightarrow> bytes \<Rightarrow> oack_packet_t \<Rightarrow> bytes \<Rightarrow> bool" where
  "read_output n S oack d \<longleftrightarrow>
     d = serialise_oack_packet oack \<or> (\<exists>e. d = serialise_error_packet e) \<or>
     (\<exists>k. 1 \<le> k \<and> (k - 1) * n \<le> length S \<and> d = serialise_data_packet (nth_data_packet n S k))"

definition timer_unarmed :: "conn \<Rightarrow> bool" where
  "timer_unarmed c \<longleftrightarrow> tm_left (c_timer c) = None \<and> tm_expirations (c_timer c) = 0"

definition read_inv_at :: "nat \<Rightarrow> bytes \<Rightarrow> oack_packet_t \<Rightarrow> nat \<Rightarrow> conn \<Rightarrow> bool" where
  "read_inv_at n S oack k c \<longleftrightarrow>
     c_type c = READ \<and> block_len c = n \<and> c_oack_packet c = oack \<and>
     rf_inv n (c_file_reader c) \<and> c_block_number c = of_nat k \<and> (k - 1) * n \<le> length S \<and>
     c_state c \<noteq> SEND_ACK \<and> c_state c \<noteq> WAIT_FOR_DATA \<and>
     (k = 0 \<longrightarrow> timer_unarmed c \<and> \<not> c_pkt_ready c \<and> c_state c \<noteq> SEND_DATA) \<and>
     (c_pkt_ready c \<longrightarrow> c_data_pkt c = nth_data_packet n S k \<and>
        rf_pending (c_file_reader c) = drop (k * n) S \<and>
        (c_final_ack c \<longleftrightarrow> length (chunk n (k - 1) S) < n)) \<and>
     (\<not> c_pkt_ready c \<longrightarrow> rf_pending (c_file_reader c) = drop ((k - 1) * n) S \<and> \<not> c_final_ack c) \<and>
     (c_state c = WAIT_FOR_ACK \<and> 0 < k \<longrightarrow> c_pkt_ready c) \<and>
     (c_state c = SEND_OACK \<longrightarrow> k = 0)"

definition read_inv :: "nat \<Rightarrow> bytes \<Rightarrow> oack_packet_t \<Rightarrow> conn \<Rightarrow> bool" where
  "read_inv n S oack c \<longleftrightarrow> (\<exists>k. read_inv_at n S oack k c)"

lemmas read_inv_defs = read_inv_at_def timer_unarmed_def

lemma read_inv_at_timeout:
  assumes "read_inv_at n S oack k c" and "0 < k"
  shows "read_inv_at n S oack k (handle_timeout c)"
  by (cases c rule: handle_timeout_cases) (use assms in \<open>simp_all add: read_inv_defs\<close>)

lemma read_inv_at_timer_read: "read_inv_at n S oack k c \<Longrightarrow> read_inv_at n S oack k (timer_read c)"
  by (simp add: read_inv_defs)

lemma not_previous_0: "\<not> is_previous m 0"
  by (simp add: is_previous_def) (metis uint_ge_0 zero_neq_neg_one neg_0_le_iff_le not_one_le_zero)

lemma not_previous_self: "\<not> is_previous n n"
  by (simp add: is_previous_def)

lemma next_block_start:
  assumes "length (chunk n (k - 1) S) = n" and "0 < k"
  shows "k * n \<le> length S"
proof (cases "n = 0")
  case False
  from assms False have "n \<le> length S - (k - 1) * n"
    by (simp add: length_chunk min_def split: if_splits)
  moreover have "k * n = (k - 1) * n + n"
    using assms(2) by (cases k) auto
  ultimately show ?thesis using False by simp
qed simp

text \<open>The block index moves only on the ACK of the current block, and only past a full block.\<close>

definition advances :: "nat \<Rightarrow> bytes \<Rightarrow> nat \<Rightarrow> bytes \<Rightarrow> bool" where
  "advances n S k d \<longleftrightarrow> deserialise_ack_packet d = Some \<lparr>ack_block_number = of_nat k\<rparr> \<and>
     (k = 0 \<or> length (chunk n (k - 1) S) = n)"

lemma read_inv_at_ack:
  assumes inv: "read_inv_at n S oack k c" and wait: "c_state c = WAIT_FOR_ACK"
  shows "read_inv_at n S oack k (read_ack d c) \<or>
    advances n S k d \<and> read_inv_at n S oack (Suc k) (read_ack d c) \<and> c_state (read_ack d c) = SEND_DATA"
proof (cases d c rule: read_ack_cases)
  case (dup p)
  then have "k \<noteq> 0"
    using inv not_previous_0 by (auto simp: read_inv_at_def)
  with inv wait show ?thesis by (simp add: dup(3) read_inv_defs)
next
  case (final p)
  then have ready: "c_pkt_ready c" using inv by (auto simp: read_inv_at_def)
  then have "0 < k" using inv by (auto simp: read_inv_at_def)
  with final inv ready show ?thesis by (simp add: read_inv_defs)
next
  case (next_block p)
  have p: "p = \<lparr>ack_block_number = of_nat k\<rparr>"
    using inv next_block(2) by (cases p) (simp add: read_inv_at_def)
  have "advances n S k d \<and> read_inv_at n S oack (Suc k) (read_ack d c)"
  proof (cases "k = 0")
    case True
    with inv next_block p show ?thesis by (simp add: advances_def read_inv_defs)
  next
    case False
    then have "c_pkt_ready c" using inv wait by (simp add: read_inv_at_def)
    with inv next_block(3) have full: "length (chunk n (k - 1) S) = n"
      using length_chunk [of n "k - 1" S] by (auto simp: read_inv_at_def)
    then have "k * n \<le> length S" using False by (intro next_block_start) simp_all
    with inv next_block False \<open>c_pkt_ready c\<close> full p show ?thesis
      by (simp add: advances_def read_inv_defs add.commute)
  qed
  with next_block(4) show ?thesis by simp
next
  case (bad p)
  with inv show ?thesis by (simp add: read_inv_defs)
next
  case (err e)
  with inv show ?thesis by (simp add: read_inv_defs)
next
  case ignored
  with inv show ?thesis by auto
qed

lemma read_inv_at_handle_read:
  assumes k: "read_inv_at n S oack k c" and "handle_read a c = Ret c'"
  shows "read_inv_at n S oack k c' \<or>
    (\<exists>d. a = Datagram d \<and> advances n S k (take ACK_PKT_MAX_SIZE d)) \<and> read_inv_at n S oack (Suc k) c' \<and>
      c_state c = WAIT_FOR_ACK \<and> c_state c' = SEND_DATA"
proof -
  note timer = read_inv_at_timer_read [OF k]
  from assms(2) show ?thesis
  proof (cases rule: handle_read_cases)
    case timeout
    with k have "0 < k" by (auto simp: read_inv_at_def timer_unarmed_def)
    with timeout(2) read_inv_at_timeout [OF timer] show ?thesis by simp
  next
    case (ack d)
    have "\<not> advances n S k []" by (simp add: advances_def)
    with ack(3) have "advances n S k d \<Longrightarrow> \<exists>d'. a = Datagram d' \<and> d = take ACK_PKT_MAX_SIZE d'"
      by (cases a) (auto split: if_splits)
    with read_inv_at_ack [OF timer, of d] ack(2,4) show ?thesis by auto
  next
    case (data d)
    with k show ?thesis by (simp add: read_inv_at_def)
  next
    case idle
    with timer show ?thesis by simp
  qed
qed

lemma read_inv_handle_read:
  "read_inv n S oack c \<Longrightarrow> handle_read a c = Ret c' \<Longrightarrow> read_inv n S oack c'"
  using read_inv_at_handle_read unfolding read_inv_def by blast

text \<open>Preparing a packet under the invariant always succeeds, with the block due.\<close>

lemma read_inv_at_prepare:
  assumes inv: "read_inv_at n S oack k c" and st: "c_state c = SEND_DATA"
  shows "\<exists>c'. prepare_data c = Ret (True, c') \<and> read_inv_at n S oack k c' \<and> c_pkt_ready c' \<and>
    c_state c' = SEND_DATA \<and> 0 < k \<and> c_finished c' = c_finished c \<and> c_timer c' = c_timer c \<and>
    c_timeout_count c' = c_timeout_count c \<and> c_timeout_s c' = c_timeout_s c"
proof (cases "c_pkt_ready c")
  case True
  with inv st show ?thesis by (auto simp: prepare_data_def read_inv_at_def)
next
  case False
  with inv st have k: "0 < k" and pend: "rf_pending (c_file_reader c) = drop ((k - 1) * n) S"
    and rf: "rf_inv n (c_file_reader c)" and n: "block_len c = n" and fin: "\<not> c_final_ack c"
    by (auto simp: read_inv_at_def)
  from read_in_to_block [OF rf] obtain rf' where rf':
    "read_in_to n (c_file_reader c) = Ret (take n (rf_pending (c_file_reader c)), rf')"
    "rf_pending rf' = drop n (rf_pending (c_file_reader c))" "rf_inv n rf'" by blast
  obtain b where b: "rf_eof rf' = Ret b" using rf_inv_flags(2) [OF rf'(3)] by blast
  let ?D = "chunk n (k - 1) S"
  define c' where "c' = c\<lparr>c_file_reader := rf', c_final_ack := length ?D < n,
    c_data_pkt := nth_data_packet n S k, c_pkt_ready := True\<rparr>"
  have "n + (k - 1) * n = k * n" using k by (cases k) auto
  then have pend': "rf_pending rf' = drop (k * n) S"
    by (simp add: rf'(2) pend)
  have bn: "c_block_number c = of_nat k" using inv by (simp add: read_inv_at_def)
  have rd: "read_in_to n (c_file_reader c) = Ret (?D, rf')"
    using rf'(1) by (simp add: chunk_def pend)
  have "prepare_data c = Ret (True, c')"
  proof (cases "length ?D < n")
    case True
    with False show ?thesis
      by (simp add: prepare_data_def Let_def n rd rf_inv_flags(1) [OF rf'(3)] b c'_def
          nth_data_packet_def bn)
  next
    case long: False
    with False show ?thesis
      by (simp add: prepare_data_def Let_def n rd rf_inv_flags(1) [OF rf'(3)] b c'_def
          nth_data_packet_def bn fin)
  qed
  moreover have "read_inv_at n S oack k c'"
    using inv False k rf'(3) pend' st by (simp add: read_inv_defs c'_def)
  ultimately show ?thesis using k st by (auto simp: c'_def)
qed

lemma read_inv_at_write_data:
  assumes "read_inv_at n S oack k c" and "c_pkt_ready c" and "0 < k"
  shows "read_inv_at n S oack k (fst (write_data a c))"
  by (cases a rule: send_cases)
    (use assms in \<open>simp_all add: write_data_def udp_send_def Let_def read_inv_defs internal_error_def arm_def\<close>)

lemma write_data_output: "d \<in> set (snd (write_data a c)) \<Longrightarrow> d = serialise_data_packet (c_data_pkt c)"
  by (auto simp: write_data_def udp_send_def Let_def split: if_splits)

lemma read_inv_at_write_oack:
  assumes "read_inv_at n S oack k c" and "c_state c = SEND_OACK"
  shows "read_inv_at n S oack k (fst (write_oack a c))"
    and "d \<in> set (snd (write_oack a c)) \<Longrightarrow> d = serialise_oack_packet oack"
  using assms
  by (cases a rule: send_cases; simp add: write_oack_def udp_send_def Let_def read_inv_defs)+

lemma read_inv_at_write_error:
  assumes "read_inv_at n S oack k c"
  shows "read_inv_at n S oack k (fst (write_error a c))"
    and "d \<in> set (snd (write_error a c)) \<Longrightarrow> \<exists>e. d = serialise_error_packet e"
  using assms
  by (cases a rule: send_cases; auto simp: write_error_def udp_send_def Let_def read_inv_defs)+

lemma read_inv_at_handle_write:
  assumes k: "read_inv_at n S oack k c" and "handle_write a c = Ret (c', os)"
  shows "read_inv_at n S oack k c'"
    and "os = [] \<or> (c_state c \<noteq> STATE_ERROR \<and> c_state c' \<noteq> STATE_ERROR \<and> k = 0 \<and> os = [serialise_oack_packet oack]) \<or>
      (c_state c \<noteq> STATE_ERROR \<and> c_state c' \<noteq> STATE_ERROR \<and> 1 \<le> k \<and> (k - 1) * n \<le> length S \<and>
         os = [serialise_data_packet (nth_data_packet n S k)]) \<or>
      (c_state c = STATE_ERROR \<and> (\<exists>e. os = [serialise_error_packet e]))"
    and "c_state c = STATE_ERROR \<Longrightarrow> c_state c' = STATE_ERROR"
proof -
  have "read_inv_at n S oack k c' \<and>
    (os = [] \<or> (c_state c \<noteq> STATE_ERROR \<and> c_state c' \<noteq> STATE_ERROR \<and> k = 0 \<and> os = [serialise_oack_packet oack]) \<or>
      (c_state c \<noteq> STATE_ERROR \<and> c_state c' \<noteq> STATE_ERROR \<and> 1 \<le> k \<and> (k - 1) * n \<le> length S \<and>
         os = [serialise_data_packet (nth_data_packet n S k)]) \<or>
      (c_state c = STATE_ERROR \<and> (\<exists>e. os = [serialise_error_packet e]))) \<and>
    (c_state c = STATE_ERROR \<longrightarrow> c_state c' = STATE_ERROR)"
    using assms(2)
  proof (cases rule: handle_write_cases)
    case (data c1)
    from read_inv_at_prepare [OF k data(1)] data(2)
    have c1: "read_inv_at n S oack k c1" "c_pkt_ready c1" "0 < k" "c_state c1 = SEND_DATA" by auto
    from c1 have pkt: "c_data_pkt c1 = nth_data_packet n S k" "(k - 1) * n \<le> length S"
      by (simp_all add: read_inv_at_def)
    have "read_inv_at n S oack k c'"
      using read_inv_at_write_data [OF c1(1-3), of a] data(3) by simp
    with data(1,3) c1(3,4) pkt show ?thesis
      by (auto simp: write_defs arm_def send_failed_def split: if_splits)
  next
    case no_data
    with read_inv_at_prepare [OF k no_data(1)] show ?thesis by auto
  next
    case ack
    with k show ?thesis by (simp add: read_inv_at_def)
  next
    case oack
    from read_inv_at_write_oack(1) [OF k oack(1), of a] oack(2) have "read_inv_at n S oack k c'" by simp
    moreover have "k = 0" "c_oack_packet c = oack" using k oack(1) by (simp_all add: read_inv_at_def)
    ultimately show ?thesis
      using oack by (auto simp: write_defs send_failed_def split: if_splits)
  next
    case error
    from read_inv_at_write_error(1) [OF k, of a] error(2) have "read_inv_at n S oack k c'" by simp
    with error show ?thesis by (auto simp: write_defs split: if_splits)
  qed
  then show "read_inv_at n S oack k c'"
    and "os = [] \<or> (c_state c \<noteq> STATE_ERROR \<and> c_state c' \<noteq> STATE_ERROR \<and> k = 0 \<and> os = [serialise_oack_packet oack]) \<or>
      (c_state c \<noteq> STATE_ERROR \<and> c_state c' \<noteq> STATE_ERROR \<and> 1 \<le> k \<and> (k - 1) * n \<le> length S \<and>
         os = [serialise_data_packet (nth_data_packet n S k)]) \<or>
      (c_state c = STATE_ERROR \<and> (\<exists>e. os = [serialise_error_packet e]))"
    and "c_state c = STATE_ERROR \<Longrightarrow> c_state c' = STATE_ERROR" by blast+
qed

lemma read_inv_handle_write:
  assumes "read_inv n S oack c" and "handle_write a c = Ret (c', os)"
  shows "read_inv n S oack c' \<and> (\<forall>d \<in> set os. read_output n S oack d)"
proof -
  from assms(1) obtain k where k: "read_inv_at n S oack k c" by (auto simp: read_inv_def)
  from read_inv_at_handle_write(1,2) [OF k assms(2)] show ?thesis
    unfolding read_inv_def read_output_def by auto
qed

lemma read_inv_elapse:
  "read_inv n S oack c \<Longrightarrow> read_inv n S oack (c\<lparr>c_timer := elapse s (c_timer c)\<rparr>)"
  by (auto simp: read_inv_def read_inv_defs elapse_def split: option.splits)

lemma read_inv_hangup: "read_inv n S oack c \<Longrightarrow> read_inv n S oack (c_set_finished b c)"
  by (auto simp: read_inv_def read_inv_defs c_set_finished_def)

lemma read_inv_step:
  assumes "read_inv n S oack c" and "session_step c e os c'"
  shows "read_inv n S oack c' \<and> (\<forall>d \<in> set os. read_output n S oack d)"
  using assms(2)
proof (cases rule: session_step.cases)
  case (step_read a)
  with read_inv_handle_read [OF assms(1)] show ?thesis by auto
next
  case (step_write a)
  with read_inv_handle_write [OF assms(1)] show ?thesis by blast
next
  case (step_elapse s)
  with read_inv_elapse [OF assms(1)] show ?thesis by simp
next
  case step_hangup
  with read_inv_hangup [OF assms(1)] show ?thesis by simp
qed

interpretation read_session: output_invariant session_step "read_inv n S oack" "read_output n S oack"
  for n S oack
  by unfold_locales (use read_inv_step in blast)

end
