(* ===== verification/Construction.thy ===== *)
theory Construction
  imports Read_Session
begin

text \<open>
  What the constructor establishes: the access check that guards it, the options it can have
  negotiated, and the state its result starts in.
\<close>

subsection \<open>Option processing touches three fields only\<close>

definition negotiated :: "conn \<Rightarrow> conn \<Rightarrow> bool" where
  "negotiated c c' \<longleftrightarrow>
     (\<exists>b t p. c' = c\<lparr>c_block_size := b, c_timeout_s := t, c_oack_packet := p\<rparr>)"

lemma negotiatedI:
  "c' = c\<lparr>c_block_size := c_block_size c', c_timeout_s := c_timeout_s c',
     c_oack_packet := c_oack_packet c'\<rparr> \<Longrightarrow> negotiated c c'"
  unfolding negotiated_def by blast

lemma negotiated_refl [simp]: "negotiated c c"
  by (rule negotiatedI) simp

lemma negotiated_trans: "negotiated a b \<Longrightarrow> negotiated b c \<Longrightarrow> negotiated a c"
  unfolding negotiated_def by (elim exE) (simp, blast)

lemma negotiated_blksize: "negotiated c (process_blksize sys opt c)"
  by (rule negotiatedI)
    (simp add: process_blksize_def push_oack_def Let_def split: outcome.splits)

lemma negotiated_timeout: "negotiated c (process_timeout opt c)"
  by (rule negotiatedI)
    (simp add: process_timeout_def push_oack_def Let_def split: outcome.splits)

lemma negotiated_option: "negotiated c (process_option sys req opt c)"
proof -
  have "negotiated c (push_oack o' c)" for o'
    by (rule negotiatedI) (simp add: push_oack_def)
  then show ?thesis
    by (simp add: process_option_def negotiated_blksize negotiated_timeout split: packet_t.split)
qed

lemma negotiated_options: "negotiated c (process_options sys req c)"
proof -
  have "negotiated c (fold (process_option sys req) opts c)" for opts
    by (induction opts arbitrary: c) (auto intro: negotiated_trans negotiated_option)
  then show ?thesis by (simp add: process_options_def)
qed

subsection \<open>Options the server can acknowledge\<close>

text \<open>A negotiated timeout is a whole number of seconds between 1 and 255.\<close>

definition timeout_ok :: "conn \<Rightarrow> bool" where
  "timeout_ok c \<longleftrightarrow> 1 \<le> c_timeout_s c"

lemma timeout_ok_option: "timeout_ok c \<Longrightarrow> timeout_ok (process_option sys req opt c)"
proof -
  assume ok: "timeout_ok c"
  have push: "timeout_ok (push_oack o' c') = timeout_ok c'" for o' c'
    by (simp add: timeout_ok_def push_oack_def)
  have "timeout_ok (process_blksize sys opt c)"
    using ok by (simp add: process_blksize_def Let_def push split: outcome.splits)
      (simp add: timeout_ok_def)
  moreover have "timeout_ok (process_timeout opt c)"
  proof (cases "stoul (snd opt)")
    case (Ret v)
    have "1 \<le> (ucast v :: byte)" if "\<not> v < 1" "\<not> 255 < v"
    proof -
      from that have "1 \<le> unat v" "unat v \<le> 255"
        by (simp_all add: word_less_nat_alt)
      then have "unat (ucast v :: byte) = unat v"
        by (simp add: unsigned_ucast_eq take_bit_nat_eq_self)
      with \<open>1 \<le> unat v\<close> show ?thesis by (simp add: word_le_nat_alt)
    qed
    with Ret ok show ?thesis
      by (simp add: process_timeout_def Let_def push) (simp add: timeout_ok_def)
  qed (simp_all add: process_timeout_def ok)
  ultimately show ?thesis
    using ok by (simp add: process_option_def push split: packet_t.splits)
qed

lemma timeout_ok_options: "timeout_ok c \<Longrightarrow> timeout_ok (process_options sys req c)"
proof -
  have "timeout_ok c \<Longrightarrow> timeout_ok (fold (process_option sys req) opts c)" for opts
    by (induction opts arbitrary: c) (simp_all add: timeout_ok_option)
  then show "timeout_ok c \<Longrightarrow> timeout_ok (process_options sys req c)"
    by (simp add: process_options_def)
qed

text \<open>The OACK names only options of the request, in their order.\<close>

lemma oack_option:
  "\<exists>os. oack_options (c_oack_packet (process_option sys req opt c)) =
     oack_options (c_oack_packet c) @ os \<and> subseq (map fst os) [fst opt]"
proof -
  have "subseq (map fst [(fst opt, v)]) [fst opt]" for v :: bytes by simp
  then show ?thesis
    by (fastforce simp: process_option_def process_blksize_def process_timeout_def push_oack_def Let_def
        split: outcome.splits packet_t.splits)
qed

lemma oack_fold:
  "\<exists>os. oack_options (c_oack_packet (fold (process_option sys req) opts c)) =
     oack_options (c_oack_packet c) @ os \<and> subseq (map fst os) (map fst opts)"
proof (induction opts arbitrary: c)
  case (Cons opt opts)
  from oack_option [of sys req opt c] obtain os1 where os1:
    "oack_options (c_oack_packet (process_option sys req opt c)) = oack_options (c_oack_packet c) @ os1"
    "subseq (map fst os1) [fst opt]" by blast
  from Cons [of "process_option sys req opt c"] obtain os2 where os2:
    "oack_options (c_oack_packet (fold (process_option sys req) opts (process_option sys req opt c))) =
      oack_options (c_oack_packet (process_option sys req opt c)) @ os2"
    "subseq (map fst os2) (map fst opts)" by blast
  have "subseq (map fst (os1 @ os2)) ([fst opt] @ map fst opts)"
    using list_emb_append_mono [OF os1(2) os2(2)] by simp
  with os1 os2 show ?case by (intro exI [of _ "os1 @ os2"]) simp
qed simp

subsection \<open>A successful construction\<close>

lemma new_connection_Ret:
  assumes "new_connection sys req client = Ret c"
  obtains udp tm e where "is_operation_allowed sys (rw_filename req) (rw_type req) = Ret e"
    and "tm_left tm = None" "tm_expirations tm = 0"
    and "case e of
        Some err \<Rightarrow> c = (initial_connection udp tm (rw_type req) client)
          \<lparr>c_error_pkt := err, c_state := STATE_ERROR\<rparr>
      | None \<Rightarrow> c = start_request sys req (process_options sys req
          ((initial_connection udp tm (rw_type req) client)
             \<lparr>c_data_pkt := \<lparr>pkt_data = replicate 512 0, data_block_number = 0\<rparr>\<rparr>))"
proof -
  from assms obtain tm udp e where
    tm: "timer_new (sys_timerfd sys) = Ret tm"
    and e: "is_operation_allowed sys (rw_filename req) (rw_type req) = Ret e"
    and c: "(let c = initial_connection udp tm (rw_type req) client
       in case e of
            Some e \<Rightarrow> Ret (c\<lparr>c_error_pkt := e, c_state := STATE_ERROR\<rparr>)
          | None \<Rightarrow>
              let c = c\<lparr>c_data_pkt := (c_data_pkt c)\<lparr>pkt_data := replicate (block_len c) 0\<rparr>\<rparr>
              in Ret (start_request sys req (process_options sys req c))) = Ret c"
    unfolding new_connection_def outcome_simps by blast
  from tm have "tm_left tm = None" "tm_expirations tm = 0"
    by (auto simp: timer_new_def split: sum.splits)
  then show thesis
    by (rule that [OF e, of tm udp])
      (use c in \<open>cases e; simp add: initial_connection_def new_data_packet_def\<close>)
qed

text \<open>The connection after a granted request, before the file is opened.\<close>

lemma new_connection_allowed:
  assumes "new_connection sys req client = Ret c"
    and "is_operation_allowed sys (rw_filename req) (rw_type req) = Ret None"
  obtains c0 where "c = start_request sys req c0"
    and "c_type c0 = rw_type req" "c_file_reader c0 = new_read_file"
      "c_file_writer c0 = new_write_file" "\<not> c_finished c0" "\<not> c_final_ack c0" "\<not> c_pkt_ready c0"
      "c_timeout_count c0 = 0" "c_state c0 = STATE_ERROR" "timer_unarmed c0" "timeout_ok c0"
      "c_client c0 = client" "c_error_pkt c0 = new_error_packet"
    and "rw_options req = [] \<Longrightarrow> c_block_size c0 = 512 \<and> oack_options (c_oack_packet c0) = []"
    and "subseq (map fst (oack_options (c_oack_packet c0))) (map fst (rw_options req))"
  using assms(1)
proof (rule new_connection_Ret)
  fix udp tm e
  define c1 where "c1 = (initial_connection udp tm (rw_type req) client)
    \<lparr>c_data_pkt := \<lparr>pkt_data = replicate 512 0, data_block_number = 0\<rparr>\<rparr>"
  define c0 where "c0 = process_options sys req c1"
  assume e: "is_operation_allowed sys (rw_filename req) (rw_type req) = Ret e"
    and tm: "tm_left tm = None" "tm_expirations tm = 0"
    and c: "case e of
        Some err \<Rightarrow> c = (initial_connection udp tm (rw_type req) client)
          \<lparr>c_error_pkt := err, c_state := STATE_ERROR\<rparr>
      | None \<Rightarrow> c = start_request sys req (process_options sys req
          ((initial_connection udp tm (rw_type req) client)
             \<lparr>c_data_pkt := \<lparr>pkt_data = replicate 512 0, data_block_number = 0\<rparr>\<rparr>))"
  from e assms(2) c have start: "c = start_request sys req c0" by (simp add: c0_def c1_def)
  have "timeout_ok c1" by (simp add: timeout_ok_def initial_connection_def c1_def)
  then have ok: "timeout_ok c0" unfolding c0_def by (rule timeout_ok_options)
  have sub: "subseq (map fst (oack_options (c_oack_packet c0))) (map fst (rw_options req))"
    using oack_fold [of sys req "rw_options req" c1]
    by (auto simp: process_options_def initial_connection_def c0_def c1_def)
  have noopt: "c0 = c1" if "rw_options req = []"
    using that by (simp add: process_options_def c0_def)
  from negotiated_options [of c1 sys req] obtain b t p where
    neg: "c0 = c1\<lparr>c_block_size := b, c_timeout_s := t, c_oack_packet := p\<rparr>"
    by (auto simp: negotiated_def c0_def)
  have "c_block_size c0 = 512 \<and> oack_options (c_oack_packet c0) = []" if "rw_options req = []"
    using noopt [OF that] by (simp add: c1_def initial_connection_def)
  then show thesis
    by (rule that [OF start, rotated -2])
      (use ok sub tm in \<open>simp_all add: neg c1_def initial_connection_def timer_unarmed_def\<close>)
qed

text \<open>Every constructed connection satisfies the session invariant.\<close>

lemma session_inv_start:
  assumes "c_type c0 = rw_type req" "c_file_reader c0 = new_read_file" "c_timeout_count c0 = 0"
    "c_state c0 = STATE_ERROR"
  shows "session_inv (start_request sys req c0)"
  using assms
  by (auto simp: start_request_def start_read_def start_write_def open_failure_def session_inv_def
      direction_ok_def rf_open_def wf_open_def new_read_file_def Let_def MAX_TIMEOUTS_def
      split: packet_t.splits outcome.splits sum.splits prod.splits)

lemma session_inv_new:
  assumes "new_connection sys req client = Ret c"
  shows "session_inv c"
  using assms
proof (rule new_connection_Ret)
  fix udp tm e
  assume e: "is_operation_allowed sys (rw_filename req) (rw_type req) = Ret e"
    and c: "case e of
        Some err \<Rightarrow> c = (initial_connection udp tm (rw_type req) client)
          \<lparr>c_error_pkt := err, c_state := STATE_ERROR\<rparr>
      | None \<Rightarrow> c = start_request sys req (process_options sys req
          ((initial_connection udp tm (rw_type req) client)
             \<lparr>c_data_pkt := \<lparr>pkt_data = replicate 512 0, data_block_number = 0\<rparr>\<rparr>))"
  show ?thesis
  proof (cases e)
    case (Some err)
    with c show ?thesis
      by (simp add: session_inv_def direction_ok_def initial_connection_def new_read_file_def
          MAX_TIMEOUTS_def)
  next
    case None
    with e have "is_operation_allowed sys (rw_filename req) (rw_type req) = Ret None" by simp
    from new_connection_allowed [OF assms this] obtain c0 where "c = start_request sys req c0"
      "c_type c0 = rw_type req" "c_file_reader c0 = new_read_file" "c_timeout_count c0 = 0"
      "c_state c0 = STATE_ERROR" by metis
    then show ?thesis using session_inv_start by simp
  qed
qed

subsection \<open>What the access check grants\<close>

lemma is_operation_allowed_iff:
  "is_operation_allowed sys f t = Ret None \<longleftrightarrow>
     (\<exists>p. sys_weakly_canonical sys (path_append (sys_cwd sys) f) = Some p \<and>
        prefix (path_elems (sys_cwd sys)) (path_elems p) \<and>
        (case t of WRITE \<Rightarrow> sys_exists sys p = Some False
         | READ \<Rightarrow> sys_exists sys p = Some True
         | _ \<Rightarrow> True))"
proof (cases "sys_weakly_canonical sys (path_append (sys_cwd sys) f)")
  case None
  then show ?thesis by (simp add: is_operation_allowed_def filesystem_def)
next
  case (Some p)
  show ?thesis
    by (cases t; cases "sys_exists sys p")
      (auto simp: is_operation_allowed_def filesystem_def Some is_subpath_prefix)
qed

lemma outside_root_denied:
  assumes "sys_weakly_canonical sys (path_append (sys_cwd sys) f) = Some p"
    and "\<not> prefix (path_elems (sys_cwd sys)) (path_elems p)"
  shows "is_operation_allowed sys f t = Ret (Some (mk_error_packet ACCESS_ERROR ''Access denied''))"
  using assms by (simp add: is_operation_allowed_def filesystem_def is_subpath_prefix)

subsection \<open>Requests that are refused or cannot be served\<close>

lemma new_connection_refused:
  assumes "new_connection sys req client = Ret c"
    and "is_operation_allowed sys (rw_filename req) (rw_type req) = Ret (Some err)"
  shows "c_state c = STATE_ERROR" and "c_error_pkt c = err" and "\<not> c_finished c"
    and "rf_fd (c_file_reader c) = None" and "wf_fd (c_file_writer c) = None"
    and "c_client c = client"
proof -
  from assms(1) obtain udp tm where "c = (initial_connection udp tm (rw_type req) client)
      \<lparr>c_error_pkt := err, c_state := STATE_ERROR\<rparr>"
    using assms(2) by (elim new_connection_Ret) auto
  then show "c_state c = STATE_ERROR" and "c_error_pkt c = err" and "\<not> c_finished c"
    and "rf_fd (c_file_reader c) = None" and "wf_fd (c_file_writer c) = None"
    and "c_client c = client"
    by (simp_all add: initial_connection_def new_read_file_def new_write_file_def)
qed

lemma write_error_sent:
  "c_state c = STATE_ERROR \<Longrightarrow> 0 < fst a \<Longrightarrow>
   handle_write a c = Ret (c\<lparr>c_finished := True\<rparr>, [serialise_error_packet (c_error_pkt c)])"
  by (simp add: handle_write_def write_error_def udp_send_def)

text \<open>A \<open>READ\<close> whose file exists but cannot be opened goes on to read from the null stream.\<close>

lemma read_open_failure:
  assumes "new_connection sys req client = Ret c" and "rw_type req = READ"
    and "is_operation_allowed sys (rw_filename req) READ = Ret None"
    and "sys_fopen_r sys (c_str (rw_filename req)) = Inl e" and "rw_options req = []"
  shows "c_state c = SEND_DATA" and "handle_write a c = Undefined"
proof -
  from assms(2,3) have allowed: "is_operation_allowed sys (rw_filename req) (rw_type req) = Ret None"
    by simp
  obtain c0 where c0: "c = start_request sys req c0" "c_file_reader c0 = new_read_file" "\<not> c_pkt_ready c0"
    "rw_options req = [] \<Longrightarrow> c_block_size c0 = 512 \<and> oack_options (c_oack_packet c0) = []"
    using new_connection_allowed [OF assms(1) allowed] by metis
  have c: "c_state c = SEND_DATA" "rf_fd (c_file_reader c) = None" "\<not> c_pkt_ready c"
    using c0 assms(2,4,5)
    by (simp_all add: start_request_def start_read_def rf_open_def open_failure_def new_read_file_def)
  then show "c_state c = SEND_DATA" and "handle_write a c = Undefined"
    by (simp_all add: handle_write_def prepare_data_def read_in_to_def)
qed

subsection \<open>The block size negotiated\<close>

text \<open>
  The value is taken modulo \<open>2^32\<close>; it is lowered to the MTU when it is larger, unless it is so
  large that it is negative as an \<open>int\<close>.
\<close>

lemma sint_u32: "sint (x :: u32) = (if uint x < 2 ^ 31 then uint x else uint x - 2 ^ 32)"
proof -
  have range: "0 \<le> uint x" "uint x < 2 ^ 32" using uint_lt2p [of x] by simp_all
  have take: "take_bit 32 (uint x) = uint x" using range by (simp add: take_bit_int_eq_self)
  have "bit (uint x) 31 \<longleftrightarrow> \<not> uint x < 2 ^ 31"
  proof (cases "uint x < 2 ^ 31")
    case True
    then show ?thesis using range(1) by (simp add: bit_iff_odd)
  next
    case False
    then have "uint x div 2 ^ 31 = 1" using range(2)
      by (intro int_div_pos_eq [where r = "uint x - 2 ^ 31"]) simp_all
    with False show ?thesis by (simp add: bit_iff_odd)
  qed
  then show ?thesis
    by (simp add: sint_uint signed_take_bit_eq_take_bit_minus take)
qed

lemma process_blksize_block_len:
  fixes sys :: system
  assumes "stoul (snd opt) = Ret v"
  defines "M \<equiv> get_mtu (fst (sys_mtu sys)) (snd (sys_mtu sys))" and "w \<equiv> unat v mod 2 ^ 32"
  shows "block_len (process_blksize sys opt c) =
    (if 0 \<le> M \<and> M < int w \<and> w < 2 ^ 31 then nat M else w)"
proof -
  let ?val = "ucast v :: u32"
  have val: "unat ?val = w" by (simp add: w_def unsigned_ucast_eq take_bit_eq_mod)
  have w: "w < 2 ^ 32" by (simp add: w_def)
  have val_back: "ucast (ucast ?val :: u64) = ?val" by (simp add: ucast_up_ucast_id is_up)
  have len: "unat (ucast ?val :: u64) = w"
    using w by (simp add: unsigned_ucast_eq unsigned_take_bit_eq) (simp add: w_def take_bit_eq_mod)
  have sint: "sint ?val = (if w < 2 ^ 31 then int w else int w - 2 ^ 32)"
    by (simp add: sint_u32 uint_nat val)
  show ?thesis
  proof (cases "0 \<le> M \<and> M < int w \<and> w < 2 ^ 31")
    case True
    then have "unat (of_int M :: u64) = nat M" using w by (simp add: unsigned_of_int take_bit_int_eq_self)
    with True show ?thesis
      using assms(1) sint by (simp add: process_blksize_def Let_def val_back M_def [symmetric] push_oack_def)
  next
    case False
    then have "M < 0 \<or> \<not> M < sint ?val" using w sint by (auto split: if_splits)
    with False show ?thesis
      using assms(1) len by (auto simp: process_blksize_def Let_def val_back M_def [symmetric] push_oack_def)
  qed
qed
lemma start_request_frame [simp]:
  "c_block_size (start_request sys req c) = c_block_size c"
  "c_timeout_s (start_request sys req c) = c_timeout_s c"
  "c_oack_packet (start_request sys req c) = c_oack_packet c"
  by (simp_all add: start_request_def start_read_def start_write_def open_failure_def case_prod_beta' Let_def
      split: packet_t.splits outcome.splits)

lemma new_connection_block_size:
  assumes "new_connection sys req client = Ret c"
    and "is_operation_allowed sys (rw_filename req) (rw_type req) = Ret None"
  shows "\<exists>c1. c_block_size c1 = 512 \<and> block_len c = block_len (process_options sys req c1) \<and>
    c_oack_packet c = c_oack_packet (process_options sys req c1)"
  using assms(1)
proof (rule new_connection_Ret)
  fix udp tm e
  define c1 where "c1 = (initial_connection udp tm (rw_type req) client)
    \<lparr>c_data_pkt := \<lparr>pkt_data = replicate 512 0, data_block_number = 0\<rparr>\<rparr>"
  assume "is_operation_allowed sys (rw_filename req) (rw_type req) = Ret e"
    and "case e of
        Some err \<Rightarrow> c = (initial_connection udp tm (rw_type req) client)
          \<lparr>c_error_pkt := err, c_state := STATE_ERROR\<rparr>
      | None \<Rightarrow> c = start_request sys req (process_options sys req
          ((initial_connection udp tm (rw_type req) client)
             \<lparr>c_data_pkt := \<lparr>pkt_data = replicate 512 0, data_block_number = 0\<rparr>\<rparr>))"
  with assms(2) have "c = start_request sys req (process_options sys req c1)"
    by (simp add: c1_def)
  then show ?thesis
    by (intro exI [of _ c1]) (simp add: c1_def initial_connection_def)
qed

text \<open>The block size of a session whose only option is a number for \<open>BLKSIZE\<close>.\<close>

lemma new_connection_blksize:
  assumes "new_connection sys req client = Ret c"
    and "is_operation_allowed sys (rw_filename req) (rw_type req) = Ret None"
    and "rw_options req = [opt]" and "c_str (fst opt) = BLKSIZE_OPT" and "stoul (snd opt) = Ret v"
  shows "block_len c =
    (let M = get_mtu (fst (sys_mtu sys)) (snd (sys_mtu sys)); w = unat v mod 2 ^ 32 in
     if 0 \<le> M \<and> M < int w \<and> w < 2 ^ 31 then nat M else w)"
    and "oack_options (c_oack_packet c) \<noteq> []"
proof -
  from new_connection_block_size [OF assms(1,2)] obtain c1 where
    "block_len c = block_len (process_options sys req c1)"
    "c_oack_packet c = c_oack_packet (process_options sys req c1)" by blast
  moreover have "process_options sys req c1 = process_blksize sys opt c1"
    using assms(3,4) by (simp add: process_options_def process_option_def)
  moreover have "oack_options (c_oack_packet (process_blksize sys opt c1)) \<noteq> []"
    using assms(5) by (simp add: process_blksize_def push_oack_def Let_def)
  ultimately show "block_len c =
    (let M = get_mtu (fst (sys_mtu sys)) (snd (sys_mtu sys)); w = unat v mod 2 ^ 32 in
     if 0 \<le> M \<and> M < int w \<and> w < 2 ^ 31 then nat M else w)"
    and "oack_options (c_oack_packet c) \<noteq> []"
    using process_blksize_block_len [OF assms(5), of sys c1] by (simp_all add: Let_def)
qed

subsection \<open>What is acknowledged\<close>

lemma new_connection_acknowledges:
  assumes "new_connection sys req client = Ret c"
  shows "subseq (map fst (oack_options (c_oack_packet c))) (map fst (rw_options req)) \<and> timeout_ok c"
proof -
  from assms obtain udp tm e where
    e: "is_operation_allowed sys (rw_filename req) (rw_type req) = Ret e"
    and c: "case e of
        Some err \<Rightarrow> c = (initial_connection udp tm (rw_type req) client)
          \<lparr>c_error_pkt := err, c_state := STATE_ERROR\<rparr>
      | None \<Rightarrow> c = start_request sys req (process_options sys req
          ((initial_connection udp tm (rw_type req) client)
             \<lparr>c_data_pkt := \<lparr>pkt_data = replicate 512 0, data_block_number = 0\<rparr>\<rparr>))"
    by (rule new_connection_Ret)
  show ?thesis
  proof (cases e)
    case None
    with e have "is_operation_allowed sys (rw_filename req) (rw_type req) = Ret None" by simp
    from new_connection_allowed [OF assms this] obtain c0 where "c = start_request sys req c0"
      "timeout_ok c0" "subseq (map fst (oack_options (c_oack_packet c0))) (map fst (rw_options req))"
      by metis
    then show ?thesis by (simp add: timeout_ok_def)
  next
    case (Some err)
    with c show ?thesis by (simp add: initial_connection_def timeout_ok_def)
  qed
qed

text \<open>A session that starts with an OACK.\<close>

lemma new_oack_session:
  assumes "new_connection sys req cl = Ret c" and "c_state c = SEND_OACK"
  shows "timer_unarmed c" and "\<not> c_finished c" and "c_block_number c = 0" and "c_type c = rw_type req"
proof -
  obtain e where e: "is_operation_allowed sys (rw_filename req) (rw_type req) = Ret e"
    using assms(1) by (rule new_connection_Ret)
  have "e = None"
  proof (cases e)
    case (Some err)
    from assms(1) have "c_state c = STATE_ERROR"
      by (rule new_connection_Ret) (use e Some in auto)
    with assms(2) show ?thesis by simp
  qed
  with e have allowed: "is_operation_allowed sys (rw_filename req) (rw_type req) = Ret None" by simp
  obtain c0 where c0: "c = start_request sys req c0" "c_type c0 = rw_type req" "\<not> c_finished c0" "timer_unarmed c0"
    using new_connection_allowed [OF assms(1) allowed] by metis
  have "timer_unarmed c \<and> \<not> c_finished c \<and> c_block_number c = 0 \<and> c_type c = rw_type req"
    using c0 assms(2)
    by (auto simp: start_request_def start_read_def start_write_def open_failure_def timer_unarmed_def Let_def
        split: packet_t.splits prod.splits outcome.splits if_splits)
  then show "timer_unarmed c" and "\<not> c_finished c" and "c_block_number c = 0" and "c_type c = rw_type req"
    by simp_all
qed

text \<open>A system that answers every call of the constructor.\<close>

definition system_ready :: "system \<Rightarrow> bool" where
  "system_ready sys \<longleftrightarrow> (\<exists>sd. sys_socket sys = Inr sd) \<and> sys_setsockopt sys = None \<and>
     sys_bind sys = None \<and> sys_connect sys = None \<and> sys_getfl sys = None \<and> sys_setfl sys = None \<and>
     (\<exists>fd. sys_timerfd sys = Inr fd)"

end
