(* ===== verification/Server.thy ===== *)
theory Server
  imports Handler Construction "HOL-Library.AList"
begin

text \<open>
  \<open>tftp_server\<close> (\<open>src/server/tftp_server.cpp\<close>): the epoll loop that accepts queued requests, services
  the connections and removes those finished.  A node of \<open>_client_connections\<close> keeps its address
  for life, so the list pairs every connection with an identity; the epoll instance maps the
  descriptors it holds to their interest (a descriptor is named by its owner).
\<close>

subsection \<open>epoll\<close>

text \<open>
  \<open>epoll_ctl\<close> fails here as its documentation says for the descriptors given: \<open>EEXIST\<close> when one to be added is
  registered, \<open>ENOENT\<close> when one to be changed or removed is not.  The functions of the server throw on any error;
  that the kernel lacks memory or watches (\<open>ENOMEM\<close>, \<open>ENOSPC\<close>) is not modelled, as no allocation failure is.
\<close>

datatype interest = EPOLLIN | EPOLLOUT

datatype epoll_key = Listen_fd | Conn_fd nat | Timer_fd nat

type_synonym epoll = "epoll_key \<Rightarrow> interest option"

definition epoll_ctl_add :: "epoll_key \<Rightarrow> interest \<Rightarrow> epoll \<Rightarrow> epoll outcome" where
  "epoll_ctl_add fd events ep =
     (case ep fd of
        None \<Rightarrow> Ret (ep(fd \<mapsto> events))
      | Some _ \<Rightarrow> Throw (Runtime_error ''epoll add failed''))"

definition epoll_ctl_mod :: "epoll_key \<Rightarrow> interest \<Rightarrow> epoll \<Rightarrow> epoll outcome" where
  "epoll_ctl_mod fd events ep =
     (case ep fd of
        Some _ \<Rightarrow> Ret (ep(fd \<mapsto> events))
      | None \<Rightarrow> Throw (Runtime_error ''epoll mod failed''))"

definition epoll_ctl_del :: "epoll_key \<Rightarrow> epoll \<Rightarrow> epoll outcome" where
  "epoll_ctl_del fd ep =
     (case ep fd of
        Some _ \<Rightarrow> Ret (ep(fd := None))
      | None \<Rightarrow> Throw (Runtime_error ''epoll del failed''))"

subsection \<open>State\<close>

type_synonym connections = "(nat \<times> conn) list"

record tftp_server =
  sv_max_clients :: nat
  sv_exit_requested :: bool
  sv_epoll :: epoll
  sv_conn_handler :: handler
  sv_client_connections :: connections
  sv_next :: nat \<comment> \<open>the identity of the next node\<close>

type_synonym server = tftp_server

definition new_server ::
  "bytes \<Rightarrow> u16 \<Rightarrow> nat \<Rightarrow> int + int \<Rightarrow> int option \<Rightarrow> int option \<Rightarrow> int option \<Rightarrow> int option \<Rightarrow>
   int option \<Rightarrow> int + int \<Rightarrow> server outcome" where
  "new_server local_interface port_num max_clients socket setsockopt bind getfl setfl chdir epoll_create1 =
     obind (new_handler (if local_interface = [] then bytes_of ''0.0.0.0'' else local_interface) port_num
             socket setsockopt bind getfl setfl) (\<lambda>h.
       if chdir \<noteq> None then Throw (Runtime_error ''Failed to chdir'')
       else (case epoll_create1 of
               Inl e \<Rightarrow> Throw (Runtime_error ''Failed to create epoll'')
             | Inr fd \<Rightarrow> Ret \<lparr>sv_max_clients = max_clients, sv_exit_requested = False,
                 sv_epoll = (\<lambda>_. None), sv_conn_handler = h, sv_client_connections = [], sv_next = 0\<rparr>))"

definition server_stop :: "server \<Rightarrow> server" where
  "server_stop sv = sv\<lparr>sv_exit_requested := True\<rparr>"

subsection \<open>Accepting requests\<close>

definition interest_of :: "conn \<Rightarrow> interest" where
  "interest_of c = (if wait_for_read c then EPOLLIN else EPOLLOUT)"

definition accept_request :: "(nat \<Rightarrow> system) \<Rightarrow> request_t \<Rightarrow> server \<Rightarrow> server outcome" where
  "accept_request sys new_request sv =
     (let i = sv_next sv in
      obind (new_connection (sys i) (request new_request) (client new_request)) (\<lambda>c.
      obind (epoll_ctl_add (Conn_fd i) (interest_of c) (sv_epoll sv)) (\<lambda>ep.
      obind (epoll_ctl_add (Timer_fd i) EPOLLIN ep) (\<lambda>ep.
      Ret (sv\<lparr>sv_client_connections := sv_client_connections sv @ [(i, c)], sv_next := Suc i,
             sv_epoll := ep\<rparr>)))))"

lemma accept_request_frame:
  "accept_request sys r sv = Ret sv' \<Longrightarrow> sv_conn_handler sv' = sv_conn_handler sv"
  by (auto simp: accept_request_def Let_def outcome_simps)

lemma get_request_shorter:
  "get_request h = Ret (r, h') \<Longrightarrow> length (h_request_queue h') < length (h_request_queue h)"
  by (auto simp: get_request_def split: list.splits)

text \<open>The system calls made for the connection with identity \<open>i\<close> are answered by \<open>sys i\<close>.\<close>

function accept_requests :: "(nat \<Rightarrow> system) \<Rightarrow> server \<Rightarrow> server outcome" where
  "accept_requests sys sv =
     (if requests_pending (sv_conn_handler sv) \<and>
         length (sv_client_connections sv) < sv_max_clients sv
      then obind (get_request (sv_conn_handler sv)) (\<lambda>x.
           obind (accept_request sys (fst x) (sv\<lparr>sv_conn_handler := snd x\<rparr>)) (\<lambda>sv.
           accept_requests sys sv))
      else Ret sv)"
  by pat_completeness auto
termination
  by (relation "measure (\<lambda>(sys, sv). length (h_request_queue (sv_conn_handler sv)))")
    (auto dest!: accept_request_frame get_request_shorter)

declare accept_requests.simps [simp del]

subsection \<open>Servicing events\<close>

record event_flags =
  ev_in :: bool
  ev_out :: bool
  ev_err :: bool \<comment> \<open>\<open>EPOLLERR | EPOLLHUP\<close>\<close>

definition service_connection ::
  "event_flags \<Rightarrow> recv_answer \<Rightarrow> send_answer \<Rightarrow> conn \<Rightarrow> (conn \<times> bytes list) outcome" where
  "service_connection events ra sa c =
     (if ev_in events then obind (handle_read ra c) (\<lambda>c. Ret (c, []))
      else if ev_out events then handle_write sa c
      else if ev_err events then Ret (c_set_finished True c, [])
      else Ret (c, []))"

text \<open>
  An event of one \<open>epoll_wait\<close>, with the answers of the system calls its handler makes: on the
  listening socket, or on the socket or the timer of a connection (both carry its address).
\<close>

datatype server_event =
    Request_event "recvfrom_answer list"
  | Client_event nat event_flags recv_answer send_answer

type_synonym outputs = "(sockaddr_in \<times> bytes) list"

definition service_event ::
  "(nat \<Rightarrow> system) \<Rightarrow> server_event \<Rightarrow> server \<Rightarrow> (server \<times> outputs) outcome" where
  "service_event sys e sv =
     (case e of
        Request_event answers \<Rightarrow>
          obind (handler_handle_read answers (sv_conn_handler sv)) (\<lambda>(h, rest).
          obind (accept_requests sys (sv\<lparr>sv_conn_handler := h\<rparr>)) (\<lambda>sv. Ret (sv, [])))
      | Client_event i events ra sa \<Rightarrow>
          (case map_of (sv_client_connections sv) i of
             None \<Rightarrow> Undefined
           | Some conn \<Rightarrow>
               obind (service_connection events ra sa conn) (\<lambda>(c, os).
               obind (epoll_ctl_mod (Conn_fd i) (interest_of c) (sv_epoll sv)) (\<lambda>ep.
               Ret (sv\<lparr>sv_client_connections := AList.update i c (sv_client_connections sv),
                      sv_epoll := ep\<rparr>, map (Pair (c_client conn)) os)))))"

fun service_events ::
  "(nat \<Rightarrow> system) \<Rightarrow> server_event list \<Rightarrow> server \<Rightarrow> (server \<times> outputs) outcome" where
  "service_events sys [] sv = Ret (sv, [])"
| "service_events sys (e # es) sv =
     obind (service_event sys e sv) (\<lambda>(sv, os).
     obind (service_events sys es sv) (\<lambda>(sv, os'). Ret (sv, os @ os')))"

subsection \<open>Removing finished connections\<close>

text \<open>
  \<open>erase\<close> returns the next iterator and the loop then increments it: the connection after an
  erased one is not looked at, and after the last one the end iterator is incremented.
\<close>

fun clean_up :: "connections \<Rightarrow> epoll \<Rightarrow> (connections \<times> epoll) outcome" where
  "clean_up [] ep = Ret ([], ep)"
| "clean_up ((i, c) # conns) ep =
     (if c_is_finished c then
        obind (epoll_ctl_del (Conn_fd i) ep) (\<lambda>ep.
        obind (epoll_ctl_del (Timer_fd i) ep) (\<lambda>ep.
          (case conns of
             [] \<Rightarrow> Undefined
           | next_conn # rest \<Rightarrow>
               obind (clean_up rest ep) (\<lambda>(rest, ep). Ret (next_conn # rest, ep)))))
      else obind (clean_up conns ep) (\<lambda>(conns, ep). Ret ((i, c) # conns, ep)))"

subsection \<open>The event loop\<close>

abbreviation EINTR :: int where "EINTR \<equiv> 4"

datatype wait_answer = Wait_errno int | Wait_events "server_event list"

definition elapse_all :: "nat \<Rightarrow> server \<Rightarrow> server" where
  "elapse_all s sv = sv\<lparr>sv_client_connections :=
     map (\<lambda>(i, c). (i, c\<lparr>c_timer := elapse s (c_timer c)\<rparr>)) (sv_client_connections sv)\<rparr>"

definition clean_server :: "server \<Rightarrow> server outcome" where
  "clean_server sv =
     obind (clean_up (sv_client_connections sv) (sv_epoll sv)) (\<lambda>(conns, ep).
       Ret (sv\<lparr>sv_client_connections := conns, sv_epoll := ep\<rparr>))"

text \<open>
  One entry of the input per turn of the loop: whether \<open>stop\<close> was called before the test, the
  seconds spent in \<open>epoll_wait\<close>, and its answer.  When the input ends, the loop is still running.
\<close>

fun server_loop ::
  "(nat \<Rightarrow> system) \<Rightarrow> (bool \<times> nat \<times> wait_answer) list \<Rightarrow> server \<Rightarrow> (server \<times> outputs) outcome" where
  "server_loop sys [] sv = Ret (sv, [])"
| "server_loop sys ((stop, s, w) # ws) sv =
     (let sv = (if stop then server_stop sv else sv) in
      if sv_exit_requested sv then Ret (sv, [])
      else
        (case w of
           Wait_errno e \<Rightarrow>
             if e = EINTR then server_loop sys ws (elapse_all s sv)
             else Throw (Runtime_error ''epoll error'')
         | Wait_events es \<Rightarrow>
             obind (service_events sys es (elapse_all s sv)) (\<lambda>(sv, os).
             obind (clean_server sv) (\<lambda>sv.
             obind (server_loop sys ws sv) (\<lambda>(sv, os'). Ret (sv, os @ os'))))))"

definition server_start ::
  "(nat \<Rightarrow> system) \<Rightarrow> (bool \<times> nat \<times> wait_answer) list \<Rightarrow> server \<Rightarrow> (server \<times> outputs) outcome" where
  "server_start sys ws sv =
     obind (epoll_ctl_add Listen_fd EPOLLIN (sv_epoll sv)) (\<lambda>ep.
       server_loop sys ws (sv\<lparr>sv_epoll := ep\<rparr>))"

end
