(* ===== verification/Server_Inv.thy ===== *)
theory Server_Inv
  imports Server
begin

text \<open>
  The invariant of the event loop: at most \<open>max_clients\<close> connections, each with its own identity
  and in a good session state, and an epoll instance that holds exactly their descriptors with
  the interest their states call for.
\<close>

subsection \<open>The descriptors registered\<close>

definition registrations :: "connections \<Rightarrow> epoll" where
  "registrations conns k =
     (case k of
        Listen_fd \<Rightarrow> Some EPOLLIN
      | Conn_fd i \<Rightarrow> map_option interest_of (map_of conns i)
      | Timer_fd i \<Rightarrow> map_option (\<lambda>_. EPOLLIN) (map_of conns i))"

lemma registrations_simps [simp]:
  "registrations conns Listen_fd = Some EPOLLIN"
  "registrations conns (Conn_fd i) = map_option interest_of (map_of conns i)"
  "registrations conns (Timer_fd i) = map_option (\<lambda>_. EPOLLIN) (map_of conns i)"
  by (simp_all add: registrations_def)

lemma epoll_eqI:
  assumes "ep Listen_fd = ep' Listen_fd" and "\<And>i. ep (Conn_fd i) = ep' (Conn_fd i)"
    and "\<And>i. ep (Timer_fd i) = ep' (Timer_fd i)"
  shows "ep = (ep' :: epoll)"
proof
  show "ep k = ep' k" for k using assms by (cases k) simp_all
qed

lemma registrations_add:
  assumes "i \<notin> fst ` set conns"
  shows "(registrations conns)(Conn_fd i \<mapsto> interest_of c, Timer_fd i \<mapsto> EPOLLIN) =
    registrations (conns @ [(i, c)])"
proof -
  have "map_of conns i = None" using assms by (simp add: map_of_eq_None_iff)
  then show ?thesis
    by (intro epoll_eqI) (auto simp: map_add_def split: option.splits)
qed

lemma registrations_update:
  assumes "map_of conns i = Some c"
  shows "(registrations conns)(Conn_fd i \<mapsto> interest_of c') = registrations (AList.update i c' conns)"
  using assms by (intro epoll_eqI) (simp_all add: update_conv')

lemma registrations_elapse:
  "registrations (map (\<lambda>(i, c). (i, c\<lparr>c_timer := t c\<rparr>)) conns) = registrations conns"
proof -
  have "map_of (map (\<lambda>(i, c). (i, c\<lparr>c_timer := t c\<rparr>)) conns) i =
      map_option (\<lambda>c. c\<lparr>c_timer := t c\<rparr>) (map_of conns i)" for i
    by (simp add: map_of_map)
  moreover have "interest_of (c\<lparr>c_timer := t\<rparr>) = interest_of c" for c t
    by (simp add: interest_of_def wait_for_read_def)
  ultimately show ?thesis
    by (intro epoll_eqI) (simp_all add: option.map_comp o_def)
qed

lemma registrations_delete:
  assumes "i \<notin> fst ` set conns"
  shows "(registrations ((i, c) # conns))(Conn_fd i := None, Timer_fd i := None) = registrations conns"
proof -
  have "map_of conns i = None" using assms by (simp add: map_of_eq_None_iff)
  then show ?thesis by (intro epoll_eqI) simp_all
qed

subsection \<open>The invariant\<close>

definition server_inv :: "server \<Rightarrow> bool" where
  "server_inv sv \<longleftrightarrow>
     length (sv_client_connections sv) \<le> sv_max_clients sv \<and>
     distinct (map fst (sv_client_connections sv)) \<and>
     (\<forall>i \<in> fst ` set (sv_client_connections sv). i < sv_next sv) \<and>
     sv_epoll sv = registrations (sv_client_connections sv) \<and>
     (\<forall>c \<in> snd ` set (sv_client_connections sv). session_inv c)"

lemma server_invD:
  assumes "server_inv sv"
  shows "length (sv_client_connections sv) \<le> sv_max_clients sv"
    and "distinct (map fst (sv_client_connections sv))"
    and "i \<in> fst ` set (sv_client_connections sv) \<Longrightarrow> i < sv_next sv"
    and "sv_epoll sv = registrations (sv_client_connections sv)"
    and "map_of (sv_client_connections sv) j = Some c \<Longrightarrow> session_inv c"
  using assms by (force simp: server_inv_def dest!: map_of_SomeD)+

text \<open>Under the invariant an accepted request only fails if the constructor does.\<close>

lemma accept_request_eq:
  assumes "server_inv sv"
  shows "accept_request sys r sv =
    obind (new_connection (sys (sv_next sv)) (request r) (client r)) (\<lambda>c.
      Ret (sv\<lparr>sv_client_connections := sv_client_connections sv @ [(sv_next sv, c)],
        sv_next := Suc (sv_next sv),
        sv_epoll := registrations (sv_client_connections sv @ [(sv_next sv, c)])\<rparr>))"
proof -
  have fresh: "sv_next sv \<notin> fst ` set (sv_client_connections sv)"
    using server_invD(3) [OF assms, of "sv_next sv"] by blast
  then have "map_of (sv_client_connections sv) (sv_next sv) = None"
    by (simp add: map_of_eq_None_iff)
  then show ?thesis
    by (simp add: accept_request_def Let_def epoll_ctl_add_def server_invD(4) [OF assms]
        registrations_add [OF fresh] cong: obind_cong)
qed

lemma server_inv_accept:
  assumes "server_inv sv" and "length (sv_client_connections sv) < sv_max_clients sv"
    and "accept_request sys r sv = Ret sv'"
  shows "server_inv sv'"
proof -
  from assms(3) obtain c where
    c: "new_connection (sys (sv_next sv)) (request r) (client r) = Ret c"
    and sv': "sv' = sv\<lparr>sv_client_connections := sv_client_connections sv @ [(sv_next sv, c)],
        sv_next := Suc (sv_next sv),
        sv_epoll := registrations (sv_client_connections sv @ [(sv_next sv, c)])\<rparr>"
    by (auto simp: accept_request_eq [OF assms(1)] outcome_simps)
  have "session_inv c" using c by (rule session_inv_new)
  with assms(1,2) sv' show ?thesis
    by (fastforce simp: server_inv_def)
qed

lemma server_inv_handler [simp]: "server_inv (sv\<lparr>sv_conn_handler := h\<rparr>) = server_inv sv"
  by (simp add: server_inv_def)

lemma server_inv_accepts:
  "server_inv sv \<Longrightarrow> accept_requests sys sv = Ret sv' \<Longrightarrow> server_inv sv'"
proof (induction sys sv rule: accept_requests.induct)
  case (1 sys sv)
  show ?case
  proof (cases "requests_pending (sv_conn_handler sv) \<and>
      length (sv_client_connections sv) < sv_max_clients sv")
    case True
    with 1(3) obtain r h sv1 where step: "get_request (sv_conn_handler sv) = Ret (r, h)"
      "accept_request sys r (sv\<lparr>sv_conn_handler := h\<rparr>) = Ret sv1"
      "accept_requests sys sv1 = Ret sv'"
      by (subst (asm) accept_requests.simps) (auto simp: outcome_simps)
    have "server_inv sv1"
      by (rule server_inv_accept [OF _ _ step(2)]) (use 1(2) True in simp_all)
    with 1(1) True step show ?thesis by (metis fst_conv snd_conv)
  next
    case False
    with 1(2,3) show ?thesis by (subst (asm) accept_requests.simps) simp
  qed
qed

lemma service_connection_cases:
  assumes "service_connection events ra sa c = Ret (c', os)"
  obtains (read) "ev_in events" "handle_read ra c = Ret c'" "os = []"
  | (send) "\<not> ev_in events" "ev_out events" "handle_write sa c = Ret (c', os)"
  | (close) "\<not> ev_in events" "\<not> ev_out events" "ev_err events" "c' = c_set_finished True c" "os = []"
  | (none) "\<not> ev_in events" "\<not> ev_out events" "\<not> ev_err events" "c' = c" "os = []"
proof (cases "ev_in events")
  case True
  with assms have "handle_read ra c = Ret c'" "os = []"
    by (auto simp: service_connection_def outcome_simps)
  with True show thesis by (rule read)
next
  case False
  with assms send close none show thesis
    by (cases "ev_out events"; cases "ev_err events") (simp_all add: service_connection_def)
qed

lemma session_inv_service:
  assumes "session_inv c" and "service_connection events ra sa c = Ret (c', os)"
  shows "session_inv c'"
  using assms(2)
proof (cases rule: service_connection_cases)
  case read
  with session_inv_handle_read [OF assms(1)] show ?thesis by simp
next
  case send
  with session_inv_handle_write [OF assms(1)] show ?thesis by simp
next
  case close
  with assms(1) show ?thesis by (simp add: c_set_finished_def session_inv_def direction_ok_def)
next
  case none
  with assms(1) show ?thesis by simp
qed

lemma server_inv_update:
  assumes "server_inv sv" and "map_of (sv_client_connections sv) i = Some c" and "session_inv c'"
  shows "server_inv (sv\<lparr>sv_client_connections := AList.update i c' (sv_client_connections sv),
    sv_epoll := registrations (AList.update i c' (sv_client_connections sv))\<rparr>)"
proof -
  have i: "i \<in> fst ` set (sv_client_connections sv)"
    using assms(2) by (force dest: map_of_SomeD)
  have "map fst (AList.update i c' (sv_client_connections sv)) = map fst (sv_client_connections sv)"
    using i by (simp add: update_keys)
  then have keys: "length (AList.update i c' (sv_client_connections sv)) = length (sv_client_connections sv)"
    "map fst (AList.update i c' (sv_client_connections sv)) = map fst (sv_client_connections sv)"
    "fst ` set (AList.update i c' (sv_client_connections sv)) = fst ` set (sv_client_connections sv)"
    using map_eq_imp_length_eq by (metis list.set_map)+
  have "session_inv d" if "d \<in> snd ` set (AList.update i c' (sv_client_connections sv))" for d
  proof -
    from that obtain j where "(j, d) \<in> set (AList.update i c' (sv_client_connections sv))" by force
    moreover have "distinct (map fst (AList.update i c' (sv_client_connections sv)))"
      using server_invD(2) [OF assms(1)] by (simp add: keys(2))
    ultimately have "map_of (AList.update i c' (sv_client_connections sv)) j = Some d" by simp
    then show ?thesis
      using assms(3) server_invD(5) [OF assms(1), of j d]
      by (simp add: update_conv' split: if_splits)
  qed
  with assms(1) keys show ?thesis by (simp add: server_inv_def)
qed

text \<open>Servicing a connection never fails in epoll, and touches that connection alone.\<close>

lemma service_client_eq:
  assumes "server_inv sv" and "map_of (sv_client_connections sv) i = Some c"
  shows "service_event sys (Client_event i events ra sa) sv =
    obind (service_connection events ra sa c) (\<lambda>(c', os).
      Ret (sv\<lparr>sv_client_connections := AList.update i c' (sv_client_connections sv),
             sv_epoll := registrations (AList.update i c' (sv_client_connections sv))\<rparr>,
           map (Pair (c_client c)) os))"
  using assms(2)
  by (simp add: service_event_def epoll_ctl_mod_def server_invD(4) [OF assms(1)]
      registrations_update [OF assms(2)] case_prod_beta' cong: obind_cong)

lemma service_client_cases:
  assumes "server_inv sv" and "service_event sys (Client_event i events ra sa) sv = Ret (sv', out)"
  obtains c c' os where "map_of (sv_client_connections sv) i = Some c"
    and "service_connection events ra sa c = Ret (c', os)"
    and "sv' = sv\<lparr>sv_client_connections := AList.update i c' (sv_client_connections sv),
             sv_epoll := registrations (AList.update i c' (sv_client_connections sv))\<rparr>"
    and "out = map (Pair (c_client c)) os"
proof -
  from assms(2) obtain c where c: "map_of (sv_client_connections sv) i = Some c"
    by (auto simp: service_event_def split: option.splits)
  with assms(2) that [OF c] show thesis
    by (auto simp: service_client_eq [OF assms(1) c] outcome_simps)
qed

lemma server_inv_event:
  assumes "server_inv sv" and "service_event sys e sv = Ret (sv', out)"
  shows "server_inv sv'"
proof (cases e)
  case (Request_event answers)
  with assms(2) obtain h where "accept_requests sys (sv\<lparr>sv_conn_handler := h\<rparr>) = Ret sv'"
    by (auto simp: service_event_def outcome_simps)
  with assms(1) server_inv_accepts [of "sv\<lparr>sv_conn_handler := h\<rparr>"] show ?thesis by simp
next
  case (Client_event i events ra sa)
  show ?thesis
    using assms(1) assms(2) [unfolded Client_event]
  proof (rule service_client_cases)
    fix c c' os
    assume c: "map_of (sv_client_connections sv) i = Some c"
      "service_connection events ra sa c = Ret (c', os)"
      and sv': "sv' = sv\<lparr>sv_client_connections := AList.update i c' (sv_client_connections sv),
             sv_epoll := registrations (AList.update i c' (sv_client_connections sv))\<rparr>"
    have "session_inv c'"
      using session_inv_service [OF server_invD(5) [OF assms(1) c(1)] c(2)] .
    with server_inv_update [OF assms(1) c(1)] sv' show ?thesis by simp
  qed
qed

lemma server_inv_events:
  "server_inv sv \<Longrightarrow> service_events sys es sv = Ret (sv', out) \<Longrightarrow> server_inv sv'"
proof (induction es arbitrary: sv out)
  case (Cons e es)
  from Cons.prems(2) obtain sv1 o1 o2 where "service_event sys e sv = Ret (sv1, o1)"
    "service_events sys es sv1 = Ret (sv', o2)" by (auto simp: outcome_simps)
  with Cons.IH server_inv_event [OF Cons.prems(1)] show ?case by blast
qed simp

subsection \<open>The clean-up pass\<close>

text \<open>
  What the pass does to the list, without the epoll calls; \<open>None\<close> is the increment of the end
  iterator.
\<close>

fun clean_pass :: "connections \<Rightarrow> connections option" where
  "clean_pass [] = Some []"
| "clean_pass (x # conns) =
     (if c_is_finished (snd x) then
        (case conns of
           [] \<Rightarrow> None
         | y # rest \<Rightarrow> map_option ((#) y) (clean_pass rest))
      else map_option ((#) x) (clean_pass conns))"

lemma map_of_remove_middle:
  assumes "i \<notin> fst ` set xs" and "i \<notin> fst ` set ys"
  shows "map_of (xs @ (i, c) # ys) j = (if j = i then Some c else map_of (xs @ ys) j)"
    and "map_of (xs @ ys) i = None"
proof -
  have "map_of xs i = None" "map_of ys i = None"
    using assms by (simp_all add: map_of_eq_None_iff)
  then show "map_of (xs @ (i, c) # ys) j = (if j = i then Some c else map_of (xs @ ys) j)"
    and "map_of (xs @ ys) i = None"
    by (simp_all add: map_add_def split: option.splits)
qed

lemma epoll_del_registered:
  assumes "i \<notin> fst ` set xs" and "i \<notin> fst ` set ys"
  shows "obind (epoll_ctl_del (Conn_fd i) (registrations (xs @ (i, c) # ys))) (\<lambda>ep.
    obind (epoll_ctl_del (Timer_fd i) ep) f) = f (registrations (xs @ ys))"
proof -
  note middle = map_of_remove_middle [OF assms]
  have "(registrations (xs @ (i, c) # ys))(Conn_fd i := None, Timer_fd i := None) =
      registrations (xs @ ys)"
    by (intro epoll_eqI) (simp_all add: middle del: map_of_append)
  then show ?thesis
    by (simp add: epoll_ctl_del_def middle del: map_of_append)
qed

lemma clean_up_refines:
  "distinct (map fst (pre @ conns)) \<Longrightarrow>
   clean_up conns (registrations (pre @ conns)) =
     (case clean_pass conns of
        None \<Rightarrow> Undefined
      | Some conns' \<Rightarrow> Ret (conns', registrations (pre @ conns')))"
proof (induction conns arbitrary: pre rule: clean_pass.induct)
  case (2 x conns)
  obtain i c where x: "x = (i, c)" by force
  from 2(3) x have i: "i \<notin> fst ` set pre" "i \<notin> fst ` set conns" by auto
  show ?case
  proof (cases "c_is_finished c")
    case False
    with 2(2) [of "pre @ [x]"] 2(3) x show ?thesis
      by (simp split: option.splits)
  next
    case True
    show ?thesis
    proof (cases conns)
      case Nil
      with True show ?thesis
        using epoll_del_registered [OF i] by (simp add: x)
    next
      case (Cons y rest)
      have "distinct (map fst ((pre @ [y]) @ rest))" using 2(3) Cons by auto
      with 2(1) [of y rest "pre @ [y]"] True x Cons
      have "clean_up rest (registrations (pre @ y # rest)) =
          (case clean_pass rest of None \<Rightarrow> Undefined
           | Some conns' \<Rightarrow> Ret (conns', registrations (pre @ y # conns')))"
        by (simp split: option.splits)
      with True Cons show ?thesis
        by (simp add: x epoll_del_registered [OF i(1) i(2) [unfolded Cons]] split: option.splits)
    qed
  qed
qed simp

text \<open>When defined, the pass removes finished connections only and keeps the order.\<close>

lemma clean_pass_keeps:
  "clean_pass conns = Some conns' \<Longrightarrow> subseq conns' conns \<and>
     filter (\<lambda>x. \<not> c_is_finished (snd x)) conns' = filter (\<lambda>x. \<not> c_is_finished (snd x)) conns"
proof (induction conns arbitrary: conns' rule: clean_pass.induct)
  case (2 x conns)
  show ?case
  proof (cases "c_is_finished (snd x)")
    case False
    with 2 show ?thesis by auto
  next
    case True
    with 2(3) obtain y rest rest' where rest: "conns = y # rest" "clean_pass rest = Some rest'"
      "conns' = y # rest'" by (cases conns) auto
    from 2(1) [OF True rest(1,2)] True rest show ?thesis by auto
  qed
qed simp

text \<open>
  The pass erases every other one of a run of finished neighbours, so it reaches the last connection
  to erase it, and then increments the end iterator, exactly when the list ends in an odd number of
  finished connections.
\<close>

definition trailing_finished :: "connections \<Rightarrow> nat" where
  "trailing_finished conns = length (takeWhile (\<lambda>x. c_is_finished (snd x)) (rev conns))"

lemma trailing_finished_simps [simp]:
  "trailing_finished [] = 0"
  "trailing_finished (x # conns) =
     (if (\<forall>y \<in> set conns. c_is_finished (snd y)) \<and> c_is_finished (snd x) then Suc (length conns)
      else trailing_finished conns)"
  by (auto simp: trailing_finished_def takeWhile_append takeWhile_eq_all_conv [THEN iffD2])

lemma trailing_finished_all:
  "\<forall>y \<in> set conns. c_is_finished (snd y) \<Longrightarrow> trailing_finished conns = length conns"
  by (simp add: trailing_finished_def takeWhile_eq_all_conv [THEN iffD2])

lemma clean_pass_None_iff: "clean_pass conns = None \<longleftrightarrow> odd (trailing_finished conns)"
proof (induction conns rule: clean_pass.induct)
  case (2 x conns)
  show ?case
  proof (cases "c_is_finished (snd x)")
    case False
    with 2(2) show ?thesis by simp
  next
    case fin: True
    show ?thesis
    proof (cases conns)
      case (Cons y rest)
      with 2(1) [OF fin Cons] fin have "clean_pass (x # conns) = None \<longleftrightarrow> odd (trailing_finished rest)"
        by simp
      then show ?thesis
        using fin trailing_finished_all [of rest] by (auto simp: Cons)
    qed (use fin in simp)
  qed
qed simp

lemma server_inv_clean:
  assumes "server_inv sv"
  shows "clean_server sv =
    (case clean_pass (sv_client_connections sv) of
       None \<Rightarrow> Undefined
     | Some conns \<Rightarrow> Ret (sv\<lparr>sv_client_connections := conns, sv_epoll := registrations conns\<rparr>))"
  using clean_up_refines [of "[]" "sv_client_connections sv"] server_invD(2,4) [OF assms]
  by (simp add: clean_server_def split: option.splits)

lemma server_inv_cleaned:
  assumes "server_inv sv" and "clean_server sv = Ret sv'"
  shows "server_inv sv'"
proof -
  from assms(2) obtain conns where conns: "clean_pass (sv_client_connections sv) = Some conns"
    and sv': "sv' = sv\<lparr>sv_client_connections := conns, sv_epoll := registrations conns\<rparr>"
    by (auto simp: server_inv_clean [OF assms(1)] split: option.splits)
  from clean_pass_keeps [OF conns] have sub: "subseq conns (sv_client_connections sv)" by simp
  then have "set conns \<subseteq> set (sv_client_connections sv)"
    "length conns \<le> length (sv_client_connections sv)"
    by (auto simp: list_emb_length dest: list_emb_set)
  moreover have "distinct (map fst conns)"
    using subseq_map [OF sub, of fst] server_invD(2) [OF assms(1)]
    by (metis subseq_conv_nths distinct_nthsI)
  ultimately show ?thesis
    using assms(1) sv' by (fastforce simp: server_inv_def)
qed

subsection \<open>The loop\<close>

lemma server_inv_elapse:
  assumes "server_inv sv"
  shows "server_inv (elapse_all s sv)"
proof -
  define conns where "conns = map (\<lambda>(i, c). (i, c\<lparr>c_timer := elapse s (c_timer c)\<rparr>))
    (sv_client_connections sv)"
  have "map fst conns = map fst (sv_client_connections sv)"
    by (simp add: conns_def case_prod_beta' o_def)
  then have keys: "map fst conns = map fst (sv_client_connections sv)"
    "fst ` set conns = fst ` set (sv_client_connections sv)" "length conns = length (sv_client_connections sv)"
    by (metis list.set_map, metis list.set_map, metis length_map)
  have "session_inv c \<Longrightarrow> session_inv (c\<lparr>c_timer := t\<rparr>)" for c t
    by (simp add: session_inv_def direction_ok_def)
  then have "\<forall>c \<in> snd ` set conns. session_inv c"
    using assms by (force simp: server_inv_def conns_def)
  moreover have "registrations conns = registrations (sv_client_connections sv)"
    unfolding conns_def by (rule registrations_elapse)
  moreover have "elapse_all s sv = sv\<lparr>sv_client_connections := conns\<rparr>"
    by (simp add: elapse_all_def conns_def)
  ultimately show ?thesis
    using assms keys by (simp add: server_inv_def)
qed

lemma server_inv_loop:
  "server_inv sv \<Longrightarrow> server_loop sys ws sv = Ret (sv', out) \<Longrightarrow> server_inv sv'"
proof (induction sys ws sv arbitrary: out rule: server_loop.induct)
  case (2 sys stop s w ws sv)
  let ?sv = "if stop then server_stop sv else sv"
  have inv: "server_inv ?sv" using 2(3) by (simp add: server_stop_def server_inv_def)
  show ?case
  proof (cases "sv_exit_requested ?sv")
    case True
    with 2(4) inv show ?thesis by simp
  next
    case False
    show ?thesis
    proof (cases w)
      case (Wait_errno e)
      with False 2(4) have "e = EINTR" "server_loop sys ws (elapse_all s ?sv) = Ret (sv', out)"
        by (auto simp: Let_def split: if_splits)
      with 2(1) [OF refl False Wait_errno] server_inv_elapse [OF inv] show ?thesis by blast
    next
      case (Wait_events es)
      with False 2(4) obtain sv1 o1 sv2 o2 where
        step: "service_events sys es (elapse_all s ?sv) = Ret (sv1, o1)" "clean_server sv1 = Ret sv2"
          "server_loop sys ws sv2 = Ret (sv', o2)"
        by (auto simp: Let_def outcome_simps)
      have "server_inv sv2"
        using server_inv_cleaned [OF server_inv_events [OF server_inv_elapse [OF inv] step(1)] step(2)] .
      with 2(2) [OF refl False Wait_events step(1) refl step(2)] step(3) show ?thesis by blast
    qed
  qed
qed simp

lemma server_inv_new:
  assumes "new_server addr port max_clients socket opt bind getfl setfl chdir ep = Ret sv"
  shows "server_inv (sv\<lparr>sv_epoll := [Listen_fd \<mapsto> EPOLLIN]\<rparr>)"
    and "server_start sys ws sv = server_loop sys ws (sv\<lparr>sv_epoll := [Listen_fd \<mapsto> EPOLLIN]\<rparr>)"
proof -
  have "[Listen_fd \<mapsto> EPOLLIN] = registrations []" by (intro epoll_eqI) simp_all
  with assms show "server_inv (sv\<lparr>sv_epoll := [Listen_fd \<mapsto> EPOLLIN]\<rparr>)"
    by (auto simp: new_server_def outcome_simps server_inv_def split: if_splits sum.splits)
  show "server_start sys ws sv = server_loop sys ws (sv\<lparr>sv_epoll := [Listen_fd \<mapsto> EPOLLIN]\<rparr>)"
    using assms
    by (auto simp: new_server_def outcome_simps server_start_def epoll_ctl_add_def
        split: if_splits sum.splits)
qed

end
