(* ===== verification/Timeouts.thy ===== *)
theory Timeouts
  imports Construction
begin

text \<open>
  Sessions whose client stops answering: the retransmissions of an armed wait and its end, the
  wait after an OACK, for which no timer is armed, and the retransmission on a duplicate.
\<close>

subsection \<open>A silent client\<close>

text \<open>
  One round of silence: the retransmission timeout passes, the event loop calls \<open>handle_read\<close>
  (for the timer; no datagram is there) and then, unless the session is over, \<open>handle_write\<close>.
\<close>

definition silent_round :: "send_answer \<Rightarrow> conn \<Rightarrow> (conn \<times> bytes list) outcome" where
  "silent_round a c =
     obind (handle_read (Recv_errno EAGAIN)
             (c\<lparr>c_timer := elapse (unat (c_timeout_s c)) (c_timer c)\<rparr>)) (\<lambda>c1.
       if c_finished c1 then Ret (c1, []) else handle_write a c1)"

fun silent_rounds :: "nat \<Rightarrow> send_answer \<Rightarrow> conn \<Rightarrow> (bytes list \<times> conn) outcome" where
  "silent_rounds 0 a c = Ret ([], c)"
| "silent_rounds (Suc m) a c =
     (if c_finished c then Ret ([], c)
      else obind (silent_round a c) (\<lambda>(c1, os).
           obind (silent_rounds m a c1) (\<lambda>(os', c2). Ret (os @ os', c2))))"

text \<open>
  A wait with the timer running: for an ACK of the packet held, or for the DATA after the ACK
  of a block that was not the last.
\<close>

definition armed :: "conn \<Rightarrow> bool" where
  "armed c \<longleftrightarrow> timeout_ok c \<and> tm_left (c_timer c) = Some (unat (c_timeout_s c)) \<and>
     tm_expirations (c_timer c) = 0 \<and>
     (c_state c = WAIT_FOR_ACK \<and> c_pkt_ready c \<or> c_state c = WAIT_FOR_DATA \<and> \<not> c_final_ack c)"

text \<open>The datagram a wait retransmits.\<close>

definition last_sent :: "conn \<Rightarrow> bytes" where
  "last_sent c =
     (if c_state c = WAIT_FOR_ACK then serialise_data_packet (c_data_pkt c)
      else serialise_ack_packet \<lparr>ack_block_number = c_block_number c - 1\<rparr>)"

lemma armed_fires:
  assumes "armed c"
  shows "handle_read (Recv_errno e) (c\<lparr>c_timer := elapse (unat (c_timeout_s c)) (c_timer c)\<rparr>) =
    Ret (handle_timeout (c\<lparr>c_timer := (c_timer c)\<lparr>tm_left := None\<rparr>\<rparr>))"
proof -
  have tm: "t\<lparr>tm_left := None, tm_expirations := 0\<rparr> = t\<lparr>tm_left := None\<rparr>"
    if "tm_expirations t = 0" for t :: timer
    using that by (cases t) simp
  show ?thesis
    using assms by (simp add: handle_read_eq timer_read_def elapse_def armed_def tm)
qed

lemma arm_timeout_ok: "timeout_ok c \<Longrightarrow> 0 < unat (c_timeout_s c)"
  by (simp add: timeout_ok_def word_le_nat_alt)

lemma silent_round_again:
  assumes armed: "armed c" and count: "\<not> MAX_TIMEOUTS \<le> c_timeout_count c"
    and fin: "\<not> c_finished c" and a: "0 < fst a"
  shows "\<exists>c'. silent_round a c = Ret (c', [last_sent c]) \<and> armed c' \<and>
    c_timeout_count c' = c_timeout_count c + 1 \<and> \<not> c_finished c' \<and> last_sent c' = last_sent c \<and>
    c_timeout_s c' = c_timeout_s c"
proof -
  let ?c = "c\<lparr>c_timer := (c_timer c)\<lparr>tm_left := None\<rparr>\<rparr>"
  have ok: "0 < unat (c_timeout_s c)" using armed by (simp add: armed_def arm_timeout_ok)
  have a': "\<not> send_failed a" using a by (simp add: send_failed_def)
  from armed consider (ack) "c_state c = WAIT_FOR_ACK" "c_pkt_ready c"
    | (data) "c_state c = WAIT_FOR_DATA" "\<not> c_final_ack c" by (auto simp: armed_def)
  then show ?thesis
  proof cases
    case ack
    have t: "handle_timeout ?c = ?c\<lparr>c_timeout_count := c_timeout_count c + 1, c_state := SEND_DATA\<rparr>"
      using ack count by (simp add: handle_timeout_def retransmit_def)
    show ?thesis
      using ack armed ok fin a a'
      by (simp add: silent_round_def armed_fires [OF armed] t handle_write_def prepare_data_def
          write_data_def udp_send_def arm_def arm_timer_def last_sent_def armed_def timeout_ok_def)
  next
    case data
    have t: "handle_timeout ?c = ?c\<lparr>c_timeout_count := c_timeout_count c + 1, c_state := SEND_ACK,
        c_block_number := c_block_number c - 1\<rparr>"
      using data count by (simp add: handle_timeout_def retransmit_def)
    show ?thesis
      using data armed ok fin a a'
      by (simp add: silent_round_def armed_fires [OF armed] t handle_write_def
          write_ack_def udp_send_def arm_def arm_timer_def last_sent_def armed_def timeout_ok_def)
  qed
qed

lemma silent_round_last:
  assumes "armed c" and "MAX_TIMEOUTS \<le> c_timeout_count c"
  shows "\<exists>c'. silent_round a c = Ret (c', []) \<and> c_finished c'"
  using assms(2) by (simp add: silent_round_def armed_fires [OF assms(1)] handle_timeout_def)

lemma silent_rounds_from:
  assumes "armed c" and "c_timeout_count c = of_nat j" and "j + m = 3"
    and "\<not> c_finished c" and "0 < fst a"
  shows "\<exists>c'. silent_rounds (Suc m) a c = Ret (replicate m (last_sent c), c') \<and> c_finished c'"
  using assms
proof (induction m arbitrary: j c)
  case 0
  then have "MAX_TIMEOUTS \<le> c_timeout_count c" by (simp add: MAX_TIMEOUTS_def)
  from silent_round_last [OF 0(1) this, of a] 0 show ?case by auto
next
  case (Suc m)
  then have "j = 0 \<or> j = 1 \<or> j = 2" by auto
  with Suc.prems(2) have "\<not> MAX_TIMEOUTS \<le> c_timeout_count c" by (auto simp: MAX_TIMEOUTS_def word_le_nat_alt)
  from silent_round_again [OF Suc.prems(1) this Suc.prems(4,5)] obtain c1 where c1:
    "silent_round a c = Ret (c1, [last_sent c])" "armed c1"
    "c_timeout_count c1 = c_timeout_count c + 1" "\<not> c_finished c1" "last_sent c1 = last_sent c"
    by blast
  have "c_timeout_count c1 = of_nat (Suc j)" using c1(3) Suc.prems(2) by (simp add: add.commute)
  from Suc.IH [OF c1(2) this _ c1(4) Suc.prems(5)] Suc.prems(3) obtain c' where
    "silent_rounds (Suc m) a c1 = Ret (replicate m (last_sent c), c')" "c_finished c'"
    using c1(5) by auto
  with c1(1) Suc.prems(4) show ?case by (simp del: silent_rounds.simps add: silent_rounds.simps(2) [of "Suc m"])
qed

subsection \<open>The wait after an OACK\<close>

text \<open>Delays and spurious read events, in turn.\<close>

fun idle_ticks :: "nat list \<Rightarrow> conn \<Rightarrow> conn outcome" where
  "idle_ticks [] c = Ret c"
| "idle_ticks (s # ss) c =
     obind (handle_read (Recv_errno EAGAIN) (c\<lparr>c_timer := elapse s (c_timer c)\<rparr>)) (idle_ticks ss)"

lemma unarmed_tick:
  assumes "timer_unarmed c" and "wait_for_read c"
  shows "handle_read (Recv_errno EAGAIN) (c\<lparr>c_timer := elapse s (c_timer c)\<rparr>) = Ret c"
proof -
  have "elapse s (c_timer c) = c_timer c" using assms(1) by (simp add: elapse_def timer_unarmed_def)
  moreover have "timer_read c = c" using assms(1) by (simp add: timer_read_def timer_unarmed_def)
  ultimately show ?thesis
    using assms by (auto simp: handle_read_eq wait_for_read_def timer_unarmed_def read_ack_def
        read_data_def error_reply_def)
qed

lemma unarmed_ticks: "timer_unarmed c \<Longrightarrow> wait_for_read c \<Longrightarrow> idle_ticks ss c = Ret c"
  by (induction ss) (simp_all add: unarmed_tick)

lemma write_oack_waits:
  assumes "c_state c = SEND_OACK" and "timer_unarmed c" and "0 < fst a"
  shows "\<exists>c'. handle_write a c = Ret (c', [serialise_oack_packet (c_oack_packet c)]) \<and>
    wait_for_read c' \<and> timer_unarmed c' \<and> c_finished c' = c_finished c"
  using assms
  by (simp add: handle_write_def write_oack_def udp_send_def send_failed_def wait_for_read_def
      timer_unarmed_def)

subsection \<open>Duplicates\<close>

lemma is_previous_minus_1:
  assumes "bn \<noteq> 0"
  shows "is_previous (bn - 1) bn"
proof -
  have "1 \<le> bn" using assms by unat_arith
  then show ?thesis by (simp add: is_previous_def uint_minus_simple_alt)
qed

lemma ack_of_previous:
  assumes wait: "c_state c = WAIT_FOR_ACK" "c_pkt_ready c" "tm_expirations (c_timer c) = 0"
    and "c_block_number c \<noteq> 0" and "0 < fst a"
  shows "\<exists>c1 c2. handle_read (Datagram (serialise_ack_packet \<lparr>ack_block_number = c_block_number c - 1\<rparr>)) c
      = Ret c1 \<and> handle_write a c1 = Ret (c2, [serialise_data_packet (c_data_pkt c)]) \<and>
      c_state c2 = WAIT_FOR_ACK \<and> c_data_pkt c2 = c_data_pkt c \<and> c_block_number c2 = c_block_number c"
  using assms is_previous_minus_1 [OF assms(4)]
  by (simp add: handle_read_eq read_ack_def deserialise_serialise_ack handle_write_def
        prepare_data_def write_data_def udp_send_def send_failed_def arm_def)

text \<open>At the wrap of the block number the previous number is 65535, which is not -1.\<close>

lemma ack_before_wrap:
  assumes wait: "c_state c = WAIT_FOR_ACK" "tm_expirations (c_timer c) = 0"
    and "c_block_number c = 0" and "n \<noteq> 0"
  shows "\<exists>c1. handle_read (Datagram (serialise_ack_packet \<lparr>ack_block_number = n\<rparr>)) c = Ret c1 \<and>
      c_state c1 = STATE_ERROR"
  using assms not_previous_0 [of n]
  by (simp add: handle_read_eq read_ack_def deserialise_serialise_ack)

end
