(* ===== verification/Service.thy ===== *)
theory Service
  imports Server_Inv Timeouts
begin

text \<open>
  What one batch of events does: which queued requests are accepted, which connection an event
  touches, when \<open>handle_write\<close> is called, when a pending request is looked at, and how an exception
  of one session leaves the loop.
\<close>

subsection \<open>Accepting in order\<close>

text \<open>The connections made for a list of requests, in order, from identity \<open>n\<close> on.\<close>

definition accepted ::
  "(nat \<Rightarrow> system) \<Rightarrow> nat \<Rightarrow> request_t list \<Rightarrow> connections \<Rightarrow> bool" where
  "accepted sys n rs cs \<longleftrightarrow>
     map fst cs = [n..<n + length rs] \<and>
     list_all2 (\<lambda>r (i, c). new_connection (sys i) (request r) (client r) = Ret c) rs cs"

lemma accepted_Nil [simp]: "accepted sys n [] cs \<longleftrightarrow> cs = []"
  by (auto simp: accepted_def)

lemma accepted_Cons:
  "new_connection (sys n) (request r) (client r) = Ret c \<Longrightarrow> accepted sys (Suc n) rs cs \<Longrightarrow>
   accepted sys n (r # rs) ((n, c) # cs)"
  by (simp add: accepted_def upt_conv_Cons del: upt_Suc)

text \<open>As many of the oldest requests as there is room for; the others stay queued.\<close>

lemma accept_requests_fifo:
  assumes "server_inv sv" and "accept_requests sys sv = Ret sv'"
  defines "room \<equiv> sv_max_clients sv - length (sv_client_connections sv)"
    and "queue \<equiv> h_request_queue (sv_conn_handler sv)"
  shows "h_request_queue (sv_conn_handler sv') = drop room queue \<and>
     (\<exists>cs. sv_client_connections sv' = sv_client_connections sv @ cs \<and>
       accepted sys (sv_next sv) (take room queue) cs)"
  using assms(1,2) unfolding room_def queue_def
proof (induction sys sv rule: accept_requests.induct)
  case (1 sys sv)
  show ?case
  proof (cases "requests_pending (sv_conn_handler sv) \<and>
      length (sv_client_connections sv) < sv_max_clients sv")
    case True
    then obtain r rs where queue: "h_request_queue (sv_conn_handler sv) = r # rs"
      by (cases "h_request_queue (sv_conn_handler sv)") (auto simp: request_queue.pending_iff)
    with request_queue.deq_front obtain h where h:
      "get_request (sv_conn_handler sv) = Ret (r, h)" "h_request_queue h = rs" by blast
    let ?sv = "sv\<lparr>sv_conn_handler := h\<rparr>"
    from 1(3) True h(1) obtain sv1 where sv1: "accept_request sys r ?sv = Ret sv1"
      "accept_requests sys sv1 = Ret sv'"
      by (subst (asm) accept_requests.simps) (auto simp: outcome_simps)
    have inv: "server_inv ?sv" using 1(2) by simp
    have inv1: "server_inv sv1" by (rule server_inv_accept [OF inv _ sv1(1)]) (use True in simp)
    from sv1(1) obtain c where
      c: "new_connection (sys (sv_next sv)) (request r) (client r) = Ret c"
        "sv_client_connections sv1 = sv_client_connections sv @ [(sv_next sv, c)]"
        "sv_next sv1 = Suc (sv_next sv)" "sv_max_clients sv1 = sv_max_clients sv"
        "sv_conn_handler sv1 = h"
      by (auto simp: accept_request_eq [OF inv] outcome_simps)
    obtain k where room: "sv_max_clients sv - length (sv_client_connections sv) = Suc k"
      using True by (metis Suc_diff_Suc)
    then have k: "sv_max_clients sv1 - length (sv_client_connections sv1) = k"
      using c(2,4) by simp
    from 1(1) [OF True h(1) _ inv1 sv1(2)] sv1(1)
    have "h_request_queue (sv_conn_handler sv') = drop k rs \<and>
      (\<exists>cs. sv_client_connections sv' = sv_client_connections sv1 @ cs \<and>
       accepted sys (Suc (sv_next sv)) (take k rs) cs)"
      by (simp add: k c(3,5) h(2))
    with accepted_Cons [where sys = sys and n = "sv_next sv", OF c(1)] c(2) queue room show ?thesis by auto
  next
    case False
    then have "drop (sv_max_clients sv - length (sv_client_connections sv))
        (h_request_queue (sv_conn_handler sv)) = h_request_queue (sv_conn_handler sv) \<and>
      take (sv_max_clients sv - length (sv_client_connections sv))
        (h_request_queue (sv_conn_handler sv)) = []"
      by (auto simp: request_queue.pending_iff)
    with False 1(3) show ?thesis by (subst (asm) accept_requests.simps) auto
  qed
qed

text \<open>A single request, when there is room.\<close>

lemma accept_one:
  assumes inv: "server_inv sv" and queue: "h_request_queue (sv_conn_handler sv) = r # rs"
    and room: "length (sv_client_connections sv) < sv_max_clients sv"
    and c: "new_connection (sys (sv_next sv)) (request r) (client r) = Ret c"
  shows "accept_requests sys sv = accept_requests sys
    (sv\<lparr>sv_conn_handler := (sv_conn_handler sv)\<lparr>h_request_queue := rs\<rparr>,
       sv_client_connections := sv_client_connections sv @ [(sv_next sv, c)],
       sv_next := Suc (sv_next sv),
       sv_epoll := registrations (sv_client_connections sv @ [(sv_next sv, c)])\<rparr>)"
proof -
  have "server_inv (sv\<lparr>sv_conn_handler := (sv_conn_handler sv)\<lparr>h_request_queue := rs\<rparr>\<rparr>)"
    using inv by simp
  from accept_request_eq [OF this] c show ?thesis
    using queue room by (subst accept_requests.simps) (simp add: requests_pending_def get_request_def)
qed

lemma accept_none:
  "h_request_queue (sv_conn_handler sv) = [] \<or> sv_max_clients sv \<le> length (sv_client_connections sv) \<Longrightarrow>
   accept_requests sys sv = Ret sv"
  by (subst accept_requests.simps) (auto simp: requests_pending_def)

subsection \<open>Isolation\<close>

lemma service_isolated:
  assumes "server_inv sv" and "service_event sys (Client_event i events ra sa) sv = Ret (sv', out)"
  shows "j \<noteq> i \<Longrightarrow> map_of (sv_client_connections sv') j = map_of (sv_client_connections sv) j"
    and "sv_conn_handler sv' = sv_conn_handler sv"
    and "map fst (sv_client_connections sv') = map fst (sv_client_connections sv)"
    and "\<exists>c. map_of (sv_client_connections sv) i = Some c \<and> (\<forall>(a, d) \<in> set out. a = c_client c)"
proof -
  from service_client_cases [OF assms] obtain c c' os where
    c: "map_of (sv_client_connections sv) i = Some c"
    and sv': "sv' = sv\<lparr>sv_client_connections := AList.update i c' (sv_client_connections sv),
             sv_epoll := registrations (AList.update i c' (sv_client_connections sv))\<rparr>"
    and out: "out = map (Pair (c_client c)) os" by metis
  have "i \<in> set (map fst (sv_client_connections sv))"
    using c by (force dest: map_of_SomeD)
  then show "map fst (sv_client_connections sv') = map fst (sv_client_connections sv)"
    by (simp add: sv' update_keys)
  show "j \<noteq> i \<Longrightarrow> map_of (sv_client_connections sv') j = map_of (sv_client_connections sv) j"
    and "sv_conn_handler sv' = sv_conn_handler sv"
    by (simp_all add: sv' update_conv')
  show "\<exists>c. map_of (sv_client_connections sv) i = Some c \<and> (\<forall>(a, d) \<in> set out. a = c_client c)"
    using c out by auto
qed

lemma accepts_keep:
  assumes "server_inv sv" and "accept_requests sys sv = Ret sv'"
    and "map_of (sv_client_connections sv) i = Some c"
  shows "map_of (sv_client_connections sv') i = Some c"
proof -
  from accept_requests_fifo [OF assms(1,2)] obtain cs where
    cs: "sv_client_connections sv' = sv_client_connections sv @ cs" by blast
  have "distinct (map fst (sv_client_connections sv'))"
    using server_invD(2) [OF server_inv_accepts [OF assms(1,2)]] .
  moreover have "(i, c) \<in> set (sv_client_connections sv')"
    using assms(3) cs by (auto dest: map_of_SomeD)
  ultimately show ?thesis by simp
qed

subsection \<open>\<open>handle_write\<close> is called in sending states only\<close>

lemma prepare_data_no_throw: "prepare_data c \<noteq> Throw e"
proof (cases "c_pkt_ready c")
  case False
  have "read_in_to n rf \<noteq> Throw e" for n rf
    by (auto simp: read_in_to_def Let_def split: option.splits prod.splits)
  moreover have "rf_eof rf \<noteq> Throw e" "rf_error rf \<noteq> Throw e" for rf
    by (auto simp: rf_eof_def rf_error_def split: option.splits)
  ultimately show ?thesis
    using False by (auto simp: prepare_data_def Let_def obind_Throw_iff split: if_splits)
qed (simp add: prepare_data_def)

lemma handle_write_throws_iff:
  "handle_write a c = Throw e \<longleftrightarrow> wait_for_read c \<and> e = Runtime_error ''Error state''"
  by (cases "c_state c")
    (auto simp: handle_write_def wait_for_read_def obind_Throw_iff prepare_data_no_throw split: if_splits)

text \<open>
  A batch as \<open>epoll_wait\<close> returns it: \<open>EPOLLOUT\<close> without \<open>EPOLLIN\<close> is reported once at most for a
  connection, and only for a socket registered for it.
\<close>

fun write_targets :: "server_event list \<Rightarrow> nat list" where
  "write_targets [] = []"
| "write_targets (Request_event answers # es) = write_targets es"
| "write_targets (Client_event i events ra sa # es) =
     (if ev_out events \<and> \<not> ev_in events then i # write_targets es else write_targets es)"

lemma write_targets_append [simp]: "write_targets (es @ es') = write_targets es @ write_targets es'"
  by (induction es rule: write_targets.induct) simp_all

definition batch_ok :: "server \<Rightarrow> server_event list \<Rightarrow> bool" where
  "batch_ok sv es \<longleftrightarrow> distinct (write_targets es) \<and>
     (\<forall>i \<in> set (write_targets es). sv_epoll sv (Conn_fd i) = Some EPOLLOUT)"

definition sending :: "nat \<Rightarrow> server \<Rightarrow> bool" where
  "sending i sv \<longleftrightarrow> (\<exists>c. map_of (sv_client_connections sv) i = Some c \<and> \<not> wait_for_read c)"

lemma handle_read_sending:
  assumes "handle_read a c = Ret c'" and "\<not> wait_for_read c"
  shows "\<not> wait_for_read c'"
  using assms(1)
proof (cases rule: handle_read_cases)
  case timeout
  with assms(2) show ?thesis
    by (cases "timer_read c" rule: handle_timeout_cases) (auto simp: wait_for_read_def)
qed (use assms(2) in \<open>auto simp: wait_for_read_def\<close>)

lemma service_connection_sending:
  assumes "service_connection events ra sa c = Ret (c', os)" and "\<not> wait_for_read c"
    and "\<not> (ev_out events \<and> \<not> ev_in events)"
  shows "\<not> wait_for_read c'"
proof (cases "ev_in events")
  case True
  with assms have "handle_read ra c = Ret c'" by (auto simp: service_connection_def outcome_simps)
  then show ?thesis using assms(2) by (rule handle_read_sending)
next
  case False
  with assms show ?thesis
    by (auto simp: service_connection_def c_set_finished_def wait_for_read_def split: if_splits)
qed

lemma sending_event:
  assumes inv: "server_inv sv" and i: "sending i sv" and "i \<notin> set (write_targets [e])"
    and step: "service_event sys e sv = Ret (sv', out)"
  shows "sending i sv'"
proof (cases e)
  case (Request_event answers)
  with step obtain h where "accept_requests sys (sv\<lparr>sv_conn_handler := h\<rparr>) = Ret sv'"
    by (auto simp: service_event_def outcome_simps)
  with accepts_keep [of "sv\<lparr>sv_conn_handler := h\<rparr>"] inv i show ?thesis
    by (auto simp: sending_def)
next
  case (Client_event j events ra sa)
  from i obtain c where c: "map_of (sv_client_connections sv) i = Some c" "\<not> wait_for_read c"
    by (auto simp: sending_def)
  show ?thesis
  proof (cases "j = i")
    case False
    with service_isolated(1) [OF inv step [unfolded Client_event]] c show ?thesis
      by (auto simp: sending_def)
  next
    case True
    from service_client_cases [OF inv step [unfolded Client_event]] c(1) True
    obtain c' os where c': "service_connection events ra sa c = Ret (c', os)"
      "sv_client_connections sv' = AList.update i c' (sv_client_connections sv)"
      by (metis (no_types, lifting) option.inject tftp_server.select_convs(5) tftp_server.surjective
          tftp_server.update_convs(3,5))
    have "\<not> (ev_out events \<and> \<not> ev_in events)"
      using assms(3) True Client_event by (auto split: if_splits)
    with service_connection_sending [OF c'(1) c(2)] c'(2) show ?thesis
      by (simp add: sending_def update_conv')
  qed
qed

lemma sending_events:
  "server_inv sv \<Longrightarrow> sending i sv \<Longrightarrow> i \<notin> set (write_targets es) \<Longrightarrow>
   service_events sys es sv = Ret (sv', out) \<Longrightarrow> sending i sv'"
proof (induction es arbitrary: sv out)
  case (Cons e es)
  from Cons.prems(4) obtain sv1 o1 o2 where step: "service_event sys e sv = Ret (sv1, o1)"
    "service_events sys es sv1 = Ret (sv', o2)" by (auto simp: outcome_simps)
  have "write_targets (e # es) = write_targets [e] @ write_targets es"
    using write_targets_append [of "[e]" es] by simp
  with Cons.prems(3) have "i \<notin> set (write_targets [e])" "i \<notin> set (write_targets es)" by auto
  with sending_event [OF Cons.prems(1,2) _ step(1)] server_inv_event [OF Cons.prems(1) step(1)]
    Cons.IH step(2) show ?case by blast
qed simp

lemma writes_when_due:
  assumes inv: "server_inv sv" and ok: "batch_ok sv (es @ [Client_event i events ra sa])"
    and flags: "ev_out events" "\<not> ev_in events"
    and "service_events sys es sv = Ret (sv', out)"
  shows "sending i sv'"
proof -
  have split: "write_targets (es @ [Client_event i events ra sa]) = write_targets es @ [i]"
    using flags by simp
  have "sv_epoll sv (Conn_fd i) = Some EPOLLOUT" using ok by (simp only: batch_ok_def split) simp
  then have "sending i sv"
    by (auto simp: server_invD(4) [OF inv] sending_def interest_of_def split: if_splits)
  moreover have "i \<notin> set (write_targets es)" using ok by (simp only: batch_ok_def split) simp
  ultimately show ?thesis using sending_events inv assms(5) by blast
qed

subsection \<open>Pending requests wait for a datagram\<close>

lemma service_events_queue:
  assumes "server_inv sv" and "service_events sys es sv = Ret (sv', out)"
    and "\<forall>e \<in> set es. \<exists>i events ra sa. e = Client_event i events ra sa"
  shows "sv_conn_handler sv' = sv_conn_handler sv \<and>
    map fst (sv_client_connections sv') = map fst (sv_client_connections sv)"
  using assms
proof (induction es arbitrary: sv out)
  case (Cons e es)
  from Cons.prems(2) obtain sv1 o1 o2 where step: "service_event sys e sv = Ret (sv1, o1)"
    "service_events sys es sv1 = Ret (sv', o2)" by (auto simp: outcome_simps)
  from Cons.prems(3) obtain i events ra sa where e: "e = Client_event i events ra sa" by auto
  from service_isolated(2,3) [OF Cons.prems(1) step(1) [unfolded e]]
    Cons.IH [OF server_inv_event [OF Cons.prems(1) step(1)] step(2)] Cons.prems(3)
  show ?case by simp
qed simp

text \<open>Turns of the loop without a datagram for the listening socket.\<close>

definition no_request :: "wait_answer \<Rightarrow> bool" where
  "no_request w \<longleftrightarrow> (case w of
     Wait_errno e \<Rightarrow> True
   | Wait_events es \<Rightarrow> (\<forall>e \<in> set es. \<exists>i events ra sa. e = Client_event i events ra sa))"

lemma loop_starves:
  "server_inv sv \<Longrightarrow> \<forall>(stop, s, w) \<in> set ws. no_request w \<Longrightarrow>
   server_loop sys ws sv = Ret (sv', out) \<Longrightarrow>
   sv_conn_handler sv' = sv_conn_handler sv \<and>
   subseq (map fst (sv_client_connections sv')) (map fst (sv_client_connections sv))"
proof (induction sys ws sv arbitrary: out rule: server_loop.induct)
  case (2 sys stop s w ws sv)
  let ?sv = "if stop then server_stop sv else sv"
  have inv: "server_inv ?sv" using 2(3) by (simp add: server_stop_def server_inv_def)
  have same: "sv_conn_handler (elapse_all s ?sv) = sv_conn_handler sv"
    "map fst (sv_client_connections (elapse_all s ?sv)) = map fst (sv_client_connections sv)"
    by (simp_all add: elapse_all_def server_stop_def case_prod_beta' o_def)
  show ?case
  proof (cases "sv_exit_requested ?sv")
    case True
    with 2(5) show ?thesis by (auto simp: server_stop_def)
  next
    case False
    show ?thesis
    proof (cases w)
      case (Wait_errno e)
      with False 2(5) have "e = EINTR" "server_loop sys ws (elapse_all s ?sv) = Ret (sv', out)"
        by (auto simp: Let_def split: if_splits)
      with 2(1) [OF refl False Wait_errno _ server_inv_elapse [OF inv]] 2(4) same show ?thesis by simp
    next
      case (Wait_events es)
      with False 2(5) obtain sv1 o1 sv2 o2 where
        step: "service_events sys es (elapse_all s ?sv) = Ret (sv1, o1)" "clean_server sv1 = Ret sv2"
          "server_loop sys ws sv2 = Ret (sv', o2)"
        by (auto simp: Let_def outcome_simps)
      have es: "\<forall>e \<in> set es. \<exists>i events ra sa. e = Client_event i events ra sa"
        using 2(4) Wait_events by (simp add: no_request_def)
      note inv1 = server_inv_events [OF server_inv_elapse [OF inv] step(1)]
      from service_events_queue [OF server_inv_elapse [OF inv] step(1) es] same
      have q1: "sv_conn_handler sv1 = sv_conn_handler sv"
        "map fst (sv_client_connections sv1) = map fst (sv_client_connections sv)" by simp_all
      from step(2) obtain conns where conns: "clean_pass (sv_client_connections sv1) = Some conns"
        "sv2 = sv1\<lparr>sv_client_connections := conns, sv_epoll := registrations conns\<rparr>"
        by (auto simp: server_inv_clean [OF inv1] split: option.splits)
      have "subseq (map fst conns) (map fst (sv_client_connections sv))"
        using clean_pass_keeps [OF conns(1)] subseq_map [of conns _ fst] q1(2) by metis
      moreover from 2(2) [OF refl False Wait_events step(1) refl step(2)
          server_inv_cleaned [OF inv1 step(2)] _ step(3)] 2(4)
      have "sv_conn_handler sv' = sv_conn_handler sv2 \<and>
        subseq (map fst (sv_client_connections sv')) (map fst (sv_client_connections sv2))" by simp
      ultimately show ?thesis
        using conns(2) q1(1) subseq_order.trans by auto
    qed
  qed
qed simp

subsection \<open>A receive error of one session\<close>

lemma recv_error_throws:
  assumes "wait_for_read c" and "tm_expirations (c_timer c) = 0" and "e \<noteq> EAGAIN"
  shows "handle_read (Recv_errno e) c = Throw (Errno_error e)"
  using assms by (auto simp: handle_read_eq wait_for_read_def)

end
