(* ===== verification/Read_Transfer.thy ===== *)
theory Read_Transfer
  imports Construction
begin

text \<open>
  Whole downloads: a freshly constructed \<open>READ\<close> session meets an RFC 1350 client that answers each
  packet at once (the transfer completes and delivers the file), a client that has gone
  silent (the session ends after \<open>MAX_TIMEOUTS\<close> retransmissions), and a block size of 0.
\<close>

lemma new_read_session:
  assumes "new_connection sys req client = Ret c" and "rw_type req = READ"
    and "is_operation_allowed sys (rw_filename req) READ = Ret None"
    and "sys_fopen_r sys (c_str (rw_filename req)) = Inr (open_infile content)"
  shows "read_inv_at (block_len c) (rf_convert (rw_mode req) content) (c_oack_packet c)
      (if oack_options (c_oack_packet c) = [] then 1 else 0) c"
    and "c_state c = (if oack_options (c_oack_packet c) = [] then SEND_DATA else SEND_OACK)"
    and "\<not> c_finished c" and "\<not> c_pkt_ready c" and "c_timeout_count c = 0"
    and "timeout_ok c" and "timer_unarmed c"
    and "rw_options req = [] \<Longrightarrow> block_len c = 512 \<and> oack_options (c_oack_packet c) = []"
proof -
  from assms(2,3) have allowed: "is_operation_allowed sys (rw_filename req) (rw_type req) = Ret None"
    by simp
  obtain c0 where c0: "c = start_request sys req c0"
    "c_type c0 = rw_type req" "c_file_reader c0 = new_read_file" "\<not> c_finished c0"
    "\<not> c_final_ack c0" "\<not> c_pkt_ready c0" "c_timeout_count c0 = 0" "timer_unarmed c0" "timeout_ok c0"
    "rw_options req = [] \<Longrightarrow> c_block_size c0 = 512 \<and> oack_options (c_oack_packet c0) = []"
    using new_connection_allowed [OF assms(1) allowed] by metis
  obtain rf r where rf: "rf_open (Inr (open_infile content)) (rw_mode req) new_read_file = (rf, r)"
    by force
  note open_ok = rf_inv_open [OF rf]
  have c: "c = (c0\<lparr>c_file_reader := rf\<rparr>)
      \<lparr>c_state := (if oack_options (c_oack_packet c0) = [] then SEND_DATA else SEND_OACK),
       c_block_number := (if oack_options (c_oack_packet c0) = [] then 1 else 0)\<rparr>"
    using c0(1,3) assms(2,4) rf open_ok(1)
    by (simp add: start_request_def start_read_def open_failure_def)
  show "read_inv_at (block_len c) (rf_convert (rw_mode req) content) (c_oack_packet c)
      (if oack_options (c_oack_packet c) = [] then 1 else 0) c"
    using c0(2-9) assms(2) open_ok(2) [of "block_len c0"] open_ok(3)
    by (simp add: c read_inv_defs)
  show "c_state c = (if oack_options (c_oack_packet c) = [] then SEND_DATA else SEND_OACK)"
    and "\<not> c_finished c" and "\<not> c_pkt_ready c" and "c_timeout_count c = 0"
    and "timeout_ok c" and "timer_unarmed c"
    using c0(2-9) by (simp_all add: c timeout_ok_def timer_unarmed_def)
  assume "rw_options req = []"
  with c0(10) show "block_len c = 512 \<and> oack_options (c_oack_packet c) = []"
    by (simp add: c)
qed

subsection \<open>A client that answers at once\<close>

text \<open>
  What an RFC 1350 / RFC 2347 client replies to a datagram of a download: the ACK of a DATA
  packet's number, the ACK of block 0 to an OACK.
\<close>

definition client_ack :: "bytes \<Rightarrow> bytes" where
  "client_ack d =
     (case deserialise_data_packet d of
        Some p \<Rightarrow> serialise_ack_packet \<lparr>ack_block_number = data_block_number p\<rparr>
      | None \<Rightarrow> serialise_ack_packet \<lparr>ack_block_number = 0\<rparr>)"

text \<open>At most \<open>m\<close> rounds of one send and one reply; \<open>a\<close> is what \<open>send\<close> returns.\<close>

fun lockstep :: "nat \<Rightarrow> send_answer \<Rightarrow> conn \<Rightarrow> (bytes list \<times> conn) outcome" where
  "lockstep 0 a c = Ret ([], c)"
| "lockstep (Suc m) a c =
     (if c_finished c then Ret ([], c)
      else obind (handle_write a c) (\<lambda>(c1, os).
        if os = [] then Ret ([], c1)
        else obind (handle_read (Datagram (client_ack (last os))) c1) (\<lambda>c2.
        obind (lockstep m a c2) (\<lambda>(os', c3). Ret (os @ os', c3)))))"

lemma client_ack_data [simp]:
  "client_ack (serialise_data_packet p) = serialise_ack_packet \<lparr>ack_block_number = data_block_number p\<rparr>"
  by (simp add: client_ack_def deserialise_serialise_data)

lemma client_ack_oack [simp]:
  "client_ack (serialise_oack_packet p) = serialise_ack_packet \<lparr>ack_block_number = 0\<rparr>"
proof -
  have "deserialise_data_packet (serialise_oack_packet p) = None"
    by (rule data_codec.decode_other_tag) (simp add: serialise_oack_packet_def)
  then show ?thesis by (simp add: client_ack_def)
qed

lemma sent_not_failed: "0 < fst a \<Longrightarrow> \<not> send_failed a"
  by (simp add: send_failed_def)

text \<open>The two halves of a round: the send, after which the timer runs, and the ACK of the block.\<close>

lemma read_send:
  assumes inv: "read_inv_at n S oack k c" and st: "c_state c = SEND_DATA" and a: "0 < fst a"
  shows "\<exists>c1. handle_write a c = Ret (c1, [serialise_data_packet (nth_data_packet n S k)]) \<and>
     read_inv_at n S oack k c1 \<and> c_state c1 = WAIT_FOR_ACK \<and> c_pkt_ready c1 \<and> 0 < k \<and>
     c_timer c1 = arm_timer (unat (c_timeout_s c)) (c_timer c) \<and> c_finished c1 = c_finished c \<and>
     c_timeout_count c1 = c_timeout_count c \<and> c_timeout_s c1 = c_timeout_s c"
proof -
  from read_inv_at_prepare [OF inv st] obtain c0 where c0:
    "prepare_data c = Ret (True, c0)" "read_inv_at n S oack k c0" "c_pkt_ready c0"
    "c_state c0 = SEND_DATA" "0 < k" "c_finished c0 = c_finished c" "c_timer c0 = c_timer c"
    "c_timeout_count c0 = c_timeout_count c" "c_timeout_s c0 = c_timeout_s c"
    by auto
  define c1 where "c1 = arm (c0\<lparr>c_state := WAIT_FOR_ACK\<rparr>)"
  have pkt: "c_data_pkt c0 = nth_data_packet n S k" using c0(2,3) by (simp add: read_inv_at_def)
  have w: "write_data a c0 = (c1, [serialise_data_packet (nth_data_packet n S k)])"
    using a by (simp add: write_data_def udp_send_def sent_not_failed pkt c1_def)
  then have "handle_write a c = Ret (c1, [serialise_data_packet (nth_data_packet n S k)])"
    using st c0(1) by (simp add: handle_write_def)
  moreover have "read_inv_at n S oack k c1"
    using read_inv_at_write_data [OF c0(2,3,5), of a] w by simp
  ultimately show ?thesis using c0 by (simp add: c1_def arm_def)
qed

lemma read_acked:
  assumes c1: "read_inv_at n S oack k c1" "c_state c1 = WAIT_FOR_ACK" "c_pkt_ready c1"
      "tm_expirations (c_timer c1) = 0"
    and fin: "\<not> c_finished c1" and k: "0 < k"
  shows "\<exists>c2. handle_read (Datagram (client_ack (serialise_data_packet (nth_data_packet n S k)))) c1 = Ret c2 \<and>
     c_timeout_count c2 = 0 \<and> c_timeout_s c2 = c_timeout_s c1 \<and>
     (if length (chunk n (k - 1) S) < n then c_finished c2
      else read_inv_at n S oack (Suc k) c2 \<and> c_state c2 = SEND_DATA \<and> \<not> c_finished c2)"
proof -
  let ?ack = "serialise_ack_packet \<lparr>ack_block_number = of_nat k\<rparr>"
  have ack: "deserialise_ack_packet ?ack = Some \<lparr>ack_block_number = of_nat k\<rparr>"
    by (rule deserialise_serialise_ack)
  have r: "handle_read (Datagram ?ack) c1 = Ret (read_ack ?ack (timer_read c1))"
    using c1(2,4) by (simp add: handle_read_eq)
  have bn: "c_block_number (timer_read c1) = of_nat k" using c1(1) by (simp add: read_inv_at_def)
  have final: "c_final_ack c1 \<longleftrightarrow> length (chunk n (k - 1) S) < n"
    using c1(1,3) by (simp add: read_inv_at_def)
  have "c_timeout_count (read_ack ?ack (timer_read c1)) = 0 \<and>
      c_timeout_s (read_ack ?ack (timer_read c1)) = c_timeout_s c1 \<and>
      (if length (chunk n (k - 1) S) < n then c_finished (read_ack ?ack (timer_read c1))
      else read_inv_at n S oack (Suc k) (read_ack ?ack (timer_read c1)) \<and>
        c_state (read_ack ?ack (timer_read c1)) = SEND_DATA \<and>
        \<not> c_finished (read_ack ?ack (timer_read c1)))"
  proof (cases "length (chunk n (k - 1) S) < n")
    case True
    with final ack bn show ?thesis by (simp add: read_ack_def not_previous_self)
  next
    case False
    then have "length (chunk n (k - 1) S) = n" by (simp add: length_chunk)
    then have "k * n \<le> length S" using k by (rule next_block_start)
    with False final ack bn c1 fin k show ?thesis
      by (simp add: read_ack_def not_previous_self read_inv_defs add.commute)
  qed
  then show ?thesis using r by (simp add: nth_data_packet_def)
qed

lemma read_round:
  assumes inv: "read_inv_at n S oack k c" and st: "c_state c = SEND_DATA"
    and fin: "\<not> c_finished c" and a: "0 < fst a"
  shows "\<exists>c1 c2. handle_write a c = Ret (c1, [serialise_data_packet (nth_data_packet n S k)]) \<and>
     handle_read (Datagram (client_ack (serialise_data_packet (nth_data_packet n S k)))) c1 = Ret c2 \<and>
     (if length (chunk n (k - 1) S) < n then c_finished c2
      else read_inv_at n S oack (Suc k) c2 \<and> c_state c2 = SEND_DATA \<and> \<not> c_finished c2)"
proof -
  from read_send [OF inv st a] obtain c1 where c1:
    "handle_write a c = Ret (c1, [serialise_data_packet (nth_data_packet n S k)])"
    "read_inv_at n S oack k c1" "c_state c1 = WAIT_FOR_ACK" "c_pkt_ready c1" "0 < k"
    "tm_expirations (c_timer c1) = 0" "\<not> c_finished c1"
    using fin by (auto simp: arm_timer_def)
  from read_acked [OF c1(2-4,6,7,5)] c1(1) show ?thesis by blast
qed

lemma lockstep_finished [simp]: "c_finished c \<Longrightarrow> lockstep m a c = Ret ([], c)"
  by (cases m) simp_all

lemma lockstep_read:
  assumes "read_inv_at n S oack k c" and "c_state c = SEND_DATA" and "\<not> c_finished c"
    and "0 < fst a" and "0 < n" and "k + m = length S div n + 2" and "0 < m" and "1 \<le> k"
  shows "\<exists>c'. lockstep m a c =
     Ret (map (\<lambda>i. serialise_data_packet (nth_data_packet n S i)) [k..<length S div n + 2], c') \<and>
     c_finished c'"
  using assms
proof (induction m arbitrary: k c)
  case 0
  from 0(7) have False by simp
  then show ?case ..
next
  case (Suc m)
  from read_round [OF Suc.prems(1-4)] obtain c1 c2 where c2:
    "handle_write a c = Ret (c1, [serialise_data_packet (nth_data_packet n S k)])"
    "handle_read (Datagram (client_ack (serialise_data_packet (nth_data_packet n S k)))) c1 = Ret c2"
    "if length (chunk n (k - 1) S) < n then c_finished c2
      else read_inv_at n S oack (Suc k) c2 \<and> c_state c2 = SEND_DATA \<and> \<not> c_finished c2" by blast
  have short: "length (chunk n (k - 1) S) < n \<longleftrightarrow> m = 0"
    using Suc.prems(5,6,8) by (subst chunk_short_iff) auto
  have upt: "[k..<Suc (Suc (length S div n))] = k # [Suc k..<Suc (Suc (length S div n))]"
    using Suc.prems(6,7) by (intro upt_conv_Cons) simp
  show ?case
  proof (cases "m = 0")
    case True
    with c2 short Suc.prems show ?thesis by (simp add: upt)
  next
    case False
    with c2(3) short have c2': "read_inv_at n S oack (Suc k) c2" "c_state c2 = SEND_DATA" "\<not> c_finished c2"
      by simp_all
    from Suc.IH [OF c2' Suc.prems(4,5)] Suc.prems(6) False obtain c' where c':
      "lockstep m a c2 =
         Ret (map (\<lambda>i. serialise_data_packet (nth_data_packet n S i)) [Suc k..<length S div n + 2], c')"
      "c_finished c'" by auto
    show ?thesis
      by (rule exI [of _ c']) (use c2(1,2) c' Suc.prems(3) in \<open>simp add: upt del: client_ack_data upt_Suc\<close>)
  qed
qed

text \<open>The OACK round of a download with options: no timer is armed after the OACK.\<close>

lemma oack_send:
  assumes inv: "read_inv_at n S oack 0 c" and st: "c_state c = SEND_OACK" and a: "0 < fst a"
  shows "handle_write a c = Ret (c\<lparr>c_state := WAIT_FOR_ACK\<rparr>, [serialise_oack_packet oack])"
    and "read_inv_at n S oack 0 (c\<lparr>c_state := WAIT_FOR_ACK\<rparr>)"
proof -
  show "handle_write a c = Ret (c\<lparr>c_state := WAIT_FOR_ACK\<rparr>, [serialise_oack_packet oack])"
    using assms by (simp add: handle_write_def write_oack_def udp_send_def sent_not_failed read_inv_at_def)
  show "read_inv_at n S oack 0 (c\<lparr>c_state := WAIT_FOR_ACK\<rparr>)" using inv by (simp add: read_inv_defs)
qed

lemma oack_acked:
  assumes inv: "read_inv_at n S oack 0 c" and st: "c_state c = WAIT_FOR_ACK" and fin: "\<not> c_finished c"
  shows "\<exists>c2. handle_read (Datagram (client_ack (serialise_oack_packet oack))) c = Ret c2 \<and>
     read_inv_at n S oack 1 c2 \<and> c_state c2 = SEND_DATA \<and> \<not> c_finished c2 \<and>
     c_timeout_count c2 = 0 \<and> c_timeout_s c2 = c_timeout_s c"
proof -
  let ?ack = "serialise_ack_packet \<lparr>ack_block_number = 0\<rparr>"
  have "handle_read (Datagram ?ack) c = Ret (read_ack ?ack (timer_read c))"
    using inv st by (simp add: handle_read_eq read_inv_defs)
  moreover have "read_inv_at n S oack 1 (read_ack ?ack (timer_read c)) \<and>
      c_state (read_ack ?ack (timer_read c)) = SEND_DATA \<and> \<not> c_finished (read_ack ?ack (timer_read c)) \<and>
      c_timeout_count (read_ack ?ack (timer_read c)) = 0 \<and>
      c_timeout_s (read_ack ?ack (timer_read c)) = c_timeout_s c"
    using inv st fin
    by (simp add: read_ack_def deserialise_serialise_ack not_previous_0 read_inv_defs)
  ultimately show ?thesis by auto
qed

lemma oack_round:
  assumes inv: "read_inv_at n S oack 0 c" and st: "c_state c = SEND_OACK"
    and fin: "\<not> c_finished c" and a: "0 < fst a"
  shows "\<exists>c1 c2. handle_write a c = Ret (c1, [serialise_oack_packet oack]) \<and>
     handle_read (Datagram (client_ack (serialise_oack_packet oack))) c1 = Ret c2 \<and>
     read_inv_at n S oack 1 c2 \<and> c_state c2 = SEND_DATA \<and> \<not> c_finished c2"
  using oack_send [OF inv st a] oack_acked [of n S oack "c\<lparr>c_state := WAIT_FOR_ACK\<rparr>"] fin by auto

text \<open>The DATA payloads of a whole download, in order, are the bytes served.\<close>

lemma blocks_concat:
  assumes "0 < n"
  shows "concat (map (\<lambda>i. pkt_data (nth_data_packet n S i)) [1..<length S div n + 2]) = S"
proof -
  have "[1..<length S div n + 2] = map Suc [0..<Suc (length S div n)]"
    by (simp add: map_Suc_upt del: upt_Suc)
  then have "map (\<lambda>i. pkt_data (nth_data_packet n S i)) [1..<length S div n + 2] =
      map (\<lambda>i. chunk n i S) [0..<Suc (length S div n)]"
    by (simp add: nth_data_packet_def o_def del: upt_Suc)
  then show ?thesis by (simp only: concat_all_chunks [OF assms])
qed

text \<open>All blocks are full but the last, which is short.\<close>

lemma blocks_shape:
  assumes "0 < n"
  shows "\<forall>p \<in> set (butlast (map (nth_data_packet n S) [1..<length S div n + 2])). length (pkt_data p) = n"
    and "length (pkt_data (last (map (nth_data_packet n S) [1..<length S div n + 2]))) < n"
proof -
  have upt: "[1..<length S div n + 2] = [1..<length S div n + 1] @ [length S div n + 1]" by simp
  have full: "length (chunk n (k - 1) S) = n" if "1 \<le> k" "k < length S div n + 1" for k
  proof -
    have "\<not> length S div n \<le> k - 1" using that by linarith
    then have "\<not> length (chunk n (k - 1) S) < n" by (simp only: chunk_short_iff [OF assms] not_False_eq_True)
    moreover have "length (chunk n (k - 1) S) \<le> n" by (simp add: length_chunk)
    ultimately show ?thesis by linarith
  qed
  show "\<forall>p \<in> set (butlast (map (nth_data_packet n S) [1..<length S div n + 2])). length (pkt_data p) = n"
    unfolding upt using full by (simp add: nth_data_packet_def butlast_append del: upt_Suc)
  show "length (pkt_data (last (map (nth_data_packet n S) [1..<length S div n + 2]))) < n"
    unfolding upt using chunk_short_iff [OF assms, of "length S div n" S]
    by (simp add: nth_data_packet_def)
qed

lemma lockstep_oack:
  assumes "read_inv_at n S oack 0 c" and "c_state c = SEND_OACK" and "\<not> c_finished c"
    and "0 < fst a" and "0 < n" and "m = length S div n + 1"
  shows "\<exists>c'. lockstep (Suc m) a c =
     Ret (serialise_oack_packet oack #
       map (\<lambda>i. serialise_data_packet (nth_data_packet n S i)) [1..<length S div n + 2], c') \<and>
     c_finished c'"
proof -
  from oack_round [OF assms(1-4)] obtain c1 c2 where r:
    "handle_write a c = Ret (c1, [serialise_oack_packet oack])"
    "handle_read (Datagram (client_ack (serialise_oack_packet oack))) c1 = Ret c2"
    "read_inv_at n S oack 1 c2" "c_state c2 = SEND_DATA" "\<not> c_finished c2" by blast
  from lockstep_read [OF r(3-5) assms(4,5), of m] assms(6) obtain c' where
    "lockstep m a c2 =
       Ret (map (\<lambda>i. serialise_data_packet (nth_data_packet n S i)) [1..<length S div n + 2], c')"
    "c_finished c'" by auto
  then show ?thesis
    by (intro exI [of _ c']) (use r(1,2) assms(3) in \<open>simp del: client_ack_oack upt_Suc\<close>)
qed

text \<open>
  From the constructor: the OACK if one was negotiated, then the blocks; the rounds needed are
  one per block and one for the OACK.
\<close>

lemma download_lockstep:
  assumes new: "new_connection sys req client = Ret c" and "rw_type req = READ"
    and "is_operation_allowed sys (rw_filename req) READ = Ret None"
    and "sys_fopen_r sys (c_str (rw_filename req)) = Inr (open_infile content)"
    and "0 < block_len c" and "0 < fst a"
  defines "S \<equiv> rf_convert (rw_mode req) content" and "oack \<equiv> c_oack_packet c"
  shows "\<exists>c'. c_finished c' \<and>
    lockstep (length S div block_len c + 1 + (if oack_options oack = [] then 0 else 1)) a c =
      Ret ((if oack_options oack = [] then [] else [serialise_oack_packet oack]) @
        map (\<lambda>i. serialise_data_packet (nth_data_packet (block_len c) S i))
          [1..<length S div block_len c + 2], c')"
proof (cases "oack_options oack = []")
  case True
  with new_read_session(1,2,3) [OF assms(1-4)]
  have "read_inv_at (block_len c) S oack 1 c" "c_state c = SEND_DATA" "\<not> c_finished c"
    by (simp_all add: S_def oack_def)
  from lockstep_read [OF this assms(6,5), of "length S div block_len c + 1"] True
  show ?thesis by (simp del: upt_Suc lockstep.simps) blast
next
  case False
  with new_read_session(1,2,3) [OF assms(1-4)]
  have "read_inv_at (block_len c) S oack 0 c" "c_state c = SEND_OACK" "\<not> c_finished c"
    by (simp_all add: S_def oack_def)
  from lockstep_oack [OF this assms(6,5) refl] False
  show ?thesis by (simp del: upt_Suc lockstep.simps) blast
qed

subsection \<open>Block size 0\<close>

text \<open>With the accepted option \<open>BLKSIZE 0\<close> no block is ever short, so the transfer does not end.\<close>

lemma lockstep_empty_blocks:
  assumes "read_inv_at 0 S oack k c" and "c_state c = SEND_DATA" and "\<not> c_finished c"
    and "0 < fst a"
  shows "\<exists>c'. lockstep m a c =
     Ret (map (\<lambda>i. serialise_data_packet \<lparr>pkt_data = [], data_block_number = of_nat i\<rparr>) [k..<k + m], c') \<and>
     \<not> c_finished c'"
  using assms
proof (induction m arbitrary: k c)
  case (Suc m)
  from read_round [OF Suc.prems] obtain c1 c2 where c2:
    "handle_write a c = Ret (c1, [serialise_data_packet (nth_data_packet 0 S k)])"
    "handle_read (Datagram (client_ack (serialise_data_packet (nth_data_packet 0 S k)))) c1 = Ret c2"
    "read_inv_at 0 S oack (Suc k) c2" "c_state c2 = SEND_DATA" "\<not> c_finished c2" by auto
  from Suc.IH [OF c2(3-5) Suc.prems(4)] obtain c' where c':
    "lockstep m a c2 = Ret (map (\<lambda>i. serialise_data_packet \<lparr>pkt_data = [], data_block_number = of_nat i\<rparr>)
        [Suc k..<Suc k + m], c')"
    "\<not> c_finished c'" by blast
  have upt: "[k..<Suc (k + m)] = k # [Suc k..<Suc (k + m)]" by (simp add: upt_conv_Cons del: upt_Suc)
  have pkt: "nth_data_packet 0 S k = \<lparr>pkt_data = [], data_block_number = of_nat k\<rparr>"
    by (simp add: nth_data_packet_def chunk_def)
  show ?case
    by (rule exI [of _ c']) (use c2(1,2) c' Suc.prems(3) in \<open>simp add: upt pkt del: client_ack_data upt_Suc\<close>)
qed auto

text \<open>The packets of \<open>m\<close> rounds: the OACK, if there are options, and empty DATA packets from block 1 on.\<close>

definition empty_download :: "oack_packet_t \<Rightarrow> nat \<Rightarrow> bytes list" where
  "empty_download oack m = take m ((if oack_options oack = [] then [] else [serialise_oack_packet oack]) @
     map (\<lambda>k. serialise_data_packet \<lparr>pkt_data = [], data_block_number = of_nat k\<rparr>) [1..<m + 1])"

lemma length_empty_download: "length (empty_download oack m) = m"
  by (simp add: empty_download_def del: upt_Suc)

lemma download_block_size_0:
  assumes "new_connection sys req client = Ret c" and "rw_type req = READ"
    and "is_operation_allowed sys (rw_filename req) READ = Ret None"
    and "sys_fopen_r sys (c_str (rw_filename req)) = Inr (open_infile content)"
    and "block_len c = 0" and "0 < fst a"
  shows "\<exists>c'. lockstep m a c = Ret (empty_download (c_oack_packet c) m, c') \<and> \<not> c_finished c'"
proof (cases "oack_options (c_oack_packet c) = []")
  case True
  with new_read_session(1,2,3) [OF assms(1-4)] assms(5)
  have "read_inv_at 0 (rf_convert (rw_mode req) content) (c_oack_packet c) 1 c"
    "c_state c = SEND_DATA" "\<not> c_finished c" by simp_all
  from lockstep_empty_blocks [OF this assms(6), of m] True
  show ?thesis by (simp add: empty_download_def del: upt_Suc)
next
  case False
  with new_read_session(1,2,3) [OF assms(1-4)] assms(5)
  have start: "read_inv_at 0 (rf_convert (rw_mode req) content) (c_oack_packet c) 0 c"
    "c_state c = SEND_OACK" "\<not> c_finished c" by simp_all
  show ?thesis
  proof (cases m)
    case 0
    with start(3) show ?thesis by (simp add: empty_download_def)
  next
    case (Suc k)
    from oack_round [OF start assms(6)] obtain c1 c2 where r:
      "handle_write a c = Ret (c1, [serialise_oack_packet (c_oack_packet c)])"
      "handle_read (Datagram (client_ack (serialise_oack_packet (c_oack_packet c)))) c1 = Ret c2"
      "read_inv_at 0 (rf_convert (rw_mode req) content) (c_oack_packet c) 1 c2"
      "c_state c2 = SEND_DATA" "\<not> c_finished c2" by blast
    from lockstep_empty_blocks [OF r(3-5) assms(6), of k] obtain c' where c':
      "lockstep k a c2 = Ret (map (\<lambda>i. serialise_data_packet
         \<lparr>pkt_data = [], data_block_number = of_nat i\<rparr>) [1..<1 + k], c')" "\<not> c_finished c'" by blast
    have "empty_download (c_oack_packet c) (Suc k) = serialise_oack_packet (c_oack_packet c) #
        map (\<lambda>i. serialise_data_packet \<lparr>pkt_data = [], data_block_number = of_nat i\<rparr>) [1..<1 + k]"
      using False by (simp add: empty_download_def take_map del: upt_Suc)
    then show ?thesis
      using r(1,2) start(3) Suc c' by (intro exI [of _ c']) (simp del: client_ack_oack upt_Suc)
  qed
qed

end
