(* ===== verification/Write_Session.thy ===== *)
theory Write_Session
  imports Construction
begin

text \<open>
  A \<open>WRITE\<close> session.  \<open>handle_read\<close> asks the socket for \<open>_block_size\<close> bytes, header included, so
  the payload of a DATA packet is always shorter than a block and the first one stored is
  taken for the last: the invariant says that a session stores one datagram at most.
\<close>

definition write_inv :: "nat \<Rightarrow> mode_t \<Rightarrow> conn \<Rightarrow> bool" where
  "write_inv n mode c \<longleftrightarrow>
     c_type c = WRITE \<and> block_len c = n \<and> wf_inv mode (c_file_writer c) \<and>
     c_state c \<noteq> SEND_DATA \<and> c_state c \<noteq> WAIT_FOR_ACK \<and>
     (c_block_number c = 0 \<or> c_block_number c = 1) \<and>
     (c_state c = SEND_OACK \<longrightarrow> c_block_number c = 0 \<and> timer_unarmed c) \<and>
     (c_state c = WAIT_FOR_DATA \<and> c_block_number c = 0 \<longrightarrow> timer_unarmed c) \<and>
     (c_state c = SEND_ACK \<and> \<not> c_final_ack c \<longrightarrow> c_block_number c = 0) \<and>
     (\<not> c_final_ack c \<longrightarrow> wf_contents (c_file_writer c) = []) \<and>
     (c_final_ack c \<longrightarrow> c_state c \<noteq> WAIT_FOR_DATA \<and> c_state c \<noteq> SEND_OACK \<and>
        (\<exists>d. length d + 4 \<le> n \<and> mode_decode mode d = Ret (wf_contents (c_file_writer c))))"

definition write_output :: "bytes \<Rightarrow> bool" where
  "write_output d \<longleftrightarrow>
     (\<exists>p. d = serialise_oack_packet p) \<or> (\<exists>e. d = serialise_error_packet e) \<or>
     d = serialise_ack_packet \<lparr>ack_block_number = 0\<rparr> \<or>
     d = serialise_ack_packet \<lparr>ack_block_number = 1\<rparr>"

lemmas write_inv_defs = write_inv_def timer_unarmed_def

text \<open>On a device with room a write appends the decoded block, and fails only if that fails.\<close>

lemma wf_write_decodes:
  assumes "wf_inv mode fw" and "mode_decode mode d = Ret x"
  shows "\<exists>fw'. wf_write d fw = Ret fw' \<and> wf_contents fw' = wf_contents fw @ x \<and> wf_inv mode fw'"
proof (cases mode)
  case OCTET
  with assms octet_sink.write_law [of fw d x] show ?thesis by (simp add: mode_decode_def)
next
  case NETASCII
  with assms netascii_sink.write_law [of fw d x] show ?thesis by (simp add: mode_decode_def)
qed

lemma wf_write_appends:
  assumes "wf_inv mode fw" and "wf_write d fw = Ret fw'"
  shows "\<exists>x. mode_decode mode d = Ret x \<and> wf_contents fw' = wf_contents fw @ x \<and> wf_inv mode fw'"
proof -
  obtain x where x: "mode_decode mode d = Ret x"
    using assms by (cases mode) (auto simp: mode_decode_def wf_write_def wf_inv_def outcome_simps)
  from wf_write_decodes [OF assms(1) x] assms(2) x show ?thesis by auto
qed

lemma write_inv_timer_read: "write_inv n mode c \<Longrightarrow> write_inv n mode (timer_read c)"
  by (simp add: write_inv_defs)

lemma write_inv_timeout:
  assumes "write_inv n mode c" and "c_state c = WAIT_FOR_DATA \<or> c_state c = SEND_OACK \<longrightarrow> c_block_number c = 1"
  shows "write_inv n mode (handle_timeout c)"
  by (cases c rule: handle_timeout_cases) (use assms in \<open>auto simp: write_inv_defs\<close>)

lemma write_inv_read_data:
  assumes inv: "write_inv n mode c" and st: "c_state c = WAIT_FOR_DATA"
    and "read_data d c = Ret c'" and len: "length d \<le> n"
  shows "write_inv n mode c'"
  using assms(3)
proof (cases rule: read_data_cases)
  case (dup p)
  then have "c_block_number c \<noteq> 0" using not_previous_0 by auto
  with inv st dup(3) show ?thesis by (simp add: write_inv_defs)
next
  case (stored p fw)
  from inv have fw: "wf_inv mode (c_file_writer c)" "wf_contents (c_file_writer c) = []" "block_len c = n"
    using st by (auto simp: write_inv_def)
  from wf_write_appends [OF fw(1) stored(3)] fw(2) obtain x where
    x: "mode_decode mode (pkt_data p) = Ret x" "wf_contents fw = x" "wf_inv mode fw" by auto
  have "length (pkt_data p) + 4 \<le> n" using deserialise_data_Some [OF stored(1)] len by simp
  with inv x fw(3) stored(5) show ?thesis by (auto simp: write_inv_def)
next
  case (disk p fw)
  from inv wf_write_appends [OF _ disk(3), of mode] have "wf_inv mode fw" by (auto simp: write_inv_def)
  then have "wf_error fw = Ret False" by (rule wf_inv_no_error)
  with disk(4) show ?thesis by simp
next
  case (bad p)
  with inv st show ?thesis by (auto simp: write_inv_defs)
next
  case (err e)
  with inv show ?thesis by (simp add: write_inv_defs)
next
  case ignored
  with inv show ?thesis by simp
qed

lemma write_inv_handle_read:
  assumes inv: "write_inv n mode c" and "handle_read a c = Ret c'"
  shows "write_inv n mode c'"
  using assms(2)
proof (cases rule: handle_read_cases)
  case timeout
  with inv have "c_state c = WAIT_FOR_DATA \<or> c_state c = SEND_OACK \<longrightarrow> c_block_number c = 1"
    by (auto simp: write_inv_defs)
  with write_inv_timeout [OF write_inv_timer_read [OF inv]] timeout(2) show ?thesis by simp
next
  case (ack d)
  with inv show ?thesis by (simp add: write_inv_def)
next
  case (data d)
  have "length d \<le> n" using udp_recv_length [OF data(3)] inv by (simp add: write_inv_def)
  with write_inv_read_data [OF write_inv_timer_read [OF inv] _ data(4)] data(2) show ?thesis by simp
next
  case idle
  with write_inv_timer_read [OF inv] show ?thesis by simp
qed

lemma write_inv_handle_write:
  assumes inv: "write_inv n mode c" and "handle_write a c = Ret (c', os)"
  shows "write_inv n mode c' \<and> (\<forall>d \<in> set os. write_output d)"
  using assms(2)
proof (cases rule: handle_write_cases)
  case (data c1)
  with inv show ?thesis by (simp add: write_inv_def)
next
  case no_data
  with inv show ?thesis by (simp add: write_inv_def)
next
  case ack
  then have os: "(c', os) = write_ack a c" by simp
  from inv have bn: "c_block_number c = 0 \<or> c_block_number c = 1" by (simp add: write_inv_def)
  show ?thesis
    by (cases a rule: send_cases)
      (use inv ack(1) bn os in \<open>auto simp: write_defs internal_error_def arm_def write_inv_def write_output_def
         split: if_splits\<close>)
next
  case oack
  then have os: "(c', os) = write_oack a c" by simp
  show ?thesis
    by (cases a rule: send_cases)
      (use inv oack(1) os in \<open>auto simp: write_defs write_inv_defs write_output_def\<close>)
next
  case error
  then have os: "(c', os) = write_error a c" by simp
  show ?thesis
    by (cases a rule: send_cases)
      (use inv error(1) os in \<open>auto simp: write_defs write_inv_defs write_output_def\<close>)
qed

lemma write_inv_step:
  assumes "write_inv n mode c" and "session_step c e os c'"
  shows "write_inv n mode c' \<and> (\<forall>d \<in> set os. write_output d)"
  using assms(2)
proof (cases rule: session_step.cases)
  case (step_read a)
  with write_inv_handle_read [OF assms(1)] show ?thesis by auto
next
  case (step_write a)
  with write_inv_handle_write [OF assms(1)] show ?thesis by blast
next
  case (step_elapse s)
  with assms(1) show ?thesis by (auto simp: write_inv_defs elapse_def split: option.splits)
next
  case step_hangup
  with assms(1) show ?thesis by (auto simp: write_inv_defs c_set_finished_def)
qed

interpretation write_session: output_invariant session_step "write_inv n mode" write_output
  for n mode
  by unfold_locales (use write_inv_step in blast)


subsection \<open>From the constructor\<close>

lemma new_write_session:
  assumes "new_connection sys req client = Ret c" and "rw_type req = WRITE"
    and "is_operation_allowed sys (rw_filename req) WRITE = Ret None"
    and "sys_fopen_w sys (c_str (rw_filename req)) = Inr (open_outfile None)"
  shows "write_inv (block_len c) (rw_mode req) c"
    and "c_state c = (if oack_options (c_oack_packet c) = [] then SEND_ACK else SEND_OACK)"
    and "\<not> c_finished c" and "\<not> c_final_ack c" and "c_block_number c = 0"
    and "c_timeout_count c = 0" and "timeout_ok c" and "timer_unarmed c"
    and "wf_contents (c_file_writer c) = []"
    and "rw_options req = [] \<Longrightarrow> block_len c = 512 \<and> oack_options (c_oack_packet c) = []"
proof -
  from assms(2,3) have allowed: "is_operation_allowed sys (rw_filename req) (rw_type req) = Ret None"
    by simp
  obtain c0 where c0: "c = start_request sys req c0"
    "c_type c0 = rw_type req" "c_file_writer c0 = new_write_file" "\<not> c_finished c0"
    "\<not> c_final_ack c0" "c_timeout_count c0 = 0" "timer_unarmed c0" "timeout_ok c0"
    "rw_options req = [] \<Longrightarrow> c_block_size c0 = 512 \<and> oack_options (c_oack_packet c0) = []"
    using new_connection_allowed [OF assms(1) allowed] by metis
  obtain fw r where fw: "wf_open (Inr (open_outfile None)) (rw_mode req) new_write_file = (fw, r)"
    by force
  note open_ok = wf_inv_open [OF fw]
  have c: "c = c0\<lparr>c_state := (if oack_options (c_oack_packet c0) = [] then SEND_ACK else SEND_OACK),
       c_block_number := 0, c_file_writer := fw\<rparr>"
    using c0(1,3) assms(2,4) fw open_ok(1)
    by (simp add: start_request_def start_write_def open_failure_def)
  show "write_inv (block_len c) (rw_mode req) c"
    using c0(2-8) assms(2) open_ok(2,3) by (simp add: c write_inv_defs)
  show "c_state c = (if oack_options (c_oack_packet c) = [] then SEND_ACK else SEND_OACK)"
    and "\<not> c_finished c" and "\<not> c_final_ack c" and "c_block_number c = 0"
    and "c_timeout_count c = 0" and "timeout_ok c" and "timer_unarmed c"
    and "wf_contents (c_file_writer c) = []"
    using c0(2-8) open_ok(3) by (simp_all add: c timeout_ok_def timer_unarmed_def)
  assume "rw_options req = []"
  with c0(9) show "block_len c = 512 \<and> oack_options (c_oack_packet c) = []"
    by (simp add: c)
qed

subsection \<open>The one block of an upload\<close>

text \<open>
  The exchange of an upload without options: the server's ACK 0, the client's DATA 1, the
  server's ACK 1.  The file receives the first \<open>_block_size - 4\<close> bytes of the client's block.
\<close>

lemma take_data_packet:
  "4 \<le> n \<Longrightarrow> take n (serialise_data_packet \<lparr>pkt_data = d, data_block_number = b\<rparr>) =
     serialise_data_packet \<lparr>pkt_data = take (n - 4) d, data_block_number = b\<rparr>"
  by (simp add: serialise_data_packet_def take_Cons' numeral_eq_Suc)

lemma read_data_stores:
  assumes c: "c_state c = WAIT_FOR_DATA" "tm_expirations (c_timer c) = 0" "4 \<le> block_len c"
      "wf_inv mode (c_file_writer c)"
    and x: "mode_decode mode (take (block_len c - 4) d) = Ret x"
  shows "\<exists>c'. handle_read (Datagram (serialise_data_packet
            \<lparr>pkt_data = d, data_block_number = c_block_number c\<rparr>)) c = Ret c' \<and>
     c_state c' = SEND_ACK \<and> c_final_ack c' \<and> c_block_number c' = c_block_number c \<and>
     c_finished c' = c_finished c \<and>
     wf_contents (c_file_writer c') = wf_contents (c_file_writer c) @ x"
proof -
  let ?d = "take (block_len c - 4) d"
  from wf_write_decodes [OF c(4) x]
  obtain fw where fw: "wf_write ?d (c_file_writer c) = Ret fw"
    "wf_contents fw = wf_contents (c_file_writer c) @ x" "wf_inv mode fw" by blast
  have short: "length ?d < block_len c" using c(3) by simp
  have "handle_read (Datagram (serialise_data_packet
      \<lparr>pkt_data = d, data_block_number = c_block_number c\<rparr>)) c =
    Ret ((timer_read c)\<lparr>c_timeout_count := 0, c_file_writer := fw, c_final_ack := True,
      c_state := SEND_ACK\<rparr>)"
    using c(1,2) short
    by (simp add: handle_read_eq take_data_packet [OF c(3)] read_data_def deserialise_serialise_data
        not_previous_self fw(1) wf_inv_no_error [OF fw(3)] del: length_take)
  with fw(2) show ?thesis by simp
qed

lemma write_ack_sent:
  assumes "c_state c = SEND_ACK" and "0 < fst a"
  shows "handle_write a c =
     Ret (if c_final_ack c then c\<lparr>c_finished := True\<rparr>
          else arm (c\<lparr>c_block_number := c_block_number c + 1, c_state := WAIT_FOR_DATA\<rparr>),
          [serialise_ack_packet \<lparr>ack_block_number = c_block_number c\<rparr>])"
  using assms by (simp add: handle_write_def write_ack_def udp_send_def send_failed_def)

lemma upload_opens:
  assumes new: "new_connection sys req client = Ret c" and "rw_type req = WRITE"
    and "is_operation_allowed sys (rw_filename req) WRITE = Ret None"
    and "sys_fopen_w sys (c_str (rw_filename req)) = Inr (open_outfile None)"
    and opts: "rw_options req = []" and a: "0 < fst a"
  shows "\<exists>c1. handle_write a c = Ret (c1, [serialise_ack_packet \<lparr>ack_block_number = 0\<rparr>]) \<and>
     c_state c1 = WAIT_FOR_DATA \<and> tm_expirations (c_timer c1) = 0 \<and> c_block_number c1 = 1 \<and> block_len c1 = 512 \<and>
     wf_contents (c_file_writer c1) = [] \<and> wf_mode (c_file_writer c1) = rw_mode req \<and>
     wf_inv (rw_mode req) (c_file_writer c1)"
proof -
  note c = new_write_session [OF assms(1-4)]
  from c(10) [OF opts] have bs: "block_len c = 512" and st: "c_state c = SEND_ACK"
    using c(2) by simp_all
  have fw: "wf_inv (rw_mode req) (c_file_writer c)" using c(1) by (simp add: write_inv_def)
  then have "wf_mode (c_file_writer c) = rw_mode req" by (simp add: wf_inv_def)
  with fw write_ack_sent [OF st a] c(4,5,9) bs show ?thesis
    by (auto simp: arm_def arm_timer_def)
qed

lemma upload_exchange:
  assumes new: "new_connection sys req client = Ret c" and "rw_type req = WRITE"
    and "is_operation_allowed sys (rw_filename req) WRITE = Ret None"
    and "sys_fopen_w sys (c_str (rw_filename req)) = Inr (open_outfile None)"
    and opts: "rw_options req = []" and a: "0 < fst a"
    and x: "mode_decode (rw_mode req) (take 508 d) = Ret x"
  shows "\<exists>c1 c2 c3.
     handle_write a c = Ret (c1, [serialise_ack_packet \<lparr>ack_block_number = 0\<rparr>]) \<and>
     handle_read (Datagram (serialise_data_packet \<lparr>pkt_data = d, data_block_number = 1\<rparr>)) c1 = Ret c2 \<and>
     handle_write a c2 = Ret (c3, [serialise_ack_packet \<lparr>ack_block_number = 1\<rparr>]) \<and>
     c_finished c3 \<and> wf_contents (c_file_writer c3) = x"
proof -
  from upload_opens [OF assms(1-6)] obtain c1 where
    c1: "handle_write a c = Ret (c1, [serialise_ack_packet \<lparr>ack_block_number = 0\<rparr>])"
      "c_state c1 = WAIT_FOR_DATA" "tm_expirations (c_timer c1) = 0" "c_block_number c1 = 1" "block_len c1 = 512"
      "wf_contents (c_file_writer c1) = []" "wf_inv (rw_mode req) (c_file_writer c1)" by blast
  obtain c2 where c2: "handle_read (Datagram (serialise_data_packet
      \<lparr>pkt_data = d, data_block_number = 1\<rparr>)) c1 = Ret c2"
    "c_state c2 = SEND_ACK" "c_final_ack c2" "c_block_number c2 = 1" "wf_contents (c_file_writer c2) = x"
    using read_data_stores [OF c1(2,3) _ c1(7), of d x] x c1(4-6) by auto
  show ?thesis using c1(1) c2 write_ack_sent [OF c2(2) a] by auto
qed

text \<open>After an OACK the server expects block 0: the DATA 1 that RFC 2347 prescribes is an error.\<close>

lemma oack_data_rejected:
  assumes "c_state c = SEND_OACK" "c_type c = WRITE" "timer_unarmed c" "c_block_number c = 0" "4 \<le> block_len c"
    and "handle_write a c = Ret (c1, os)" and "0 < fst a"
  shows "\<exists>c2. handle_read (Datagram (serialise_data_packet \<lparr>pkt_data = d, data_block_number = 1\<rparr>)) c1 = Ret c2 \<and>
     c_state c2 = STATE_ERROR \<and> c_file_writer c2 = c_file_writer c"
proof -
  have "c1 = c\<lparr>c_state := WAIT_FOR_DATA\<rparr>"
    using assms(1,2,6,7) by (simp add: handle_write_def write_oack_def udp_send_def send_failed_def)
  with assms(3-5) show ?thesis
    by (simp add: handle_read_eq timer_unarmed_def take_data_packet read_data_def not_previous_0
        deserialise_serialise_data)
qed

subsection \<open>Data that cannot be written\<close>

lemma read_data_put:
  assumes "c_state c = WAIT_FOR_DATA" "tm_expirations (c_timer c) = 0" "length d + 4 \<le> block_len c"
  shows "handle_read (Datagram (serialise_data_packet
      \<lparr>pkt_data = d, data_block_number = c_block_number c\<rparr>)) c =
    obind (wf_write d (c_file_writer c)) (\<lambda>writer.
      obind (wf_error writer) (\<lambda>err.
        if err
        then Ret (internal_error ((timer_read c)\<lparr>c_timeout_count := 0, c_file_writer := writer\<rparr>))
        else Ret ((timer_read c)\<lparr>c_timeout_count := 0, c_file_writer := writer, c_final_ack := True,
           c_state := SEND_ACK\<rparr>)))"
proof -
  have "take (block_len c - 4) d = d" using assms(3) by simp
  moreover have "length d < block_len c" using assms(3) by simp
  ultimately show ?thesis
    using assms
    by (simp add: handle_read_eq take_data_packet read_data_def deserialise_serialise_data
        not_previous_self internal_error_def Let_def cong: if_cong)
qed

lemma malformed_netascii_throws:
  assumes "c_state c = WAIT_FOR_DATA" "tm_expirations (c_timer c) = 0" "length d + 4 \<le> block_len c"
    and "wf_mode (c_file_writer c) = NETASCII" and "netascii_to_native d = Throw e"
  shows "handle_read (Datagram (serialise_data_packet
      \<lparr>pkt_data = d, data_block_number = c_block_number c\<rparr>)) c = Throw e"
  using assms by (simp add: read_data_put wf_write_def)

text \<open>The same for a longer payload, of which the socket's buffer keeps the front.\<close>

lemma malformed_data_throws:
  assumes "c_state c = WAIT_FOR_DATA" "tm_expirations (c_timer c) = 0" "4 \<le> block_len c"
    and "wf_mode (c_file_writer c) = NETASCII" and "netascii_to_native (take (block_len c - 4) d) = Throw e"
  shows "handle_read (Datagram (serialise_data_packet
      \<lparr>pkt_data = d, data_block_number = c_block_number c\<rparr>)) c = Throw e"
proof -
  let ?p = "\<lambda>d. serialise_data_packet \<lparr>pkt_data = d, data_block_number = c_block_number c\<rparr>"
  have "handle_read (Datagram (?p d)) c = handle_read (Datagram (?p (take (block_len c - 4) d))) c"
    using assms(1-3) by (simp add: handle_read_eq take_data_packet)
  then show ?thesis using malformed_netascii_throws [OF assms(1,2) _ assms(4,5)] assms(3) by simp
qed

lemma full_device_diverges:
  assumes "c_state c = WAIT_FOR_DATA" "tm_expirations (c_timer c) = 0" "length d + 4 \<le> block_len c"
    and "wf_mode (c_file_writer c) = OCTET" and "wf_fd (c_file_writer c) = Some f"
    and "out_space f = Some k" and "k < length d"
  shows "handle_read (Datagram (serialise_data_packet
      \<lparr>pkt_data = d, data_block_number = c_block_number c\<rparr>)) c = Diverges"
  using assms by (simp add: read_data_put wf_write_def octet_write_diverges)

subsection \<open>Duplicate DATA\<close>

text \<open>The DATA packet before the one awaited makes the session send its last ACK again.\<close>

lemma duplicate_data_reacked:
  assumes "c_state c = WAIT_FOR_DATA" "tm_expirations (c_timer c) = 0" "4 \<le> block_len c"
    and "c_block_number c = 1" and "\<not> c_final_ack c" and "0 < fst a"
  shows "\<exists>c1 c2. handle_read (Datagram (serialise_data_packet
       \<lparr>pkt_data = d, data_block_number = 0\<rparr>)) c = Ret c1 \<and>
     handle_write a c1 = Ret (c2, [serialise_ack_packet \<lparr>ack_block_number = 0\<rparr>]) \<and>
     c_state c2 = WAIT_FOR_DATA \<and> c_block_number c2 = 1 \<and> c_file_writer c2 = c_file_writer c"
  using assms
  by (simp add: handle_read_eq take_data_packet read_data_def deserialise_serialise_data
      is_previous_def write_ack_sent arm_def)

end
