(* ===== verification/Client.thy ===== *)
theory Client
  imports Read_Transfer
begin

text \<open>
  \<open>tftp_client\<close> (\<open>src/client/tftp_client.cpp\<close>): \<open>get_file\<close> and \<open>send_file\<close>.  Each wait of the client is a
  \<open>poll\<close> for \<open>POLLOUT\<close> followed by a blocking receive; the input is one pair of answers per wait,
  and when it ends the receive never returns (\<open>Diverges\<close>).  The counts returned by the sends
  are ignored, as the code ignores them.
\<close>

type_synonym poll_answer = "int \<times> bool" \<comment> \<open>return value, \<open>POLLOUT\<close> in \<open>revents\<close>\<close>

type_synonym client_input = "(poll_answer \<times> recvfrom_answer) list"

record client_system =
  cl_socket :: "int + int"
  cl_setsockopt :: "int option"
  cl_bind :: "int option"
  cl_connect :: "int option"
  cl_ofstream :: "bytes \<Rightarrow> outfile option"
  cl_ifstream :: "bytes \<Rightarrow> infile option"

text \<open>
  \<open>std::ofstream::write\<close> does nothing once the stream has failed; \<open>std::ifstream::read\<close> sets
  \<open>failbit\<close> with \<open>eofbit\<close> on a short read and reads nothing after it.
\<close>

definition ofstream_write :: "bytes \<Rightarrow> outfile \<Rightarrow> outfile" where
  "ofstream_write data f = (if out_err f then f else snd (fwrite data f))"

definition ifstream_fail :: "infile \<Rightarrow> bool" where
  "ifstream_fail f \<longleftrightarrow> in_eof f \<or> in_err f"

definition ifstream_read :: "nat \<Rightarrow> infile \<Rightarrow> bytes \<times> infile" where
  "ifstream_read n f = (if ifstream_fail f then ([], f) else fread n f)"

text \<open>\<open>recv\<close> on the connected socket reads the same datagrams as \<open>recv_from\<close>.\<close>

fun recv_part :: "recvfrom_answer \<Rightarrow> recv_answer" where
  "recv_part (Datagram_from sa d) = Datagram d"
| "recv_part (Recvfrom_errno e) = Recv_errno e"

subsection \<open>\<open>get_file\<close>\<close>

text \<open>The result: the returned value, the datagrams sent to the server's port, and the local file.\<close>

fun get_file_loop ::
  "mode_t \<Rightarrow> u16 \<Rightarrow> data_packet_t \<Rightarrow> client_input \<Rightarrow> outfile \<Rightarrow> (bool \<times> bytes list \<times> outfile) outcome" where
  "get_file_loop mode block_number data_packet inputs out_file =
     (let sent = serialise_ack_packet \<lparr>ack_block_number = block_number\<rparr>;
          block_number = block_number + 1 in
      obind (if mode = NETASCII then netascii_to_native (pkt_data data_packet)
             else Ret (pkt_data data_packet)) (\<lambda>native_data.
        let out_file = ofstream_write native_data out_file in
        if length (pkt_data data_packet) < DATA_PKT_DATA_MAX_SIZE then Ret (True, [sent], out_file)
        else
          (case inputs of
             [] \<Rightarrow> Diverges
           | (poll, answer) # inputs \<Rightarrow>
               if fst poll = 0 \<or> \<not> snd poll then Ret (False, [sent], out_file)
               else
                 obind (udp_recv DATA_PKT_MAX_SIZE (recv_part answer)) (\<lambda>data.
                   (case deserialise_data_packet data of
                      None \<Rightarrow> Ret (False, [sent], out_file)
                    | Some data_packet \<Rightarrow>
                        if data_block_number data_packet \<noteq> block_number
                        then Ret (False, [sent], out_file)
                        else
                          obind (get_file_loop mode block_number data_packet inputs out_file)
                            (\<lambda>(r, os, f). Ret (r, sent # os, f)))))))"

declare get_file_loop.simps [simp del]

record client_result =
  res_ok :: bool
  res_request :: "(sockaddr_in \<times> bytes) list"
  res_sent :: "bytes list"
  res_file :: "outfile option"

definition get_file ::
  "client_system \<Rightarrow> bytes \<Rightarrow> bytes \<Rightarrow> mode_t \<Rightarrow> bytes \<Rightarrow> send_answer \<Rightarrow> client_input \<Rightarrow>
   client_result outcome" where
  "get_file cl filename server mode local_interface sa inputs =
     obind (udp_new (cl_socket cl) (cl_setsockopt cl)) (\<lambda>udp.
     obind (udp_bind local_interface 0 (cl_bind cl) udp) (\<lambda>udp.
     let request = mk_rw_packet filename READ mode in
     obind (udp_send_to server 69 (serialise_rw_packet request) sa) (\<lambda>(ret, sent).
     let failed = Ret \<lparr>res_ok = False, res_request = sent, res_sent = [], res_file = None\<rparr> in
     (case inputs of
        [] \<Rightarrow> Diverges
      | (poll, answer) # inputs \<Rightarrow>
          if fst poll \<le> 0 \<or> \<not> snd poll then failed
          else
            obind (udp_recv_from ([], 0) DATA_PKT_MAX_SIZE answer) (\<lambda>(data, addr, server_tid).
              (case deserialise_data_packet data of
                 None \<Rightarrow> failed
               | Some data_packet \<Rightarrow>
                   if data_block_number data_packet \<noteq> 1 then failed
                   else
                     (case cl_ofstream cl (path_filename filename) of
                        None \<Rightarrow> failed
                      | Some out_file \<Rightarrow>
                          obind (udp_connect server server_tid (cl_connect cl) udp) (\<lambda>udp.
                          obind (get_file_loop mode 1 data_packet inputs out_file) (\<lambda>(r, os, f).
                          Ret \<lparr>res_ok = r, res_request = sent, res_sent = os, res_file = Some f\<rparr>)))))))))"

subsection \<open>\<open>send_file\<close>\<close>

definition file_block :: "mode_t \<Rightarrow> bytes \<Rightarrow> bytes" where
  "file_block mode data = (if mode = NETASCII then native_to_netascii data else data)"

text \<open>
  After a send, \<open>data_packet.block_number\<close> and \<open>block_number\<close> are set to the same value; the final
  test of the loop compares these two.
\<close>

fun send_file_loop ::
  "mode_t \<Rightarrow> u16 \<Rightarrow> data_packet_t \<Rightarrow> client_input \<Rightarrow> infile \<Rightarrow> (bool \<times> bytes list) outcome" where
  "send_file_loop mode block_number data_packet inputs in_file =
     (let finished = length (pkt_data data_packet) < DATA_PKT_DATA_MAX_SIZE;
          sent = serialise_data_packet data_packet;
          block_number = block_number + 1;
          data_packet = data_packet\<lparr>data_block_number := block_number\<rparr>;
          (data, in_file) = ifstream_read 512 in_file in
      if ifstream_fail in_file \<and> \<not> in_eof in_file then Ret (False, [sent])
      else
        let data_packet = data_packet\<lparr>pkt_data := file_block mode data\<rparr> in
        (case inputs of
           [] \<Rightarrow> Diverges
         | (poll, answer) # inputs \<Rightarrow>
             if fst poll = 0 \<or> \<not> snd poll then Ret (False, [sent])
             else
               obind (udp_recv ACK_PKT_MAX_SIZE (recv_part answer)) (\<lambda>data.
                 (case deserialise_ack_packet data of
                    None \<Rightarrow> Ret (False, [sent])
                  | Some ack_packet \<Rightarrow>
                      if data_block_number data_packet \<noteq> block_number then Ret (False, [sent])
                      else if finished then Ret (True, [sent])
                      else obind (send_file_loop mode block_number data_packet inputs in_file)
                        (\<lambda>(r, os). Ret (r, sent # os))))))"

declare send_file_loop.simps [simp del]

definition send_file ::
  "client_system \<Rightarrow> bytes \<Rightarrow> bytes \<Rightarrow> mode_t \<Rightarrow> bytes \<Rightarrow> send_answer \<Rightarrow> client_input \<Rightarrow>
   client_result outcome" where
  "send_file cl filename server mode local_interface sa inputs =
     obind (udp_new (cl_socket cl) (cl_setsockopt cl)) (\<lambda>udp.
     obind (udp_bind local_interface 0 (cl_bind cl) udp) (\<lambda>udp.
     let request = mk_rw_packet filename WRITE mode in
     obind (udp_send_to server 69 (serialise_rw_packet request) sa) (\<lambda>(ret, sent).
     let failed = Ret \<lparr>res_ok = False, res_request = sent, res_sent = [], res_file = None\<rparr> in
     (case inputs of
        [] \<Rightarrow> Diverges
      | (poll, answer) # inputs \<Rightarrow>
          if fst poll = 0 \<or> \<not> snd poll then failed
          else
            obind (udp_recv_from ([], 0) DATA_PKT_MAX_SIZE answer) (\<lambda>(data, addr, server_tid).
              (case deserialise_ack_packet data of
                 None \<Rightarrow> failed
               | Some ack_packet \<Rightarrow>
                   if ack_block_number ack_packet \<noteq> 0 then failed
                   else
                     obind (udp_connect server server_tid (cl_connect cl) udp) (\<lambda>udp.
                       (case cl_ifstream cl filename of
                          None \<Rightarrow> failed
                        | Some in_file \<Rightarrow>
                            let (data, in_file) = ifstream_read 512 in_file in
                            if ifstream_fail in_file then failed
                            else
                              obind (send_file_loop mode 1
                                       \<lparr>pkt_data = file_block mode data, data_block_number = 1\<rparr>
                                       inputs in_file) (\<lambda>(r, os).
                              Ret \<lparr>res_ok = r, res_request = sent, res_sent = os, res_file = None\<rparr>)))))))))"

subsection \<open>A download from a server that sends the blocks of a file\<close>

abbreviation delivered :: "sockaddr_in \<Rightarrow> bytes list \<Rightarrow> client_input" where
  "delivered sa ds \<equiv> map (\<lambda>d. ((1, True), Datagram_from sa d)) ds"

abbreviation block_datagram :: "bytes \<Rightarrow> nat \<Rightarrow> bytes" where
  "block_datagram S k \<equiv> serialise_data_packet (nth_data_packet 512 S k)"

lemma take_block [simp]: "take DATA_PKT_MAX_SIZE (block_datagram S k) = block_datagram S k"
  by (simp add: DATA_PKT_MAX_SIZE_def serialise_data_packet_def nth_data_packet_def length_chunk)

lemma decode_block [simp]:
  "deserialise_data_packet (block_datagram S k) = Some (nth_data_packet 512 S k)"
  by (rule deserialise_serialise_data)

lemma ofstream_write_ok:
  "out_space f = None \<Longrightarrow> \<not> out_err f \<Longrightarrow> ofstream_write d f = f\<lparr>out_data := out_data f @ d\<rparr>"
  by (simp add: ofstream_write_def fwrite_unlimited)

lemma client_mode_decode: "(if mode = NETASCII then netascii_to_native d else Ret d) = mode_decode mode d"
  by (cases mode) (simp_all add: mode_decode_def)

lemma get_file_loop_next:
  assumes "out_space f = None" "\<not> out_err f" and "\<not> length (pkt_data p) < 512"
    and "take DATA_PKT_MAX_SIZE d = d" and "deserialise_data_packet d = Some q"
    and "data_block_number q = n + 1" and "mode_decode mode (pkt_data p) = Ret x"
  shows "get_file_loop mode n p (((1, True), Datagram_from sa d) # inputs) f =
    obind (get_file_loop mode (n + 1) q inputs (f\<lparr>out_data := out_data f @ x\<rparr>))
      (\<lambda>(r, os, f). Ret (r, serialise_ack_packet \<lparr>ack_block_number = n\<rparr> # os, f))"
  using assms
  by (subst get_file_loop.simps)
    (simp add: Let_def ofstream_write_ok DATA_PKT_DATA_MAX_SIZE_def client_mode_decode)

lemma get_file_loop_last:
  assumes "out_space f = None" "\<not> out_err f" and "length (pkt_data p) < 512"
    and "mode_decode mode (pkt_data p) = Ret x"
  shows "get_file_loop mode n p inputs f =
    Ret (True, [serialise_ack_packet \<lparr>ack_block_number = n\<rparr>], f\<lparr>out_data := out_data f @ x\<rparr>)"
  using assms
  by (subst get_file_loop.simps)
    (simp add: ofstream_write_ok DATA_PKT_DATA_MAX_SIZE_def client_mode_decode)

lemma get_file_loop_throws:
  assumes "mode_decode mode (pkt_data p) = Throw e"
  shows "get_file_loop mode n p inputs f = Throw e"
  using assms by (subst get_file_loop.simps) (simp add: Let_def client_mode_decode)

text \<open>
  From block \<open>k\<close> on, with \<open>x i\<close> what block \<open>i\<close> decodes to; and the same with a block \<open>k + m\<close> that does
  not decode.
\<close>

lemma get_file_loop_blocks:
  assumes "out_space f = None" "\<not> out_err f" and "1 \<le> k" and "k + m = length S div 512 + 1"
    and "\<And>i. k \<le> i \<Longrightarrow> i \<le> k + m \<Longrightarrow> mode_decode mode (chunk 512 (i - 1) S) = Ret (x i)"
  shows "\<exists>f'. get_file_loop mode (of_nat k) (nth_data_packet 512 S k)
       (delivered sa (map (block_datagram S) [Suc k..<Suc k + m])) f =
     Ret (True, map (\<lambda>i. serialise_ack_packet \<lparr>ack_block_number = of_nat i\<rparr>) [k..<Suc k + m], f') \<and>
     out_data f' = out_data f @ concat (map x [k..<Suc k + m])"
  using assms
proof (induction m arbitrary: k f)
  case 0
  then have "length (chunk 512 (k - 1) S) < 512" by (subst chunk_short_iff) auto
  with 0(1,2) 0(5) [of k] show ?case
    by (simp add: get_file_loop_last nth_data_packet_def)
next
  case (Suc m)
  then have long: "\<not> length (chunk 512 (k - 1) S) < 512" by (subst chunk_short_iff) auto
  let ?f = "f\<lparr>out_data := out_data f @ x k\<rparr>"
  from Suc.IH [of ?f "Suc k"] Suc.prems obtain f' where f':
    "get_file_loop mode (of_nat (Suc k)) (nth_data_packet 512 S (Suc k))
       (delivered sa (map (block_datagram S) [Suc (Suc k)..<Suc (Suc k) + m])) ?f =
     Ret (True, map (\<lambda>i. serialise_ack_packet \<lparr>ack_block_number = of_nat i\<rparr>) [Suc k..<Suc (Suc k) + m], f')"
    "out_data f' = out_data ?f @ concat (map x [Suc k..<Suc (Suc k) + m])" by auto
  have upt: "[Suc k..<Suc k + Suc m] = Suc k # [Suc (Suc k)..<Suc (Suc k) + m]"
    "[k..<Suc k + Suc m] = k # [Suc k..<Suc (Suc k) + m]"
    by (simp_all add: upt_conv_Cons del: upt_Suc)
  have "get_file_loop mode (of_nat k) (nth_data_packet 512 S k)
       (delivered sa (map (block_datagram S) [Suc k..<Suc k + Suc m])) f =
     Ret (True, map (\<lambda>i. serialise_ack_packet \<lparr>ack_block_number = of_nat i\<rparr>) [k..<Suc k + Suc m], f')"
    unfolding upt list.map
    by (subst get_file_loop_next [where q = "nth_data_packet 512 S (Suc k)" and x = "x k"])
      (use Suc.prems(1,2) Suc.prems(5) [of k] long f'(1) in \<open>simp_all add: nth_data_packet_def add.commute
         DATA_PKT_MAX_SIZE_def length_chunk deserialise_serialise_data del: upt_Suc\<close>)
  with f'(2) show ?case unfolding upt by simp
qed

lemma get_file_loop_bad_block:
  assumes "out_space f = None" "\<not> out_err f" and "1 \<le> k" and "k + m \<le> length S div 512"
    and "\<And>i. k \<le> i \<Longrightarrow> i < k + m \<Longrightarrow> returns (mode_decode mode (chunk 512 (i - 1) S))"
    and bad: "mode_decode mode (chunk 512 (k + m - 1) S) = Throw e"
  shows "get_file_loop mode (of_nat k) (nth_data_packet 512 S k)
       (delivered sa (map (block_datagram S) [Suc k..<length S div 512 + 2])) f = Throw e"
  using assms
proof (induction m arbitrary: k f)
  case 0
  then show ?case by (simp add: get_file_loop_throws nth_data_packet_def)
next
  case (Suc m)
  then have long: "\<not> length (chunk 512 (k - 1) S) < 512" by (subst chunk_short_iff) auto
  from Suc.prems(5) [of k] obtain x where x: "mode_decode mode (chunk 512 (k - 1) S) = Ret x"
    by (auto simp: returns_iff)
  let ?f = "f\<lparr>out_data := out_data f @ x\<rparr>"
  from Suc.IH [of ?f "Suc k"] Suc.prems have rest:
    "get_file_loop mode (of_nat (Suc k)) (nth_data_packet 512 S (Suc k))
       (delivered sa (map (block_datagram S) [Suc (Suc k)..<length S div 512 + 2])) ?f = Throw e" by simp
  have upt: "[Suc k..<length S div 512 + 2] = Suc k # [Suc (Suc k)..<length S div 512 + 2]"
    using Suc.prems(4) by (intro upt_conv_Cons) simp
  show ?case
    unfolding upt list.map
    by (subst get_file_loop_next [where q = "nth_data_packet 512 S (Suc k)" and x = x])
      (use Suc.prems(1,2) x long rest in \<open>simp_all add: nth_data_packet_def add.commute
         DATA_PKT_MAX_SIZE_def length_chunk deserialise_serialise_data del: upt_Suc\<close>)
qed

text \<open>
  A converted file in blocks of \<open>n\<close>: no block boundary falls inside a CR pair, or some does.  In the
  first case the decoded blocks are the file; in the second the first block cut there throws.
\<close>

definition pairs_whole :: "mode_t \<Rightarrow> nat \<Rightarrow> bytes \<Rightarrow> bool" where
  "pairs_whole mode n S \<longleftrightarrow> mode = OCTET \<or> (\<forall>k < length S div n. S ! (k * n + (n - 1)) \<noteq> CR)"

lemma last_full_chunk:
  assumes "k < length S div n" and "0 < n"
  shows "chunk n k S \<noteq> []" and "last (chunk n k S) = S ! (k * n + (n - 1))"
proof -
  have "Suc k * n \<le> length S div n * n" using assms(1) by (intro mult_le_mono1) simp
  also have "\<dots> \<le> length S" by (rule div_times_less_eq_dividend)
  finally have full: "n + k * n \<le> length S" by simp
  then have len: "length (chunk n k S) = n" "k * n + (n - 1) < length S"
    using assms(2) by (simp_all add: length_chunk)
  then show "chunk n k S \<noteq> []" using assms(2) by auto
  then show "last (chunk n k S) = S ! (k * n + (n - 1))"
    using len assms(2) by (simp add: last_conv_nth) (simp add: chunk_def)
qed

lemma netascii_rest_of_chunks:
  assumes "netascii_to_native S = Ret z" and "0 < n" and "k \<le> length S div n"
    and "\<And>j. j < k \<Longrightarrow> S ! (j * n + (n - 1)) \<noteq> CR"
  shows "\<exists>x r. (\<forall>j < k. netascii_to_native (chunk n j S) = Ret (x j)) \<and>
    netascii_to_native (drop (k * n) S) = Ret r \<and> z = concat (map x [0..<k]) @ r"
  using assms(3,4)
proof (induction k)
  case 0
  with assms(1) show ?case by auto
next
  case (Suc k)
  then obtain x r where x: "\<forall>j < k. netascii_to_native (chunk n j S) = Ret (x j)"
    "netascii_to_native (drop (k * n) S) = Ret r" "z = concat (map x [0..<k]) @ r" by auto
  have "drop (k * n) S = chunk n k S @ drop (Suc k * n) S"
    by (metis add.commute append_take_drop_id chunk_def drop_drop mult_Suc)
  with x(2) have "netascii_to_native (chunk n k S @ drop (Suc k * n) S) = Ret r" by simp
  moreover have "last (chunk n k S) \<noteq> CR"
    using last_full_chunk(2) [of k S n] Suc.prems(1) Suc.prems(2) [of k] assms(2) by simp
  ultimately obtain a b where ab: "netascii_to_native (chunk n k S) = Ret a"
    "netascii_to_native (drop (Suc k * n) S) = Ret b" "r = a @ b"
    using netascii_prefix_whole by blast
  have "\<forall>j < Suc k. netascii_to_native (chunk n j S) = Ret ((x(k := a)) j)"
    using x(1) ab(1) by (simp add: less_Suc_eq)
  moreover have "z = concat (map (x(k := a)) [0..<Suc k]) @ b"
    using x(3) ab(3) by (simp add: map_fun_upd fun_upd_same del: fun_upd_apply)
  ultimately show ?case using ab(2) by blast
qed

lemma whole_blocks_decode:
  assumes "pairs_whole mode n (rf_convert mode content)" and "0 < n"
  defines "S \<equiv> rf_convert mode content"
  shows "\<exists>x. (\<forall>j \<le> length S div n. mode_decode mode (chunk n j S) = Ret (x j)) \<and>
    concat (map x [0..<Suc (length S div n)]) = content"
proof (cases mode)
  case OCTET
  then have "S = content" by (simp add: rf_convert_def S_def)
  then have "concat (map (\<lambda>j. chunk n j S) [0..<Suc (length S div n)]) = content"
    by (simp only: concat_all_chunks [OF assms(2)])
  then show ?thesis
    by (intro exI [of _ "\<lambda>j. chunk n j S"] conjI) (simp_all add: mode_decode_def OCTET)
next
  case NETASCII
  let ?m = "length S div n"
  have "netascii_to_native S = Ret content"
    by (simp add: S_def rf_convert_def NETASCII netascii_roundtrip)
  moreover have "\<And>j. j < ?m \<Longrightarrow> S ! (j * n + (n - 1)) \<noteq> CR"
    using assms(1) by (simp add: pairs_whole_def S_def NETASCII)
  ultimately obtain x r where
    x: "\<forall>j < ?m. netascii_to_native (chunk n j S) = Ret (x j)"
      "netascii_to_native (drop (?m * n) S) = Ret r" "content = concat (map x [0..<?m]) @ r"
    using netascii_rest_of_chunks [OF _ assms(2) order_refl] by blast
  have "length (chunk n ?m S) < n" using chunk_short_iff [OF assms(2)] by blast
  then have "chunk n ?m S = drop (?m * n) S" by (simp add: chunk_def)
  moreover have "concat (map (x(?m := r)) [0..<Suc ?m]) = content"
    using x(3) [symmetric] by (simp only: upt_Suc_append [OF le0] map_append map_fun_upd atLeastLessThan_upt [symmetric]
      concat_append list.map concat.simps append_Nil2 fun_upd_same) (simp add: map_fun_upd del: fun_upd_apply)
  ultimately show ?thesis
    using x(1,2) by (intro exI [of _ "x(?m := r)"] conjI) (auto simp: mode_decode_def NETASCII le_less)
qed

lemma cut_block_throws:
  assumes "\<not> pairs_whole mode n (rf_convert mode content)" and "0 < n"
  defines "S \<equiv> rf_convert mode content"
  obtains k where "k < length S div n" and "\<And>j. j < k \<Longrightarrow> returns (mode_decode mode (chunk n j S))"
    and "mode_decode mode (chunk n k S) =
      Throw (Runtime_error ''Invalid character sequence : EOL after CR'')"
proof -
  have mode: "mode = NETASCII" using assms(1) by (cases mode) (auto simp: pairs_whole_def)
  define P where "P k \<longleftrightarrow> k < length S div n \<and> S ! (k * n + (n - 1)) = CR" for k
  have "\<exists>k. P k" using assms(1) by (auto simp: pairs_whole_def P_def S_def)
  then have k: "P (LEAST k. P k)" and least: "\<And>j. j < (LEAST k. P k) \<Longrightarrow> \<not> P j"
    by (auto intro: LeastI dest: not_less_Least)
  let ?k = "LEAST k. P k"
  have S: "netascii_to_native S = Ret content"
    by (simp add: S_def rf_convert_def mode netascii_roundtrip)
  have before: "S ! (j * n + (n - 1)) \<noteq> CR" if "j < ?k" for j
    using least [OF that] that k by (auto simp: P_def)
  have le: "?k \<le> length S div n" using k by (auto simp: P_def)
  from netascii_rest_of_chunks [OF S assms(2) le] before obtain x r where
    x: "\<forall>j < ?k. netascii_to_native (chunk n j S) = Ret (x j)"
      "netascii_to_native (drop (?k * n) S) = Ret r" by blast
  have split: "chunk n ?k S @ drop n (drop (?k * n) S) = drop (?k * n) S"
    unfolding chunk_def by (rule append_take_drop_id)
  have "netascii_to_native (chunk n ?k S @ drop n (drop (?k * n) S)) = Ret r"
    unfolding split by (rule x(2))
  then have "netascii_to_native (chunk n ?k S) =
      Throw (Runtime_error ''Invalid character sequence : EOL after CR'')"
    by (rule netascii_prefix_CR) (use last_full_chunk [of ?k S n] k assms(2) in \<open>simp_all add: P_def\<close>)
  with x(1) k show thesis
    by (intro that [of ?k]) (auto simp: P_def mode_decode_def mode)
qed

text \<open>The client system on which sockets, address and local file work.\<close>

definition client_ready :: "client_system \<Rightarrow> bytes \<Rightarrow> bytes \<Rightarrow> bool" where
  "client_ready cl server local_interface \<longleftrightarrow>
     (\<exists>sd. cl_socket cl = Inr sd) \<and> cl_setsockopt cl = None \<and> cl_bind cl = None \<and>
     cl_connect cl = None \<and> inet_pton server \<noteq> None \<and>
     (local_interface = [] \<or> inet_pton local_interface \<noteq> None)"

lemma client_ready_udp:
  assumes "client_ready cl server local_interface"
  obtains udp where "udp_new (cl_socket cl) (cl_setsockopt cl) = Ret udp"
    and "returns (udp_bind local_interface 0 (cl_bind cl) udp)"
    and "\<And>data sa. \<exists>r. udp_send_to server 69 data sa = Ret r"
    and "\<And>tid udp. returns (udp_connect server tid (cl_connect cl) udp)"
proof -
  from assms obtain sd where "cl_socket cl = Inr sd" by (auto simp: client_ready_def)
  with assms show thesis
    by (intro that [of "\<lparr>udp_sd = sd, udp_flags = 0, udp_local = None, udp_peer = None\<rparr>"])
      (auto simp: client_ready_def udp_new_def udp_bind_def udp_send_to_def udp_connect_def
        udp_connect_sa_def split: option.splits)
qed

text \<open>What comes in after the first datagram is handled by the loop.\<close>

lemma get_file_first:
  assumes ready: "client_ready cl server local_interface"
    and out: "cl_ofstream cl (path_filename filename) = Some f"
    and d: "take DATA_PKT_MAX_SIZE d = d" "deserialise_data_packet d = Some p" "data_block_number p = 1"
  shows "\<exists>sent. get_file cl filename server mode local_interface sa0 (((1, True), Datagram_from sa d) # inputs) =
     obind (get_file_loop mode 1 p inputs f)
       (\<lambda>(r, os, f). Ret \<lparr>res_ok = r, res_request = sent, res_sent = os, res_file = Some f\<rparr>) \<and>
     (0 < fst sa0 \<longrightarrow> map snd sent = [serialise_rw_packet (mk_rw_packet filename READ mode)])"
proof -
  from ready obtain udp udp1 where udp:
    "udp_new (cl_socket cl) (cl_setsockopt cl) = Ret udp"
    "udp_bind local_interface 0 (cl_bind cl) udp = Ret udp1"
    "\<And>data sa. \<exists>r. udp_send_to server 69 data sa = Ret r"
    "\<And>tid udp. returns (udp_connect server tid (cl_connect cl) udp)"
    by (elim client_ready_udp) (auto simp: returns_iff)
  obtain ret sent where sent: "udp_send_to server 69 (serialise_rw_packet (mk_rw_packet filename READ mode)) sa0
      = Ret (ret, sent)" using udp(3) by (metis surj_pair)
  obtain udp2 where udp2: "udp_connect server (ntohs (sin_port sa)) (cl_connect cl) udp1 = Ret udp2"
    using udp(4) by (metis returns_iff)
  have "0 < fst sa0 \<longrightarrow> map snd sent = [serialise_rw_packet (mk_rw_packet filename READ mode)]"
    using sent by (auto simp: udp_send_to_def split: option.splits)
  with udp(1,2) sent udp2 out d show ?thesis
    by (intro exI [of _ sent]) (simp add: get_file_def)
qed

lemma get_file_starts:
  assumes ready: "client_ready cl server local_interface"
    and out: "cl_ofstream cl (path_filename filename) = Some f"
  shows "\<exists>sent. get_file cl filename server mode local_interface sa0
       (delivered sa (map (block_datagram S) [1..<length S div 512 + 2])) =
     obind (get_file_loop mode 1 (nth_data_packet 512 S 1)
              (delivered sa (map (block_datagram S) [Suc 1..<length S div 512 + 2])) f)
       (\<lambda>(r, os, f). Ret \<lparr>res_ok = r, res_request = sent, res_sent = os, res_file = Some f\<rparr>) \<and>
     (0 < fst sa0 \<longrightarrow> map snd sent = [serialise_rw_packet (mk_rw_packet filename READ mode)])"
proof -
  have upt: "[1..<length S div 512 + 2] = 1 # [Suc 1..<length S div 512 + 2]"
    by (rule upt_conv_Cons) simp
  show ?thesis
    unfolding upt list.map
    by (rule get_file_first [OF assms take_block decode_block]) (simp add: nth_data_packet_def)
qed

lemma get_file_blocks:
  assumes "client_ready cl server local_interface"
    and "cl_ofstream cl (path_filename filename) = Some (open_outfile None)"
    and whole: "pairs_whole mode 512 (rf_convert mode content)"
  defines "S \<equiv> rf_convert mode content"
  shows "\<exists>r f. get_file cl filename server mode local_interface sa0
       (delivered sa (map (block_datagram S) [1..<length S div 512 + 2])) = Ret r \<and>
     res_ok r \<and> res_file r = Some f \<and> out_data f = content \<and>
     res_sent r = map (\<lambda>i. serialise_ack_packet \<lparr>ack_block_number = of_nat i\<rparr>) [1..<length S div 512 + 2] \<and>
     (0 < fst sa0 \<longrightarrow> map snd (res_request r) = [serialise_rw_packet (mk_rw_packet filename READ mode)])"
proof -
  from whole_blocks_decode [OF whole] obtain x where
    x: "\<forall>j \<le> length S div 512. mode_decode mode (chunk 512 j S) = Ret (x j)"
      "concat (map x [0..<Suc (length S div 512)]) = content" by (auto simp: S_def simp del: upt_Suc)
  let ?y = "\<lambda>i. x (i - 1)"
  have "map ?y [Suc 0..<Suc (Suc (length S div 512))] = map x [0..<Suc (length S div 512)]"
    unfolding map_Suc_upt [symmetric] map_map by simp
  with x(2) have y: "concat (map ?y [1..<Suc 1 + length S div 512]) = content" by simp
  have dec: "mode_decode mode (chunk 512 (i - 1) S) = Ret (?y i)" if "1 \<le> i" "i \<le> 1 + length S div 512" for i
    using that x(1) by simp
  have out: "out_space (open_outfile None) = None" "\<not> out_err (open_outfile None)" "out_data (open_outfile None) = []"
    by (simp_all add: open_outfile_def)
  from get_file_loop_blocks [OF out(1,2) order_refl _ dec, of "length S div 512" sa] y out(3)
  obtain f where f: "get_file_loop mode 1 (nth_data_packet 512 S 1)
       (delivered sa (map (block_datagram S) [Suc 1..<length S div 512 + 2])) (open_outfile None) =
     Ret (True, map (\<lambda>i. serialise_ack_packet \<lparr>ack_block_number = of_nat i\<rparr>) [1..<length S div 512 + 2], f)"
    "out_data f = content" by (auto simp del: upt_Suc)
  obtain sent where sent: "get_file cl filename server mode local_interface sa0
       (delivered sa (map (block_datagram S) [1..<length S div 512 + 2])) =
     obind (get_file_loop mode 1 (nth_data_packet 512 S 1)
              (delivered sa (map (block_datagram S) [Suc 1..<length S div 512 + 2])) (open_outfile None))
       (\<lambda>(r, os, f). Ret \<lparr>res_ok = r, res_request = sent, res_sent = os, res_file = Some f\<rparr>)"
    "0 < fst sa0 \<longrightarrow> map snd sent = [serialise_rw_packet (mk_rw_packet filename READ mode)]"
    using get_file_starts [OF assms(1,2), of mode sa0 sa S] by (elim exE conjE) (rule that)
  show ?thesis
    by (intro exI [of _ "\<lparr>res_ok = True, res_request = sent,
        res_sent = map (\<lambda>i. serialise_ack_packet \<lparr>ack_block_number = of_nat i\<rparr>) [1..<length S div 512 + 2],
        res_file = Some f\<rparr>"] exI [of _ f])
      (simp only: sent(1) f obind.simps prod.case client_result.select_convs simp_thms, rule sent(2))
qed

text \<open>When a block boundary cuts a CR pair, the conversion throws out of \<open>get_file\<close>.\<close>

lemma get_file_cut:
  assumes "client_ready cl server local_interface"
    and "cl_ofstream cl (path_filename filename) = Some (open_outfile None)"
    and cut: "\<not> pairs_whole mode 512 (rf_convert mode content)"
  defines "S \<equiv> rf_convert mode content"
  shows "get_file cl filename server mode local_interface sa0
       (delivered sa (map (block_datagram S) [1..<length S div 512 + 2])) =
    Throw (Runtime_error ''Invalid character sequence : EOL after CR'')"
proof -
  obtain k where k: "k < length S div 512" "\<And>j. j < k \<Longrightarrow> returns (mode_decode mode (chunk 512 j S))"
    "mode_decode mode (chunk 512 k S) =
      Throw (Runtime_error ''Invalid character sequence : EOL after CR'')"
    using cut_block_throws [OF cut, of thesis] by (auto simp: S_def)
  have "get_file_loop mode (of_nat 1) (nth_data_packet 512 S 1)
       (delivered sa (map (block_datagram S) [Suc 1..<length S div 512 + 2])) (open_outfile None) =
      Throw (Runtime_error ''Invalid character sequence : EOL after CR'')"
    by (rule get_file_loop_bad_block [where m = k]) (use k in \<open>simp_all add: open_outfile_def\<close>)
  moreover obtain sent where "get_file cl filename server mode local_interface sa0
       (delivered sa (map (block_datagram S) [1..<length S div 512 + 2])) =
     obind (get_file_loop mode 1 (nth_data_packet 512 S 1)
              (delivered sa (map (block_datagram S) [Suc 1..<length S div 512 + 2])) (open_outfile None))
       (\<lambda>(r, os, f). Ret \<lparr>res_ok = r, res_request = sent, res_sent = os, res_file = Some f\<rparr>)"
    using get_file_starts [OF assms(1,2)] by blast
  ultimately show ?thesis by (simp only: of_nat_1 obind.simps)
qed

subsection \<open>Uploads\<close>

text \<open>The result of an upload does not depend on the block numbers of the ACKs after the first.\<close>

lemma send_file_loop_ack_numbers:
  assumes "list_all2 (\<lambda>x y. fst x = fst y \<and>
      (\<exists>sa p q. snd x = Datagram_from sa (serialise_ack_packet p) \<and>
              snd y = Datagram_from sa (serialise_ack_packet q))) xs ys"
  shows "send_file_loop mode n pkt xs f = send_file_loop mode n pkt ys f"
  using assms
proof (induction xs ys arbitrary: n pkt f rule: list_all2_induct)
  case Nil
  show ?case by simp
next
  case (Cons x xs y ys)
  then obtain poll sa p q where xy: "x = (poll, Datagram_from sa (serialise_ack_packet p))"
    "y = (poll, Datagram_from sa (serialise_ack_packet q))" by (metis prod.collapse)
  obtain data f' where "ifstream_read 512 f = (data, f')" by force
  then show ?case
    by (subst (1 2) send_file_loop.simps)
      (simp add: xy Let_def deserialise_serialise_ack Cons.IH)
qed

lemma short_file_refused:
  assumes "client_ready cl server local_interface"
    and "cl_ifstream cl filename = Some (open_infile content)" and "length content < 512"
  shows "\<exists>r. send_file cl filename server mode local_interface sa0
      (((1, True), Datagram_from sa (serialise_ack_packet \<lparr>ack_block_number = 0\<rparr>)) # inputs) = Ret r \<and>
    \<not> res_ok r \<and> res_sent r = []"
proof -
  from assms(1) obtain udp udp1 where udp:
    "udp_new (cl_socket cl) (cl_setsockopt cl) = Ret udp"
    "udp_bind local_interface 0 (cl_bind cl) udp = Ret udp1"
    "\<And>data sa. \<exists>r. udp_send_to server 69 data sa = Ret r"
    "\<And>tid udp. returns (udp_connect server tid (cl_connect cl) udp)"
    by (elim client_ready_udp) (auto simp: returns_iff)
  obtain ret sent where sent: "udp_send_to server 69 (serialise_rw_packet (mk_rw_packet filename WRITE mode)) sa0
      = Ret (ret, sent)" using udp(3) by (metis surj_pair)
  obtain udp2 where udp2: "udp_connect server (ntohs (sin_port sa)) (cl_connect cl) udp1 = Ret udp2"
    using udp(4) by (metis returns_iff)
  have "take DATA_PKT_MAX_SIZE (serialise_ack_packet p) = serialise_ack_packet p" for p
    by (simp add: DATA_PKT_MAX_SIZE_def)
  moreover have "\<exists>data f. ifstream_read 512 (open_infile content) = (data, f) \<and> ifstream_fail f"
    using assms(3) by (simp add: ifstream_read_def ifstream_fail_def open_infile_def fread_no_fault)
  ultimately show ?thesis
    using udp(1,2) sent udp2 assms(2)
    by (auto simp: send_file_def deserialise_serialise_ack)
qed

text \<open>A longer file: the first two blocks are sent, whatever number the second ACK has.\<close>

abbreviation acked :: "sockaddr_in \<Rightarrow> u16 \<Rightarrow> poll_answer \<times> recvfrom_answer" where
  "acked sa n \<equiv> ((1, True), Datagram_from sa (serialise_ack_packet \<lparr>ack_block_number = n\<rparr>))"

lemma ifstream_read_healthy:
  assumes "in_fault f = None" "\<not> in_err f" "\<not> in_eof f"
  shows "ifstream_read n f =
     (take n (in_rest f), f\<lparr>in_rest := drop n (in_rest f), in_eof := length (in_rest f) < n\<rparr>)"
  using assms by (simp add: ifstream_read_def ifstream_fail_def fread_no_fault)

lemma ifstream_read_no_error:
  assumes "in_fault f = None" "\<not> in_err f"
  shows "\<exists>d f'. ifstream_read n f = (d, f') \<and> in_fault f' = None \<and> \<not> in_err f'"
  using assms by (cases "in_eof f") (simp_all add: ifstream_read_def ifstream_fail_def fread_no_fault)

lemma send_file_loop_step:
  assumes "in_fault f = None" "\<not> in_err f" and "ifstream_read 512 f = (d, f')"
  shows "send_file_loop mode n p [] f = Diverges"
    and "send_file_loop mode n p (((0, b), x) # inputs) f = Ret (False, [serialise_data_packet p])"
    and "\<not> length (pkt_data p) < 512 \<Longrightarrow> send_file_loop mode n p (acked sa m # inputs) f =
      obind (send_file_loop mode (n + 1) \<lparr>pkt_data = file_block mode d, data_block_number = n + 1\<rparr> inputs f')
        (\<lambda>(r, os). Ret (r, serialise_data_packet p # os))"
proof -
  have ok: "\<not> (ifstream_fail f' \<and> \<not> in_eof f')"
    using ifstream_read_no_error [OF assms(1,2), of 512] assms(3) by (simp add: ifstream_fail_def)
  show "send_file_loop mode n p [] f = Diverges"
    and "send_file_loop mode n p (((0, b), x) # inputs) f = Ret (False, [serialise_data_packet p])"
    using ok assms(3) by (subst send_file_loop.simps, simp add: Let_def)+
  show "\<not> length (pkt_data p) < 512 \<Longrightarrow> send_file_loop mode n p (acked sa m # inputs) f =
      obind (send_file_loop mode (n + 1) \<lparr>pkt_data = file_block mode d, data_block_number = n + 1\<rparr> inputs f')
        (\<lambda>(r, os). Ret (r, serialise_data_packet p # os))"
    using ok assms(3)
    by (subst send_file_loop.simps)
      (cases p, auto simp: Let_def deserialise_serialise_ack DATA_PKT_DATA_MAX_SIZE_def)
qed

text \<open>Block \<open>k\<close> of the file as the client sends it: cut first, then converted.\<close>

abbreviation file_datagram :: "mode_t \<Rightarrow> bytes \<Rightarrow> nat \<Rightarrow> bytes" where
  "file_datagram mode content k \<equiv> serialise_data_packet
     \<lparr>pkt_data = file_block mode (chunk 512 (k - 1) content), data_block_number = of_nat k\<rparr>"

lemma file_block_length: "length d \<le> length (file_block mode d)"
  by (simp add: file_block_def native_to_netascii_length)

lemma long_file_starts:
  assumes "client_ready cl server local_interface"
    and "cl_ifstream cl filename = Some (open_infile content)" and long: "512 \<le> length content"
  shows "\<exists>sent f. send_file cl filename server mode local_interface sa0 (acked sa 0 # inputs) =
     obind (send_file_loop mode 1 \<lparr>pkt_data = file_block mode (chunk 512 0 content), data_block_number = 1\<rparr> inputs f)
       (\<lambda>(r, os). Ret \<lparr>res_ok = r, res_request = sent, res_sent = os, res_file = None\<rparr>) \<and>
     in_fault f = None \<and> \<not> in_err f \<and> fst (ifstream_read 512 f) = chunk 512 1 content"
proof -
  from assms(1) obtain udp udp1 where udp:
    "udp_new (cl_socket cl) (cl_setsockopt cl) = Ret udp"
    "udp_bind local_interface 0 (cl_bind cl) udp = Ret udp1"
    "\<And>data sa. \<exists>r. udp_send_to server 69 data sa = Ret r"
    "\<And>tid udp. returns (udp_connect server tid (cl_connect cl) udp)"
    by (elim client_ready_udp) (auto simp: returns_iff)
  obtain ret sent where sent: "udp_send_to server 69 (serialise_rw_packet (mk_rw_packet filename WRITE mode)) sa0
      = Ret (ret, sent)" using udp(3) by (metis surj_pair)
  obtain udp2 where udp2: "udp_connect server (ntohs (sin_port sa)) (cl_connect cl) udp1 = Ret udp2"
    using udp(4) by (metis returns_iff)
  define f where "f = (open_infile content)\<lparr>in_rest := drop 512 content\<rparr>"
  have f0: "ifstream_read 512 (open_infile content) = (chunk 512 0 content, f)"
    by (subst ifstream_read_healthy) (use long in \<open>simp_all add: open_infile_def f_def chunk_def\<close>)
  have f: "\<not> ifstream_fail f" "in_fault f = None" "\<not> in_err f" "fst (ifstream_read 512 f) = chunk 512 1 content"
    by (simp_all add: ifstream_read_healthy f_def open_infile_def ifstream_fail_def chunk_def)
  have trunc: "take DATA_PKT_MAX_SIZE (serialise_ack_packet p) = serialise_ack_packet p" for p
    by (simp add: DATA_PKT_MAX_SIZE_def)
  have "send_file cl filename server mode local_interface sa0 (acked sa 0 # inputs) =
      obind (send_file_loop mode 1 \<lparr>pkt_data = file_block mode (chunk 512 0 content), data_block_number = 1\<rparr> inputs f)
        (\<lambda>(r, os). Ret \<lparr>res_ok = r, res_request = sent, res_sent = os, res_file = None\<rparr>)"
    using udp(1,2) sent udp2 assms(2) f0 f(1)
    by (simp add: send_file_def trunc deserialise_serialise_ack)
  with f(2-4) show ?thesis by blast
qed

lemma long_file_two_blocks:
  assumes "client_ready cl server local_interface"
    and "cl_ifstream cl filename = Some (open_infile content)" and long: "512 \<le> length content"
  shows "\<exists>sent f. send_file cl filename server mode local_interface sa0 (acked sa 0 # acked sa n # inputs) =
     obind (send_file_loop mode 2 \<lparr>pkt_data = file_block mode (chunk 512 1 content), data_block_number = 2\<rparr> inputs f)
       (\<lambda>(r, os). Ret \<lparr>res_ok = r, res_request = sent, res_sent = file_datagram mode content 1 # os, res_file = None\<rparr>) \<and>
     in_fault f = None \<and> \<not> in_err f"
proof -
  let ?p = "\<lparr>pkt_data = file_block mode (chunk 512 0 content), data_block_number = 1\<rparr>"
  from long_file_starts [OF assms, of mode sa0 sa "acked sa n # inputs"] obtain sent f where
    f: "send_file cl filename server mode local_interface sa0 (acked sa 0 # acked sa n # inputs) =
     obind (send_file_loop mode 1 ?p (acked sa n # inputs) f)
       (\<lambda>(r, os). Ret \<lparr>res_ok = r, res_request = sent, res_sent = os, res_file = None\<rparr>)"
    "in_fault f = None" "\<not> in_err f" "fst (ifstream_read 512 f) = chunk 512 1 content" by blast
  then obtain f' where f': "ifstream_read 512 f = (chunk 512 1 content, f')" by (metis prod.collapse)
  with ifstream_read_no_error [OF f(2,3), of 512] have ok: "in_fault f' = None" "\<not> in_err f'" by auto
  have "\<not> length (pkt_data ?p) < 512"
    using long file_block_length [of "chunk 512 0 content" mode] by (simp add: chunk_def)
  from send_file_loop_step(3) [OF f(2,3) f' this, of mode 1 sa n inputs] f(1) ok show ?thesis
    by (fastforce simp: obind_assoc case_prod_beta')
qed

lemma long_file_upload:
  assumes "client_ready cl server local_interface"
    and "cl_ifstream cl filename = Some (open_infile content)" and "512 \<le> length content"
  shows "\<exists>r. send_file cl filename server mode local_interface sa0 [acked sa 0, ((0, b), x)] = Ret r \<and>
      \<not> res_ok r \<and> res_sent r = [file_datagram mode content 1]"
    and "send_file cl filename server mode local_interface sa0 [acked sa 0, acked sa n] = Diverges"
    and "\<exists>r. send_file cl filename server mode local_interface sa0 [acked sa 0, acked sa n, ((0, b), x)] = Ret r \<and>
      \<not> res_ok r \<and> res_sent r = [file_datagram mode content 1, file_datagram mode content 2]"
proof -
  note two = long_file_two_blocks [OF assms, of mode sa0 sa n]
  from long_file_starts [OF assms, of mode sa0 sa "[((0, b), x)]"] obtain sent f where f:
    "send_file cl filename server mode local_interface sa0 [acked sa 0, ((0, b), x)] =
     obind (send_file_loop mode 1 \<lparr>pkt_data = file_block mode (chunk 512 0 content), data_block_number = 1\<rparr> [((0, b), x)] f)
       (\<lambda>(r, os). Ret \<lparr>res_ok = r, res_request = sent, res_sent = os, res_file = None\<rparr>)"
    "in_fault f = None" "\<not> in_err f" by blast
  obtain d f' where "ifstream_read 512 f = (d, f')" by force
  with f send_file_loop_step(2) [OF f(2,3)]
  show "\<exists>r. send_file cl filename server mode local_interface sa0 [acked sa 0, ((0, b), x)] = Ret r \<and>
      \<not> res_ok r \<and> res_sent r = [file_datagram mode content 1]" by simp
  from two [of "[]"] obtain sent f where f:
    "send_file cl filename server mode local_interface sa0 [acked sa 0, acked sa n] =
     obind (send_file_loop mode 2 \<lparr>pkt_data = file_block mode (chunk 512 1 content), data_block_number = 2\<rparr> [] f)
       (\<lambda>(r, os). Ret \<lparr>res_ok = r, res_request = sent, res_sent = file_datagram mode content 1 # os, res_file = None\<rparr>)"
    "in_fault f = None" "\<not> in_err f" by blast
  obtain d f' where "ifstream_read 512 f = (d, f')" by force
  with f send_file_loop_step(1) [OF f(2,3)]
  show "send_file cl filename server mode local_interface sa0 [acked sa 0, acked sa n] = Diverges" by simp
  from two [of "[((0, b), x)]"] obtain sent f where f:
    "send_file cl filename server mode local_interface sa0 [acked sa 0, acked sa n, ((0, b), x)] =
     obind (send_file_loop mode 2 \<lparr>pkt_data = file_block mode (chunk 512 1 content), data_block_number = 2\<rparr> [((0, b), x)] f)
       (\<lambda>(r, os). Ret \<lparr>res_ok = r, res_request = sent, res_sent = file_datagram mode content 1 # os, res_file = None\<rparr>)"
    "in_fault f = None" "\<not> in_err f" by blast
  obtain d f' where "ifstream_read 512 f = (d, f')" by force
  with f send_file_loop_step(2) [OF f(2,3)]
  show "\<exists>r. send_file cl filename server mode local_interface sa0 [acked sa 0, acked sa n, ((0, b), x)] = Ret r \<and>
      \<not> res_ok r \<and> res_sent r = [file_datagram mode content 1, file_datagram mode content 2]"
    by simp
qed

text \<open>
  Of what a converted block the server gets - the first 508 bytes - it decodes a prefix of the block, or, if
  that cuts a CR pair, nothing.
\<close>

lemma file_block_prefix:
  assumes "\<not> (mode = NETASCII \<and> last (take n (file_block mode d)) = CR)"
  shows "\<exists>x. mode_decode mode (take n (file_block mode d)) = Ret x \<and> prefix x d"
proof (cases mode)
  case OCTET
  then show ?thesis by (simp add: mode_decode_def file_block_def take_is_prefix)
next
  case NETASCII
  have "netascii_to_native (take n (native_to_netascii d) @ drop n (native_to_netascii d)) = Ret d"
    by (simp add: netascii_roundtrip)
  from netascii_prefix_whole [OF this] assms NETASCII show ?thesis
    by (auto simp: mode_decode_def file_block_def)
qed

lemma file_block_cut:
  assumes "last (take n (file_block NETASCII d)) = CR" and "take n (file_block NETASCII d) \<noteq> []"
  shows "netascii_to_native (take n (file_block NETASCII d)) =
    Throw (Runtime_error ''Invalid character sequence : EOL after CR'')"
  using netascii_prefix_CR [of "take n (native_to_netascii d)" "drop n (native_to_netascii d)" d] assms
  by (simp add: netascii_roundtrip file_block_def)

end
