(* ===== verification/Demo.thy ===== *)
theory Demo
  imports Service Read_Transfer Write_Session Client
begin

text \<open>
  A concrete system, server and client at which the properties are instantiated: the root is
  \<open>/srv\<close>, every path is canonical, every file has the same content, and all system calls
  succeed.
\<close>

definition demo_system :: "bool \<Rightarrow> bytes \<Rightarrow> system" where
  "demo_system e content =
     \<lparr>sys_socket = Inr 5, sys_setsockopt = None, sys_bind = None, sys_connect = None,
      sys_getfl = None, sys_setfl = None, sys_timerfd = Inr 6, sys_cwd = bytes_of ''/srv'',
      sys_weakly_canonical = Some, sys_exists = (\<lambda>_. Some e), sys_stat = (\<lambda>_. Some (length content)),
      sys_fopen_r = (\<lambda>_. Inr (open_infile content)), sys_fopen_w = (\<lambda>_. Inr (open_outfile None)),
      sys_mtu = (0, 1500)\<rparr>"

definition demo_client :: sockaddr_in where
  "demo_client = \<lparr>sin_port = htons 1069, sin_addr = In_addr 127 0 0 1\<rparr>"

definition demo_request :: "packet_t \<Rightarrow> mode_t \<Rightarrow> tftp_option list \<Rightarrow> rw_packet_t" where
  "demo_request type mode options =
     \<lparr>rw_type = type, rw_filename = bytes_of ''a'', rw_mode = mode, rw_options = options\<rparr>"

definition demo_event :: "bool \<Rightarrow> bool \<Rightarrow> event_flags" where
  "demo_event i out = \<lparr>ev_in = i, ev_out = out, ev_err = False\<rparr>"

lemma demo_simps [simp]:
  "rw_type (demo_request type mode options) = type"
  "rw_mode (demo_request type mode options) = mode"
  "rw_options (demo_request type mode options) = options"
  "sys_fopen_r (demo_system e content) p = Inr (open_infile content)"
  "sys_fopen_w (demo_system e content) p = Inr (open_outfile None)"
  by (simp_all add: demo_request_def demo_system_def)

lemma demo_mtu: "sys_mtu (demo_system e content) = (0, 1500)"
  by (simp add: demo_system_def)

lemma demo_ready [simp]: "system_ready (demo_system e content)"
  by (simp add: system_ready_def demo_system_def)

lemma new_connection_exists:
  assumes "system_ready sys" and "is_operation_allowed sys (rw_filename req) (rw_type req) = Ret e"
  shows "\<exists>c. new_connection sys req cl = Ret c"
  using assms
  by (cases e)
    (auto simp: system_ready_def new_connection_def udp_new_def timer_new_def udp_bind_def udp_connect_sa_def
       udp_set_non_blocking_def Let_def)

lemma demo_allowed:
  "is_operation_allowed (demo_system True content) (rw_filename (demo_request READ mode options)) READ = Ret None"
  "is_operation_allowed (demo_system False content) (rw_filename (demo_request WRITE mode options)) WRITE = Ret None"
  by (simp_all add: is_operation_allowed_def demo_system_def demo_request_def filesystem_def bytes_of_def
      path_append_def is_subpath_def path_elems_def Let_def)

lemma demo_new:
  "\<exists>c. new_connection (demo_system True content) (demo_request READ mode options) cl = Ret c"
  "\<exists>c. new_connection (demo_system False content) (demo_request WRITE mode options) cl = Ret c"
  using demo_allowed by (auto intro!: new_connection_exists)

lemma demo_blksize:
  assumes "new_connection sys (demo_request type mode [(BLKSIZE_OPT, to_string n)]) cl = Ret c"
    and "is_operation_allowed sys (rw_filename (demo_request type mode [(BLKSIZE_OPT, to_string n)])) type = Ret None"
    and "sys_mtu sys = (0, 1500)" and "n < 1500"
  shows "block_len c = n" and "oack_options (c_oack_packet c) \<noteq> []"
proof -
  have opt: "c_str (fst (BLKSIZE_OPT, to_string n)) = BLKSIZE_OPT"
    by (simp add: c_str_def BLKSIZE_OPT_def bytes_of_def)
  have n: "stoul (snd (BLKSIZE_OPT, to_string n)) = Ret (of_nat n)"
    using assms(4) by (simp add: stoul_to_string)
  note set = new_connection_blksize [OF assms(1) _ demo_simps(3) opt n] 
  have "unat (of_nat n :: 64 word) = n" using assms(4) by (simp add: unat_of_nat)
  with set(1) assms(2-4) show "block_len c = n" by (simp add: Let_def get_mtu_def unat_of_nat)
  from set(2) assms(2) show "oack_options (c_oack_packet c) \<noteq> []" by simp
qed

text \<open>A session that has sent its first datagram.\<close>

lemma demo_sent:
  "\<exists>c d c'. new_connection (demo_system True [1, 2, 3]) (demo_request READ OCTET []) demo_client = Ret c \<and>
     session_run c [d] c'"
proof -
  obtain c where c: "new_connection (demo_system True [1, 2, 3]) (demo_request READ OCTET []) demo_client = Ret c"
    using demo_new(1) by blast
  note start = new_read_session [OF c demo_simps(1) demo_allowed(1) demo_simps(4)]
  from start(8) have "oack_options (c_oack_packet c) = []" by simp
  with start(1-3) obtain c1 d where "handle_write (1, 0) c = Ret (c1, [d])"
    using read_round [of "block_len c" _ _ 1 c "(1, 0)"] by fastforce
  then have "session_step c (Ev_write (1, 0)) [d] c1" by (rule step_write)
  then have "session_run c [d] c1" by (rule run_single)
  with c show ?thesis by blast
qed

definition demo_client_system :: "bytes \<Rightarrow> client_system" where
  "demo_client_system content =
     \<lparr>cl_socket = Inr 5, cl_setsockopt = None, cl_bind = None, cl_connect = None,
      cl_ofstream = (\<lambda>_. Some (open_outfile None)), cl_ifstream = (\<lambda>_. Some (open_infile content))\<rparr>"

abbreviation demo_host :: bytes where "demo_host \<equiv> dotted_quad (In_addr 127 0 0 1)"

lemma demo_client_ready [simp]: "client_ready (demo_client_system content) demo_host []"
  by (simp add: client_ready_def demo_client_system_def del: dotted_quad.simps)

text \<open>A server with the given connections, room for \<open>n\<close> of them, and the given queue.\<close>

definition demo_server :: "nat \<Rightarrow> request_t list \<Rightarrow> conn list \<Rightarrow> server" where
  "demo_server n queue conns =
     \<lparr>sv_max_clients = n, sv_exit_requested = False,
      sv_epoll = registrations (enumerate 0 conns),
      sv_conn_handler = \<lparr>h_udp = \<lparr>udp_sd = 3, udp_flags = 0, udp_local = None, udp_peer = None\<rparr>,
        h_request_queue = queue\<rparr>,
      sv_client_connections = enumerate 0 conns, sv_next = length conns\<rparr>"

definition demo_conn :: conn where
  "demo_conn = initial_connection \<lparr>udp_sd = 5, udp_flags = 0, udp_local = None, udp_peer = None\<rparr>
     \<lparr>tm_fd = 6, tm_left = None, tm_expirations = 0\<rparr> READ demo_client"

lemma demo_conn_inv: "session_inv demo_conn"
  by (simp add: session_inv_def direction_ok_def demo_conn_def initial_connection_def MAX_TIMEOUTS_def
      new_read_file_def)

lemma demo_server_inv:
  "length conns \<le> n \<Longrightarrow> \<forall>c \<in> set conns. session_inv c \<Longrightarrow> server_inv (demo_server n queue conns)"
  by (auto simp: server_inv_def demo_server_def dest: set_zip_rightD simp: enumerate_eq_zip set_zip)

end
