(* ===== verification/Data_Props.thy ===== *)
theory Data_Props
  imports Demo
begin

text \<open>
  The properties of the formats and files: requests and packets on the wire, netascii, and the
  two file classes.
\<close>

section \<open>Packets\<close>

text \<open>
  C37: A request as RFC 2347 lays it out, the file name, the mode in any case, and option names with
  values, all NUL-terminated, is parsed to that request with the options in upper case.
\<close>

theorem request_parsed:
  assumes "t = READ \<or> t = WRITE" and "nul_free f" and "nul_free m" and "nul_free_options opts"
    and "string_to_mode_t m = Some mode"
  shows "deserialise_rw_packet (b # packet_code t # nul_terminated (f # m # option_strings opts)) =
    Some \<lparr>rw_type = t, rw_filename = f, rw_mode = mode, rw_options = map upcase_option opts\<rparr>"
  using assms by (rule deserialise_rw_packet_request)

theorem request_parsed_witness:
  "deserialise_rw_packet
     (0 # packet_code READ # nul_terminated ([97] # bytes_of ''octet'' # option_strings [([116], [53])])) =
   Some \<lparr>rw_type = READ, rw_filename = [97], rw_mode = OCTET, rw_options = [([84], [53])]\<rparr>"
proof -
  have "string_to_mode_t (bytes_of ''octet'') = Some OCTET" by code_simp
  moreover have "nul_free (bytes_of ''octet'')" by (simp add: nul_free_def bytes_of_def)
  moreover have "map upcase_option [([116], [53])] = [([84], [53])]" by code_simp
  ultimately show ?thesis
    using request_parsed [of READ "[97]" "bytes_of ''octet''" "[([116], [53])]" OCTET 0]
    by (simp add: nul_free_def)
qed

text \<open>
  C38: A request is read back with type, file name and mode intact and without its options, which
  \<open>serialise_rw_packet\<close> does not write; DATA and ACK packets of any content and any block number are read
  back unchanged, OACK packets if their names and values hold no NUL, and ERROR packets with their message
  if it holds none; their code comes back if its bit 7 is clear, as it is for the codes of the protocol,
  otherwise the low byte is sign-extended over the high one.
\<close>

theorem packets_roundtrip:
  assumes "rw_type rp = READ \<or> rw_type rp = WRITE" and "nul_free (rw_filename rp)"
    and "\<forall>opt \<in> set (oack_options op). nul_free (fst opt) \<and> nul_free (snd opt)" and "nul_free (error_msg ep)"
  shows "deserialise_rw_packet (serialise_rw_packet rp) = Some (rp\<lparr>rw_options := []\<rparr>) \<and>
    deserialise_data_packet (serialise_data_packet dp) = Some dp \<and>
    deserialise_ack_packet (serialise_ack_packet ap) = Some ap \<and>
    deserialise_oack_packet (serialise_oack_packet op) = Some op \<and>
    deserialise_error_packet (serialise_error_packet ep) =
      Some (ep\<lparr>error_code := (if bit (error_code ep) 7 then 0xFF00 OR error_code ep else error_code ep)\<rparr>)"
proof -
  have "serialise_rw_packet rp = serialise_rw_packet (rp\<lparr>rw_options := []\<rparr>)"
    by (simp add: serialise_rw_packet_def)
  with assms(1,2) have "deserialise_rw_packet (serialise_rw_packet rp) = Some (rp\<lparr>rw_options := []\<rparr>)"
    using deserialise_serialise_rw [of "rp\<lparr>rw_options := []\<rparr>"] by (simp add: valid_rw_def)
  with assms(3) deserialise_serialise_error_code [OF assms(4), of "error_code ep"]
    deserialise_serialise_oack [of op]
  show ?thesis
    by (cases ep) (simp add: deserialise_serialise_data deserialise_serialise_ack valid_oack_def nul_free_options_def)
qed

theorem packets_roundtrip_witness:
  "deserialise_rw_packet (serialise_rw_packet
     \<lparr>rw_type = WRITE, rw_filename = [97, 98], rw_mode = NETASCII, rw_options = [([84], [53])]\<rparr>) =
     Some \<lparr>rw_type = WRITE, rw_filename = [97, 98], rw_mode = NETASCII, rw_options = []\<rparr> \<and>
   deserialise_oack_packet (serialise_oack_packet \<lparr>oack_options = [([84], [53]), ([66], [49, 50])]\<rparr>) =
     Some \<lparr>oack_options = [([84], [53]), ([66], [49, 50])]\<rparr> \<and>
   deserialise_error_packet (serialise_error_packet \<lparr>error_msg = [104, 105], error_code = 0x0080\<rparr>) =
     Some \<lparr>error_msg = [104, 105], error_code = 0xFF80\<rparr>"
proof -
  have "bit (0x0080 :: u16) 7" and "0xFF00 OR (0x0080 :: u16) = 0xFF80" by code_simp+
  then show ?thesis
    using packets_roundtrip
        [of "\<lparr>rw_type = WRITE, rw_filename = [97, 98], rw_mode = NETASCII, rw_options = [([84], [53])]\<rparr>"
          "\<lparr>oack_options = [([84], [53]), ([66], [49, 50])]\<rparr>" "\<lparr>error_msg = [104, 105], error_code = 0x0080\<rparr>"]
    by (simp add: nul_free_def)
qed

text \<open>
  The formats are disjoint: what one of the four server-side formats serialises, the parsers of
  the other three and of requests refuse.
\<close>

lemma formats_disjoint:
  "deserialise_ack_packet (serialise_data_packet dp) = None \<and>
   deserialise_error_packet (serialise_data_packet dp) = None \<and>
   deserialise_oack_packet (serialise_data_packet dp) = None \<and>
   deserialise_rw_packet (serialise_data_packet dp) = None \<and>
   deserialise_data_packet (serialise_ack_packet ap) = None \<and>
   deserialise_error_packet (serialise_ack_packet ap) = None \<and>
   deserialise_oack_packet (serialise_ack_packet ap) = None \<and>
   deserialise_rw_packet (serialise_ack_packet ap) = None \<and>
   deserialise_data_packet (serialise_error_packet ep) = None \<and>
   deserialise_ack_packet (serialise_error_packet ep) = None \<and>
   deserialise_oack_packet (serialise_error_packet ep) = None \<and>
   deserialise_rw_packet (serialise_error_packet ep) = None \<and>
   deserialise_data_packet (serialise_oack_packet op) = None \<and>
   deserialise_ack_packet (serialise_oack_packet op) = None \<and>
   deserialise_error_packet (serialise_oack_packet op) = None \<and>
   deserialise_rw_packet (serialise_oack_packet op) = None"
  by (intro conjI data_codec.decode_other_tag ack_codec.decode_other_tag error_codec.decode_other_tag
      oack_codec.decode_other_tag rw_codec.decode_other_tag)
    (simp_all add: serialise_defs)

section \<open>Netascii\<close>

text \<open>C39: Every byte string survives the conversion to netascii and back.\<close>

theorem netascii_conversion_roundtrip:
  "netascii_to_native (native_to_netascii xs) = Ret xs"
  by (rule netascii_roundtrip)

section \<open>Files\<close>

text \<open>
  C40: Reading an opened file in blocks of \<open>n\<close>, up to the first short one, yields its bytes, converted
  to netascii in that mode, in order and without loss at the block boundaries.
\<close>

theorem read_file_delivers:
  assumes "rf_open (Inr (open_infile content)) mode new_read_file = (rf, r)" and "0 < n"
  shows "\<exists>bs rf'. read_blocks read_in_to n (Suc (length (rf_convert mode content) div n)) rf = Ret (bs, rf') \<and>
    concat bs = rf_convert mode content \<and> rf_pending rf' = []"
  using rf_source.blocks_deliver_all [OF rf_inv_open(2) [OF assms(1)] assms(2)]
  by (simp add: rf_inv_open(3) [OF assms(1)])

theorem read_file_delivers_witness:
  "\<exists>bs rf'. read_blocks read_in_to 2
       (Suc (length (rf_convert NETASCII [65, LF, 66]) div 2))
       (fst (rf_open (Inr (open_infile [65, LF, 66])) NETASCII new_read_file)) = Ret (bs, rf') \<and>
     concat bs = rf_convert NETASCII [65, LF, 66]"
proof -
  let ?open = "rf_open (Inr (open_infile [65, LF, 66])) NETASCII new_read_file"
  have "?open = (fst ?open, snd ?open)" by simp
  from read_file_delivers [OF this, of 2] show ?thesis by auto
qed

end
