(* ===== verification/Stop_And_Wait.thy ===== *)
theory Stop_And_Wait
  imports Read_Transfer Write_Session
begin

text \<open>
  What a download promises, as a small abstract machine with unbounded block numbers - a
  stop-and-wait sender - and the simulation that shows that a session implements it.
\<close>

subsection \<open>The sender\<close>

text \<open>
  The sender is at a block (block 0 is the OACK) or has failed.  It may repeat its datagram, goes on
  only when the ACK with the number of its block, modulo \<open>2^16\<close>, arrives, and only past a full
  block; it may fail at any time, and after that sends nothing but ERRORs.
\<close>

datatype sender = At nat | Failed

inductive sender_step ::
  "nat \<Rightarrow> bytes \<Rightarrow> oack_packet_t \<Rightarrow> sender \<Rightarrow> session_event \<Rightarrow> bytes list \<Rightarrow> sender \<Rightarrow> bool"
  for n S oack where
  offer: "sender_step n S oack (At 0) (Ev_write a) [serialise_oack_packet oack] (At 0)"
| send: "1 \<le> k \<Longrightarrow> (k - 1) * n \<le> length S \<Longrightarrow>
    sender_step n S oack (At k) (Ev_write a) [serialise_data_packet (nth_data_packet n S k)] (At k)"
| acked: "deserialise_ack_packet (take ACK_PKT_MAX_SIZE d) = Some \<lparr>ack_block_number = of_nat k\<rparr> \<Longrightarrow>
    k = 0 \<or> length (chunk n (k - 1) S) = n \<Longrightarrow>
    sender_step n S oack (At k) (Ev_read (Datagram d)) [] (At (Suc k))"
| fail: "sender_step n S oack s e [] Failed"
| report: "sender_step n S oack Failed (Ev_write a) [serialise_error_packet p] Failed"
| idle: "sender_step n S oack s e [] s"

definition sender_of :: "nat \<Rightarrow> conn \<Rightarrow> sender" where
  "sender_of k c = (if c_state c = STATE_ERROR then Failed else At k)"

text \<open>\<open>read_inv_at\<close> is the simulation relation, for a session that stands at block \<open>k\<close>.\<close>

definition sends_as :: "nat \<Rightarrow> bytes \<Rightarrow> oack_packet_t \<Rightarrow> conn \<Rightarrow> sender \<Rightarrow> bool" where
  "sends_as n S oack c s \<longleftrightarrow> (\<exists>k. read_inv_at n S oack k c \<and> s = sender_of k c)"

lemma sends_as_same:
  assumes "read_inv_at n S oack k c'" and "c_state c = STATE_ERROR \<Longrightarrow> c_state c' = STATE_ERROR"
  shows "\<exists>s'. sender_step n S oack (sender_of k c) e [] s' \<and> sends_as n S oack c' s'"
  using assms
  by (intro exI [of _ "sender_of k c'"])
    (auto simp: sends_as_def sender_of_def intro: sender_step.fail sender_step.idle)

lemma sends_as_step:
  assumes "sends_as n S oack c s" and "session_step c e os c'"
  shows "\<exists>s'. sender_step n S oack s e os s' \<and> sends_as n S oack c' s'"
proof -
  from assms(1) obtain k where k: "read_inv_at n S oack k c" and s: "s = sender_of k c"
    by (auto simp: sends_as_def)
  from assms(2) show ?thesis
  proof (cases rule: session_step.cases)
    case (step_read a)
    from read_inv_at_handle_read [OF k step_read(3)] show ?thesis
    proof
      assume "read_inv_at n S oack k c'"
      from sends_as_same [OF this error_absorbing_read [OF step_read(3)]] step_read(2) s show ?thesis by simp
    next
      assume "(\<exists>d. a = Datagram d \<and> advances n S k (take ACK_PKT_MAX_SIZE d)) \<and>
        read_inv_at n S oack (Suc k) c' \<and> c_state c = WAIT_FOR_ACK \<and> c_state c' = SEND_DATA"
      then obtain d where "a = Datagram d" "advances n S k (take ACK_PKT_MAX_SIZE d)"
        and c': "read_inv_at n S oack (Suc k) c'" "c_state c = WAIT_FOR_ACK" "c_state c' = SEND_DATA" by auto
      then have "sender_step n S oack s e os (At (Suc k))"
        using step_read(1,2) s by (auto simp: sender_of_def advances_def intro: sender_step.acked)
      with c' show ?thesis by (auto simp: sends_as_def sender_of_def)
    qed
  next
    case (step_write a)
    note inv = read_inv_at_handle_write [OF k step_write(2)]
    from inv(2) consider "os = []"
      | "c_state c \<noteq> STATE_ERROR" "c_state c' \<noteq> STATE_ERROR" "k = 0" "os = [serialise_oack_packet oack]"
      | "c_state c \<noteq> STATE_ERROR" "c_state c' \<noteq> STATE_ERROR" "1 \<le> k" "(k - 1) * n \<le> length S"
        "os = [serialise_data_packet (nth_data_packet n S k)]"
      | p where "c_state c = STATE_ERROR" "os = [serialise_error_packet p]" by blast
    then show ?thesis
    proof cases
      case 1
      from sends_as_same [OF inv(1,3)] 1 s show ?thesis by simp
    next
      case 2
      then have "sender_step n S oack s e os (At k)"
        using step_write(1) s by (auto simp: sender_of_def intro: sender_step.offer)
      with inv(1) 2(2) show ?thesis by (auto simp: sends_as_def sender_of_def)
    next
      case 3
      then have "sender_step n S oack s e os (At k)"
        using step_write(1) s by (auto simp: sender_of_def intro: sender_step.send)
      with inv(1) 3(2) show ?thesis by (auto simp: sends_as_def sender_of_def)
    next
      case 4
      then have "sender_step n S oack s e os Failed"
        using step_write(1) s by (auto simp: sender_of_def intro: sender_step.report)
      with inv(1) inv(3) [OF 4(1)] show ?thesis by (auto simp: sends_as_def sender_of_def)
    qed
  next
    case (step_elapse t)
    have "read_inv_at n S oack k c'"
      using k step_elapse(3) by (auto simp: read_inv_defs elapse_def split: option.splits)
    from sends_as_same [OF this] step_elapse s show ?thesis by simp
  next
    case step_hangup
    have "read_inv_at n S oack k c'"
      using k step_hangup(3) by (auto simp: read_inv_defs c_set_finished_def)
    from sends_as_same [OF this] step_hangup s show ?thesis by (simp add: c_set_finished_def)
  qed
qed

interpretation download: simulation session_step "sender_step n S oack" "sends_as n S oack"
  for n S oack
  by unfold_locales (rule sends_as_step)

text \<open>
  What the machine guarantees: to stand at block \<open>k\<close> it was given the ACKs of all blocks before it,
  in order.
\<close>

definition acks_in :: "(session_event \<times> bytes list) list \<Rightarrow> u16 list" where
  "acks_in tr = List.map_filter (\<lambda>(e, os).
     (case e of
        Ev_read (Datagram d) \<Rightarrow> map_option ack_block_number (deserialise_ack_packet (take ACK_PKT_MAX_SIZE d))
      | _ \<Rightarrow> None)) tr"

lemma acks_in_append [simp]: "acks_in (tr @ tr') = acks_in tr @ acks_in tr'"
  by (simp add: acks_in_def List.map_filter_def)

lemma sender_needs_acks:
  "exec (sender_step n S oack) s tr s' \<Longrightarrow> s = At j \<Longrightarrow>
   \<forall>k. s' = At k \<longrightarrow> j \<le> k \<and> subseq (map of_nat [j..<k]) (acks_in tr)"
proof (induction rule: exec.induct)
  case (exec_step s tr s' e os s'')
  note IH = exec_step.IH [OF exec_step.prems]
  have same: "j \<le> k \<and> subseq (map of_nat [j..<k]) (acks_in (tr @ [(e, os)]))" if "s' = At k" for k
    using IH that by auto
  from exec_step.hyps(2) show ?case
  proof (cases rule: sender_step.cases)
    case (acked d k)
    then have k: "j \<le> k" "subseq (map of_nat [j..<k]) (acks_in tr)" using IH by auto
    have "acks_in [(e, os)] = [of_nat k]" using acked by (simp add: acks_in_def List.map_filter_def)
    moreover have "subseq (map of_nat [j..<k] @ [of_nat k]) (acks_in tr @ [of_nat k])"
      by (rule list_emb_append_mono [OF k(2)]) simp
    ultimately show ?thesis using acked(4) k(1) by (simp add: upt_Suc)
  qed (use same in auto)
qed simp

end
