(* ===== verification/Losses.thy ===== *)
theory Losses
  imports Read_Transfer Timeouts
begin

text \<open>
  Downloads over a network that loses datagrams: for each block the client's ACK comes after a
  number of silent timeouts, because the DATA packet or the ACK was lost.  Up to three of them
  per block do not disturb the transfer.
\<close>

text \<open>
  One entry per block: the timeouts that pass before the client's ACK of the block arrives, each
  with its retransmission.
\<close>

fun lossy_rounds :: "nat list \<Rightarrow> send_answer \<Rightarrow> conn \<Rightarrow> (bytes list \<times> conn) outcome" where
  "lossy_rounds [] a c = Ret ([], c)"
| "lossy_rounds (l # ls) a c =
     (if c_finished c then Ret ([], c)
      else obind (handle_write a c) (\<lambda>(c1, os).
        if os = [] then Ret ([], c1)
        else obind (silent_rounds l a c1) (\<lambda>(os', c2).
          if c_finished c2 then Ret (os @ os', c2)
          else obind (handle_read (Datagram (client_ack (last os))) c2) (\<lambda>c3.
          obind (lossy_rounds ls a c3) (\<lambda>(os'', c4). Ret (os @ os' @ os'', c4))))))"

declare lossy_rounds.simps(2) [simp del]

lemma silent_round_read_inv:
  assumes "read_inv_at n S oack k c" and "0 < k" and "silent_round a c = Ret (c', os)"
  shows "read_inv_at n S oack k c'"
proof -
  have k: "read_inv_at n S oack k (c\<lparr>c_timer := elapse t (c_timer c)\<rparr>)" for t
    using assms(1,2) by (simp add: read_inv_defs)
  from assms(3) obtain c1 where c1:
    "handle_read (Recv_errno EAGAIN) (c\<lparr>c_timer := elapse (unat (c_timeout_s c)) (c_timer c)\<rparr>) = Ret c1"
    "(if c_finished c1 then Ret (c1, []) else handle_write a c1) = Ret (c', os)"
    by (auto simp: silent_round_def outcome_simps)
  from read_inv_at_handle_read [OF k c1(1)] have "read_inv_at n S oack k c1" by auto
  with c1(2) read_inv_at_handle_write(1) show ?thesis by (auto split: if_splits)
qed

text \<open>The wait for the ACK of block \<open>k\<close>, with \<open>j\<close> timeouts counted, and \<open>l\<close> more of them.\<close>

lemma silent_wait:
  assumes "read_inv_at n S oack k c" and "0 < k" and "armed c" and "c_timeout_count c = of_nat j"
    and "j + l \<le> 3" and "\<not> c_finished c" and "0 < fst a"
  shows "\<exists>c'. silent_rounds l a c = Ret (replicate l (last_sent c), c') \<and>
    read_inv_at n S oack k c' \<and> armed c' \<and> \<not> c_finished c' \<and> c_timeout_s c' = c_timeout_s c"
  using assms
proof (induction l arbitrary: j c)
  case (Suc l)
  then have "j = 0 \<or> j = 1 \<or> j = 2" by auto
  with Suc.prems(4) have "\<not> MAX_TIMEOUTS \<le> c_timeout_count c"
    by (auto simp: MAX_TIMEOUTS_def word_le_nat_alt)
  from silent_round_again [OF Suc.prems(3) this Suc.prems(6,7)] obtain c1 where c1:
    "silent_round a c = Ret (c1, [last_sent c])" "armed c1"
    "c_timeout_count c1 = c_timeout_count c + 1" "\<not> c_finished c1" "last_sent c1 = last_sent c"
    "c_timeout_s c1 = c_timeout_s c"
    by blast
  have "c_timeout_count c1 = of_nat (Suc j)" using c1(3) Suc.prems(4) by (simp add: add.commute)
  from Suc.IH [OF silent_round_read_inv [OF Suc.prems(1,2) c1(1)] Suc.prems(2) c1(2) this _ c1(4) Suc.prems(7)]
    Suc.prems(5) obtain c' where c': "silent_rounds l a c1 = Ret (replicate l (last_sent c1), c')"
    "read_inv_at n S oack k c'" "armed c'" "\<not> c_finished c'" "c_timeout_s c' = c_timeout_s c1" by auto
  with c1(1,5,6) Suc.prems(6) show ?case by simp
qed simp

lemma lossy_round:
  assumes inv: "read_inv_at n S oack k c" and st: "c_state c = SEND_DATA" and fin: "\<not> c_finished c"
    and count: "c_timeout_count c = 0" and ok: "timeout_ok c" and l: "l \<le> 3" and a: "0 < fst a"
  shows "\<exists>c1 c2 c3. handle_write a c = Ret (c1, [serialise_data_packet (nth_data_packet n S k)]) \<and>
     silent_rounds l a c1 = Ret (replicate l (serialise_data_packet (nth_data_packet n S k)), c2) \<and>
     \<not> c_finished c2 \<and>
     handle_read (Datagram (client_ack (serialise_data_packet (nth_data_packet n S k)))) c2 = Ret c3 \<and>
     c_timeout_count c3 = 0 \<and> timeout_ok c3 \<and>
     (if length (chunk n (k - 1) S) < n then c_finished c3
      else read_inv_at n S oack (Suc k) c3 \<and> c_state c3 = SEND_DATA \<and> \<not> c_finished c3)"
proof -
  from read_send [OF inv st a] obtain c1 where c1:
    "handle_write a c = Ret (c1, [serialise_data_packet (nth_data_packet n S k)])"
    "read_inv_at n S oack k c1" "c_state c1 = WAIT_FOR_ACK" "c_pkt_ready c1" "0 < k"
    "c_timer c1 = arm_timer (unat (c_timeout_s c)) (c_timer c)" "\<not> c_finished c1"
    "c_timeout_count c1 = 0" "c_timeout_s c1 = c_timeout_s c"
    using fin count by auto
  have armed: "armed c1"
    using c1(3,4,6,9) ok arm_timeout_ok [OF ok] by (simp add: armed_def arm_timer_def timeout_ok_def)
  have sent: "last_sent c1 = serialise_data_packet (nth_data_packet n S k)"
    using c1(2-4) by (simp add: last_sent_def read_inv_at_def)
  have "c_timeout_count c1 = of_nat 0" using c1(8) by simp
  from silent_wait [OF c1(2,5) armed this _ c1(7) a, of l] l obtain c2 where c2:
    "silent_rounds l a c1 = Ret (replicate l (last_sent c1), c2)" "read_inv_at n S oack k c2"
    "armed c2" "\<not> c_finished c2" "c_timeout_s c2 = c_timeout_s c1" by auto
  then have "c_state c2 = WAIT_FOR_ACK" "c_pkt_ready c2" "tm_expirations (c_timer c2) = 0"
    by (auto simp: armed_def read_inv_at_def)
  from read_acked [OF c2(2) this c2(4) c1(5)] c1(1,9) c2 ok show ?thesis
    by (auto simp: sent timeout_ok_def)
qed

lemma lossy_blocks:
  assumes "read_inv_at n S oack k c" and "c_state c = SEND_DATA" and "\<not> c_finished c"
    and "c_timeout_count c = 0" and "timeout_ok c" and "0 < fst a" and "0 < n" and "1 \<le> k"
    and "k + length ls = length S div n + 2" and "ls \<noteq> []" and "\<forall>l \<in> set ls. l \<le> 3"
  shows "\<exists>c'. lossy_rounds ls a c =
     Ret (concat (map (\<lambda>(l, i). replicate (Suc l) (serialise_data_packet (nth_data_packet n S i)))
       (zip ls [k..<length S div n + 2])), c') \<and> c_finished c'"
  using assms
proof (induction ls arbitrary: k c)
  case (Cons l ls)
  from lossy_round [OF Cons.prems(1-5) _ Cons.prems(6), of l] Cons.prems(11) obtain c1 c2 c3 where c3:
    "handle_write a c = Ret (c1, [serialise_data_packet (nth_data_packet n S k)])"
    "silent_rounds l a c1 = Ret (replicate l (serialise_data_packet (nth_data_packet n S k)), c2)"
    "\<not> c_finished c2"
    "handle_read (Datagram (client_ack (serialise_data_packet (nth_data_packet n S k)))) c2 = Ret c3"
    "c_timeout_count c3 = 0" "timeout_ok c3"
    "if length (chunk n (k - 1) S) < n then c_finished c3
      else read_inv_at n S oack (Suc k) c3 \<and> c_state c3 = SEND_DATA \<and> \<not> c_finished c3" by auto
  have short: "length (chunk n (k - 1) S) < n \<longleftrightarrow> ls = []"
    using Cons.prems(7-9) by (subst chunk_short_iff) (auto simp flip: length_0_conv)
  have upt: "[k..<length S div n + 2] = k # [Suc k..<length S div n + 2]"
    using Cons.prems(9) by (intro upt_conv_Cons) simp
  have rest: "\<exists>c'. lossy_rounds ls a c3 =
     Ret (concat (map (\<lambda>(l, i). replicate (Suc l) (serialise_data_packet (nth_data_packet n S i)))
       (zip ls [Suc k..<length S div n + 2])), c') \<and> c_finished c'"
  proof (cases "ls = []")
    case True
    with c3(7) short show ?thesis by simp
  next
    case False
    with c3(7) short have "read_inv_at n S oack (Suc k) c3" "c_state c3 = SEND_DATA" "\<not> c_finished c3"
      by simp_all
    from Cons.IH [OF this c3(5,6) Cons.prems(6,7)] Cons.prems(9,11) False show ?thesis by simp
  qed
  then obtain c' where "lossy_rounds ls a c3 =
     Ret (concat (map (\<lambda>(l, i). replicate (Suc l) (serialise_data_packet (nth_data_packet n S i)))
       (zip ls [Suc k..<length S div n + 2])), c')" "c_finished c'" by blast
  with c3(1-4) Cons.prems(3) show ?case
    unfolding upt by (simp add: lossy_rounds.simps(2) del: client_ack_data upt_Suc)
next
  case Nil
  from Nil.prems(10) show ?case by simp
qed

text \<open>
  The round of the OACK, which must not be lost: no timer runs while its ACK is awaited.
\<close>

lemma lossy_oack:
  assumes "read_inv_at n S oack 0 c" and "c_state c = SEND_OACK" and "\<not> c_finished c" and "0 < fst a"
    and "timeout_ok c"
  shows "\<exists>c'. lossy_rounds (0 # ls) a c =
      obind (lossy_rounds ls a c') (\<lambda>(os, c'). Ret (serialise_oack_packet oack # os, c')) \<and>
    read_inv_at n S oack 1 c' \<and> c_state c' = SEND_DATA \<and> \<not> c_finished c' \<and>
    c_timeout_count c' = 0 \<and> timeout_ok c'"
proof -
  let ?c = "c\<lparr>c_state := WAIT_FOR_ACK\<rparr>"
  note sent = oack_send [OF assms(1,2,4)]
  from oack_acked [OF sent(2)] assms(3) obtain c' where c':
    "handle_read (Datagram (client_ack (serialise_oack_packet oack))) ?c = Ret c'"
    "read_inv_at n S oack 1 c'" "c_state c' = SEND_DATA" "\<not> c_finished c'" "c_timeout_count c' = 0"
    "c_timeout_s c' = c_timeout_s c" by auto
  have "lossy_rounds (0 # ls) a c =
      obind (lossy_rounds ls a c') (\<lambda>(os, c'). Ret (serialise_oack_packet oack # os, c'))"
    using assms(3) sent(1) c'(1) by (simp add: lossy_rounds.simps(2) del: client_ack_oack)
  with c' assms(5) show ?thesis by (auto simp: timeout_ok_def)
qed

text \<open>From the constructor: one round per block, after the one of the OACK if there are options.\<close>

lemma lossy_download:
  assumes new: "new_connection sys req cl = Ret c" and "rw_type req = READ"
    and "is_operation_allowed sys (rw_filename req) READ = Ret None"
    and "sys_fopen_r sys (c_str (rw_filename req)) = Inr (open_infile content)"
    and "0 < block_len c" and a: "0 < fst a"
    and len: "length losses = length (rf_convert (rw_mode req) content) div block_len c + 1"
    and l: "\<forall>l \<in> set losses. l \<le> 3"
  defines "S \<equiv> rf_convert (rw_mode req) content" and "oack \<equiv> c_oack_packet c"
  shows "\<exists>c'. lossy_rounds ((if oack_options oack = [] then [] else [0]) @ losses) a c =
      Ret ((if oack_options oack = [] then [] else [serialise_oack_packet oack]) @
        concat (map (\<lambda>(l, i). replicate (Suc l) (serialise_data_packet (nth_data_packet (block_len c) S i)))
          (zip losses [1..<length losses + 1])), c') \<and> c_finished c'"
proof -
  note start = new_read_session [OF assms(1-4)]
  have some: "losses \<noteq> []" using len by auto
  have blocks: "\<exists>c'. lossy_rounds losses a c1 =
     Ret (concat (map (\<lambda>(l, i). replicate (Suc l) (serialise_data_packet (nth_data_packet (block_len c) S i)))
       (zip losses [1..<length losses + 1])), c') \<and> c_finished c'"
    if "read_inv_at (block_len c) S oack 1 c1" "c_state c1 = SEND_DATA" "\<not> c_finished c1"
      "c_timeout_count c1 = 0" "timeout_ok c1" for c1
    using lossy_blocks [OF that a assms(5) order_refl _ some l] len by (simp add: S_def del: upt_Suc)
  show ?thesis
  proof (cases "oack_options oack = []")
    case True
    with start have "read_inv_at (block_len c) S oack 1 c" "c_state c = SEND_DATA"
      by (simp_all add: S_def oack_def)
    from blocks [OF this start(3,5,6)] True show ?thesis by simp
  next
    case False
    with start have "read_inv_at (block_len c) S oack 0 c" "c_state c = SEND_OACK"
      by (simp_all add: S_def oack_def)
    from lossy_oack [OF this start(3) a start(6)] obtain c1 where c1:
      "lossy_rounds (0 # losses) a c =
        obind (lossy_rounds losses a c1) (\<lambda>(os, c'). Ret (serialise_oack_packet oack # os, c'))"
      "read_inv_at (block_len c) S oack 1 c1" "c_state c1 = SEND_DATA" "\<not> c_finished c1"
      "c_timeout_count c1 = 0" "timeout_ok c1" by blast
    from blocks [OF c1(2-6)] c1(1) False show ?thesis by auto
  qed
qed

end
