(* ===== verification/Read_Faults.thy ===== *)
theory Read_Faults
  imports Read_Transfer
begin

text \<open>
  Downloads from a device that may fail.  A connection is compared with its \<open>mended\<close> twin, whose
  stream never fails: until the stream's error indicator is set both do the same, and from then on
  the connection is in the error state.
\<close>

subsection \<open>Streams and readers\<close>

definition mend :: "infile \<Rightarrow> infile" where
  "mend f = f\<lparr>in_fault := None\<rparr>"

lemma mend_simps [simp]:
  "in_rest (mend f) = in_rest f" "in_eof (mend f) = in_eof f" "in_err (mend f) = in_err f"
  "in_fault (mend f) = None"
  by (simp_all add: mend_def)

lemma fread_mend:
  assumes "fread n f = (got, f')" and "\<not> in_err f'"
  shows "fread n (mend f) = (got, mend f')"
proof (cases "in_fault f")
  case None
  with assms(1) show ?thesis by (auto simp: mend_def fread_no_fault)
next
  case (Some k)
  show ?thesis
  proof (cases "k \<le> length (in_rest f)")
    case True
    with assms Some have full: "n \<le> length (take k (in_rest f))" by (auto simp: fread_def Let_def)
    then have "take n (take k (in_rest f)) = take n (in_rest f)" by (simp add: min_absorb1)
    with assms(1) Some True full show ?thesis
      by (auto simp: fread_def Let_def mend_def intro!: infile.equality)
  next
    case False
    with assms(1) Some show ?thesis
      by (auto simp: fread_def Let_def mend_def intro!: infile.equality)
  qed
qed

lemma loops_mend:
  assumes "\<not> in_err f"
  shows "octet_read_loop n [] f = (got, f') \<Longrightarrow> \<not> in_err f' \<Longrightarrow> octet_read_loop n [] (mend f) = (got, mend f')"
    and "netascii_read_loop n [] f = (got, f') \<Longrightarrow> \<not> in_err f' \<Longrightarrow>
      netascii_read_loop n [] (mend f) = (got, mend f')"
proof -
  note once = octet_loop_once [of f n] octet_loop_once [of "mend f" n]
    netascii_loop_once [of f n] netascii_loop_once [of "mend f" n]
  note stop = octet_loop_done [of f n "[]"] octet_loop_done [of "mend f" n "[]"]
    netascii_loop_done [of f n "[]"] netascii_loop_done [of "mend f" n "[]"]
  show "octet_read_loop n [] f = (got, f') \<Longrightarrow> \<not> in_err f' \<Longrightarrow> octet_read_loop n [] (mend f) = (got, mend f')"
    using assms once(1,2) stop(1,2) fread_mend [of n f got f']
    by (cases "in_eof f") (auto split: if_splits)
  show "netascii_read_loop n [] f = (got, f') \<Longrightarrow> \<not> in_err f' \<Longrightarrow>
      netascii_read_loop n [] (mend f) = (got, mend f')"
    using assms once(3,4) stop(3,4) fread_mend [of n f got f']
    by (cases "in_eof f") (auto split: if_splits)
qed

definition mend_reader :: "tftp_read_file \<Rightarrow> tftp_read_file" where
  "mend_reader rf = rf\<lparr>rf_fd := map_option mend (rf_fd rf)\<rparr>"

definition intact :: "tftp_read_file \<Rightarrow> bool" where
  "intact rf \<longleftrightarrow> (case rf_fd rf of None \<Rightarrow> True | Some f \<Rightarrow> \<not> in_err f)"

lemma mend_reader_flags [simp]:
  "rf_error (mend_reader rf) = rf_error rf" "rf_eof (mend_reader rf) = rf_eof rf"
  "intact (mend_reader rf) = intact rf" "rf_overflow (mend_reader rf) = rf_overflow rf"
  by (auto simp: mend_reader_def rf_error_def rf_eof_def intact_def split: option.splits)

lemma read_in_to_mend:
  assumes "read_in_to n rf = Ret (b, rf')" and "intact rf" and "intact rf'"
  shows "read_in_to n (mend_reader rf) = Ret (b, mend_reader rf')"
proof -
  from assms(1) obtain f where f: "rf_fd rf = Some f" using read_in_to_stream by blast
  with assms(2) have err: "\<not> in_err f" by (simp add: intact_def)
  show ?thesis
  proof (cases "rf_mode rf = OCTET")
    case True
    obtain got f' where loop: "octet_read_loop n [] f = (got, f')" by force
    with assms(1,3) f True have "b = got" "rf' = rf\<lparr>rf_fd := Some f'\<rparr>" "\<not> in_err f'"
      by (auto simp: read_in_to_def intact_def)
    with loops_mend(1) [OF err loop] f True show ?thesis
      by (simp add: read_in_to_def mend_reader_def)
  next
    case False
    let ?m = "n - length (rf_overflow rf)"
    obtain raw f' where loop: "netascii_read_loop ?m [] f = (raw, f')" by force
    with assms(1,3) f False have "\<not> in_err f'" "\<not> n < length (rf_overflow rf)"
      by (auto simp: read_in_to_def intact_def split: if_splits)
    with loops_mend(2) [OF err loop] loop f False assms(1) show ?thesis
      by (auto simp: read_in_to_def mend_reader_def)
  qed
qed

lemma rf_error_intact: "rf_error rf = Ret b \<Longrightarrow> intact rf \<longleftrightarrow> \<not> b"
  by (auto simp: rf_error_def intact_def split: option.splits)

subsection \<open>Connections\<close>

definition mend_conn :: "conn \<Rightarrow> conn" where
  "mend_conn c = c\<lparr>c_file_reader := mend_reader (c_file_reader c)\<rparr>"

abbreviation intact_conn :: "conn \<Rightarrow> bool" where
  "intact_conn c \<equiv> intact (c_file_reader c)"

lemma mend_conn_simps [simp]:
  "c_type (mend_conn c) = c_type c" "c_state (mend_conn c) = c_state c"
  "c_timer (mend_conn c) = c_timer c" "c_finished (mend_conn c) = c_finished c"
  "c_block_number (mend_conn c) = c_block_number c" "c_block_size (mend_conn c) = c_block_size c"
  "c_pkt_ready (mend_conn c) = c_pkt_ready c" "c_final_ack (mend_conn c) = c_final_ack c"
  "c_timeout_count (mend_conn c) = c_timeout_count c" "c_timeout_s (mend_conn c) = c_timeout_s c"
  "c_data_pkt (mend_conn c) = c_data_pkt c" "c_error_pkt (mend_conn c) = c_error_pkt c"
  "c_oack_packet (mend_conn c) = c_oack_packet c" "c_file_writer (mend_conn c) = c_file_writer c"
  "c_file_reader (mend_conn c) = mend_reader (c_file_reader c)"
  by (simp_all add: mend_conn_def)

text \<open>\<open>handle_read\<close> neither looks at the reader nor changes it.\<close>

lemma mend_handle_timeout: "handle_timeout (mend_conn c) = mend_conn (handle_timeout c)"
  by (simp add: handle_timeout_def retransmit_def mend_conn_def)

lemma mend_timer_read: "timer_read (mend_conn c) = mend_conn (timer_read c)"
  by (simp add: timer_read_def mend_conn_def)

lemma mend_read_ack: "read_ack d (mend_conn c) = mend_conn (read_ack d c)"
  by (simp add: read_ack_def error_reply_def mend_conn_def Let_def split: option.splits)

lemma mend_read_data: "read_data d c = Ret c' \<Longrightarrow> read_data d (mend_conn c) = Ret (mend_conn c')"
proof (erule read_data_cases)
  fix p fw
  assume p: "deserialise_data_packet d = Some p" "data_block_number p = c_block_number c"
    "wf_write (pkt_data p) (c_file_writer c) = Ret fw"
  have prev: "\<not> is_previous (data_block_number p) (c_block_number c)"
    by (simp add: p(2) not_previous_self)
  show "read_data d (mend_conn c) = Ret (mend_conn c')"
    if "wf_error fw = Ret False" "c' = c\<lparr>c_timeout_count := 0, c_file_writer := fw,
         c_final_ack := c_final_ack c \<or> length (pkt_data p) < block_len c, c_state := SEND_ACK\<rparr>"
    using p prev that by (cases "length (pkt_data p) < block_len c")
      (auto simp: read_data_def mend_conn_def Let_def intro!: tftp_server_connection.equality)
  show "read_data d (mend_conn c) = Ret (mend_conn c')"
    if "wf_error fw = Ret True" "c' = internal_error (c\<lparr>c_timeout_count := 0, c_file_writer := fw\<rparr>)"
    using p prev that by (simp add: read_data_def mend_conn_def internal_error_def)
qed (simp_all add: read_data_def mend_conn_def error_reply_def)

lemma mend_handle_read:
  assumes "handle_read a c = Ret c'"
  shows "handle_read a (mend_conn c) = Ret (mend_conn c')"
  using assms
proof (cases rule: handle_read_cases)
  case timeout
  then show ?thesis by (simp add: handle_read_eq mend_timer_read mend_handle_timeout)
next
  case (ack d)
  then show ?thesis by (simp add: handle_read_eq mend_timer_read mend_read_ack)
next
  case (data d)
  with mend_read_data [OF data(4)] show ?thesis by (simp add: handle_read_eq mend_timer_read)
next
  case idle
  then show ?thesis by (cases "c_state c") (simp_all add: handle_read_eq mend_timer_read)
qed

lemma handle_read_reader:
  assumes "handle_read a c = Ret c'"
  shows "c_file_reader c' = c_file_reader c"
  using assms
proof (cases rule: handle_read_cases)
  case timeout
  then show ?thesis by (cases "timer_read c" rule: handle_timeout_cases) simp_all
next
  case (ack d)
  then show ?thesis by (cases d "timer_read c" rule: read_ack_cases) simp_all
next
  case (data d)
  from data(4) show ?thesis by (cases rule: read_data_cases) (simp_all add: internal_error_def)
qed simp

lemma mend_writes:
  "write_data a (mend_conn c) = (mend_conn (fst (write_data a c)), snd (write_data a c))"
  "write_ack a (mend_conn c) = (mend_conn (fst (write_ack a c)), snd (write_ack a c))"
  "write_oack a (mend_conn c) = (mend_conn (fst (write_oack a c)), snd (write_oack a c))"
  "write_error a (mend_conn c) = (mend_conn (fst (write_error a c)), snd (write_error a c))"
  by (simp_all add: write_defs internal_error_def arm_def mend_conn_def)

text \<open>Preparing a packet: the same, or the stream's error ends the transfer.\<close>

lemma mend_prepare:
  assumes "prepare_data c = Ret (go, c')" and "intact_conn c"
  shows "go \<and> intact_conn c' \<and> prepare_data (mend_conn c) = Ret (True, mend_conn c') \<or>
    \<not> go \<and> c' = internal_error c' \<and> c_state c' = STATE_ERROR"
  using assms(1)
proof (cases rule: prepare_data_cases)
  case ready
  with assms(2) show ?thesis by (simp add: prepare_data_def)
next
  case (failed b rf)
  then show ?thesis by (simp add: internal_error_def)
next
  case (filled b rf)
  have rf: "intact rf" using rf_error_intact [OF filled(4)] by simp
  have read: "read_in_to (block_len c) (mend_reader (c_file_reader c)) = Ret (b, mend_reader rf)"
    using read_in_to_mend [OF filled(3) assms(2) rf] .
  have "rf_fd rf \<noteq> None" using filled(4) by (auto simp: rf_error_def split: option.splits)
  then have "\<exists>e. rf_eof rf = Ret e" by (cases "rf_overflow rf = []") (auto simp: rf_eof_def)
  then obtain e where e: "rf_eof rf = Ret e" ..
  have "prepare_data (mend_conn c) = Ret (True, mend_conn c')"
    using filled read e
    by (cases "length b < block_len c")
      (auto simp: prepare_data_def mend_conn_def Let_def intro!: tftp_server_connection.equality)
  with filled rf show ?thesis by simp
qed

lemma mend_handle_write:
  assumes "handle_write a c = Ret (c', os)" and "intact_conn c"
  shows "intact_conn c' \<and> handle_write a (mend_conn c) = Ret (mend_conn c', os) \<or>
    os = [] \<and> c_state c' = STATE_ERROR"
  using assms(1)
proof (cases rule: handle_write_cases)
  case (data c1)
  have "c_file_reader (fst (write_data a c1)) = c_file_reader c1"
    by (simp add: write_defs internal_error_def arm_def)
  with mend_prepare [OF data(2) assms(2)] data show ?thesis
    by (auto simp: handle_write_def mend_writes)
next
  case no_data
  with mend_prepare [OF no_data(2) assms(2)] show ?thesis by auto
next
  case ack
  have "c_file_reader (fst (write_ack a c)) = c_file_reader c"
    by (simp add: write_defs internal_error_def arm_def)
  with ack assms(2) show ?thesis by (simp add: handle_write_def mend_writes)
next
  case oack
  have "c_file_reader (fst (write_oack a c)) = c_file_reader c" by (simp add: write_defs)
  with oack assms(2) show ?thesis by (simp add: handle_write_def mend_writes)
next
  case error
  have "c_file_reader (fst (write_error a c)) = c_file_reader c" by (simp add: write_defs)
  with error assms(2) show ?thesis by (simp add: handle_write_def mend_writes)
qed

lemma mend_step:
  assumes "session_step c e os c'" and "intact_conn c"
  shows "intact_conn c' \<and> session_step (mend_conn c) e os (mend_conn c') \<or>
    os = [] \<and> c_state c' = STATE_ERROR"
  using assms(1)
proof (cases rule: session_step.cases)
  case (step_read a)
  with mend_handle_read [OF step_read(3)] handle_read_reader [OF step_read(3)] assms(2)
  show ?thesis by (auto intro: session_step.step_read)
next
  case (step_write a)
  with mend_handle_write [OF step_write(2) assms(2)] show ?thesis
    by (auto intro: session_step.step_write)
next
  case (step_elapse s)
  have "mend_conn c' = (mend_conn c)\<lparr>c_timer := elapse s (c_timer (mend_conn c))\<rparr>"
    using step_elapse(3) by (simp add: mend_conn_def)
  with step_elapse assms(2) session_step.step_elapse [of "mend_conn c" s] show ?thesis by simp
next
  case step_hangup
  have "mend_conn c' = c_set_finished True (mend_conn c)"
    using step_hangup(3) by (simp add: mend_conn_def c_set_finished_def)
  with step_hangup assms(2) session_step.step_hangup [of "mend_conn c"] show ?thesis
    by (simp add: c_set_finished_def)
qed

subsection \<open>The session on a faulty device\<close>

definition fault_inv :: "nat \<Rightarrow> bytes \<Rightarrow> oack_packet_t \<Rightarrow> conn \<Rightarrow> bool" where
  "fault_inv n S oack c \<longleftrightarrow>
     intact_conn c \<and> read_inv n S oack (mend_conn c) \<or> c_state c = STATE_ERROR"

lemma fault_inv_step:
  assumes "fault_inv n S oack c" and "session_step c e os c'"
  shows "fault_inv n S oack c' \<and> (\<forall>d \<in> set os. read_output n S oack d)"
proof (cases "c_state c = STATE_ERROR")
  case True
  with error_absorbing_step [OF assms(2)] show ?thesis by (auto simp: fault_inv_def read_output_def)
next
  case False
  with assms(1) have c: "intact_conn c" "read_inv n S oack (mend_conn c)" by (simp_all add: fault_inv_def)
  from mend_step [OF assms(2) c(1)] show ?thesis
  proof
    assume "intact_conn c' \<and> session_step (mend_conn c) e os (mend_conn c')"
    with read_inv_step [OF c(2)] show ?thesis by (auto simp: fault_inv_def)
  qed (simp add: fault_inv_def)
qed

interpretation faulty_read: output_invariant session_step "fault_inv n S oack" "read_output n S oack"
  for n S oack
  by unfold_locales (use fault_inv_step in blast)

lemma process_options_fopen [simp]:
  "process_options (sys\<lparr>sys_fopen_r := g\<rparr>) req c = process_options sys req c"
proof -
  have "process_option (sys\<lparr>sys_fopen_r := g\<rparr>) = process_option sys"
    by (intro ext) (simp add: process_option_def process_blksize_def
      cong: if_cong outcome.case_cong packet_t.case_cong)
  then show ?thesis by (simp add: process_options_def)
qed

lemma is_operation_allowed_fopen [simp]:
  "is_operation_allowed (sys\<lparr>sys_fopen_r := g\<rparr>) f t = is_operation_allowed sys f t"
  by (simp add: is_operation_allowed_def cong: if_cong)

text \<open>A session whose device may fail is, mended, the session of the same file on a sound one.\<close>

lemma new_faulty_session:
  assumes "new_connection sys req cl = Ret c" and "rw_type req = READ"
    and "is_operation_allowed sys (rw_filename req) READ = Ret None"
    and "sys_fopen_r sys (c_str (rw_filename req)) = Inr f" and "mend f = open_infile content"
  shows "new_connection (sys\<lparr>sys_fopen_r := \<lambda>_. Inr (open_infile content)\<rparr>) req cl = Ret (mend_conn c)"
    and "intact_conn c"
proof -
  have f: "\<not> in_err f" using assms(5) by (metis infile.select_convs(3) mend_simps(3) open_infile_def)
  have start: "start_request (sys\<lparr>sys_fopen_r := \<lambda>_. Inr (open_infile content)\<rparr>) req c0 =
      mend_conn (start_request sys req c0) \<and> intact_conn (start_request sys req c0)"
    if "c_file_reader c0 = new_read_file" for c0
    using that assms(2,4,5) f
    by (cases "oack_options (c_oack_packet c0) = []") (simp_all add: Let_def start_request_def start_read_def rf_open_def open_failure_def new_read_file_def
        mend_conn_def mend_reader_def intact_def)
  have reader: "c_file_reader (process_options sys req c0) = c_file_reader c0" for c0
    using negotiated_options [of c0 sys req] by (auto simp: negotiated_def)
  from assms(1-3) start reader
  show "new_connection (sys\<lparr>sys_fopen_r := \<lambda>_. Inr (open_infile content)\<rparr>) req cl = Ret (mend_conn c)"
    and "intact_conn c"
    by (auto simp: new_connection_def outcome_simps Let_def initial_connection_def)
qed

lemma new_faulty_inv:
  assumes "new_connection sys req cl = Ret c" and "rw_type req = READ"
    and "is_operation_allowed sys (rw_filename req) READ = Ret None"
    and "sys_fopen_r sys (c_str (rw_filename req)) = Inr f" and "mend f = open_infile content"
  shows "fault_inv (block_len c) (rf_convert (rw_mode req) content) (c_oack_packet c) c"
proof -
  let ?sys = "sys\<lparr>sys_fopen_r := \<lambda>_. Inr (open_infile content)\<rparr>"
  note mended = new_faulty_session [OF assms]
  have "read_inv_at (block_len (mend_conn c)) (rf_convert (rw_mode req) content) (c_oack_packet (mend_conn c))
      (if oack_options (c_oack_packet (mend_conn c)) = [] then 1 else 0) (mend_conn c)"
    by (rule new_read_session(1) [OF mended(1) assms(2)]) (simp_all add: assms(3))
  then show ?thesis using mended(2) by (auto simp: fault_inv_def read_inv_def)
qed

text \<open>The read that fails is answered with an ERROR, and the session ends.\<close>

lemma read_fault_sent:
  assumes "c_state c = SEND_DATA" and "\<not> c_pkt_ready c"
    and "read_in_to (block_len c) (c_file_reader c) = Ret (b, rf)" and "\<not> intact rf" and "0 < fst a"
  shows "\<exists>c1 c2. handle_write x c = Ret (c1, []) \<and>
    handle_write a c1 = Ret (c2, [serialise_error_packet (mk_error_packet NOT_DEFINED ''Internal server error'')]) \<and>
    c_finished c2"
proof -
  have "rf_error rf = Ret True"
    using assms(4) by (auto simp: intact_def rf_error_def split: option.splits)
  then have "handle_write x c =
      Ret (internal_error (c\<lparr>c_file_reader := rf, c_data_pkt := (c_data_pkt c)\<lparr>pkt_data := b\<rparr>\<rparr>), [])"
    using assms(1-3) by (simp add: handle_write_def prepare_data_def)
  then show ?thesis
    using write_error_sent [OF _ assms(5), of "internal_error (c\<lparr>c_file_reader := rf,
        c_data_pkt := (c_data_pkt c)\<lparr>pkt_data := b\<rparr>\<rparr>)"] by (simp add: internal_error_def)
qed

end
