(* ===== verification/Destruction.thy ===== *)
theory Destruction
  imports Read_Transfer
begin

text \<open>
  The destructors of a connection and of its members: what \<open>erase\<close> in the clean-up pass of the server
  releases, and the assertion of \<open>~tftp_read_file\<close>, which is compiled in when \<open>NDEBUG\<close> is not defined
  (\<open>make VERSION=debug\<close>).
\<close>

datatype handle = Descriptor int | Read_stream | Write_stream

definition destroy_udp :: "udp_connection \<Rightarrow> handle list" where
  "destroy_udp u = (if 0 \<le> udp_sd u then [Descriptor (udp_sd u)] else [])"

definition destroy_timer :: "timer \<Rightarrow> handle list" where
  "destroy_timer t = (if 0 < tm_fd t then [Descriptor (tm_fd t)] else [])"

text \<open>\<open>None\<close>: the assertion fails, and the program aborts.\<close>

definition destroy_read_file :: "bool \<Rightarrow> tftp_read_file \<Rightarrow> handle list option" where
  "destroy_read_file ndebug rf =
     (let closed = (case rf_fd rf of None \<Rightarrow> [] | Some f \<Rightarrow> [Read_stream])
      in if ndebug \<or> rf_overflow rf = [] then Some closed else None)"

definition destroy_write_file :: "tftp_write_file \<Rightarrow> handle list" where
  "destroy_write_file fw = (case wf_fd fw of None \<Rightarrow> [] | Some f \<Rightarrow> [Write_stream])"

text \<open>The defaulted destructor: the members in reverse order of their declaration.\<close>

definition destroy_connection :: "bool \<Rightarrow> conn \<Rightarrow> handle list option" where
  "destroy_connection ndebug c =
     (case destroy_read_file ndebug (c_file_reader c) of
        None \<Rightarrow> None
      | Some closed \<Rightarrow> Some (destroy_timer (c_timer c) @ destroy_write_file (c_file_writer c) @ closed @
          destroy_udp (c_udp c)))"

subsection \<open>Sessions keep their handles\<close>

definition same_handles :: "conn \<Rightarrow> conn \<Rightarrow> bool" where
  "same_handles c c' \<longleftrightarrow> udp_sd (c_udp c') = udp_sd (c_udp c) \<and> tm_fd (c_timer c') = tm_fd (c_timer c) \<and>
     (rf_fd (c_file_reader c') = None \<longleftrightarrow> rf_fd (c_file_reader c) = None) \<and>
     (wf_fd (c_file_writer c') = None \<longleftrightarrow> wf_fd (c_file_writer c) = None)"

lemma same_handles_refl: "same_handles c c"
  by (simp add: same_handles_def)

lemma same_handles_trans: "same_handles a b \<Longrightarrow> same_handles b c \<Longrightarrow> same_handles a c"
  by (simp add: same_handles_def)

lemma tm_fd_timers [simp]:
  "tm_fd (arm_timer n t) = tm_fd t" "tm_fd (elapse s t) = tm_fd t" "tm_fd (c_timer (timer_read c)) = tm_fd (c_timer c)"
  by (simp_all add: arm_timer_def elapse_def timer_read_def split: option.split)

lemma read_in_to_stream_open: "read_in_to n rf = Ret (b, rf') \<Longrightarrow> rf_fd rf \<noteq> None \<and> rf_fd rf' \<noteq> None"
  by (auto simp: read_in_to_def Let_def split: option.splits if_splits prod.splits)

lemma same_handles_read:
  assumes "handle_read a c = Ret c'"
  shows "same_handles c c'"
  using assms
proof (cases rule: handle_read_cases)
  case timeout
  then show ?thesis
    by (cases "timer_read c" rule: handle_timeout_cases) (simp_all add: same_handles_def)
next
  case (ack d)
  then show ?thesis by (cases d "timer_read c" rule: read_ack_cases) (simp_all add: same_handles_def)
next
  case (data d)
  from data(4) show ?thesis
    by (cases rule: read_data_cases) (auto simp: same_handles_def internal_error_def dest: wf_write_frame)
next
  case idle
  then show ?thesis by (simp add: same_handles_def)
qed

lemma same_handles_prepare: "prepare_data c = Ret (go, c') \<Longrightarrow> same_handles c c'"
  by (erule prepare_data_cases)
    (auto simp: same_handles_def internal_error_def dest: read_in_to_stream_open)

lemma same_handles_writes:
  "same_handles c (fst (write_data a c))" "same_handles c (fst (write_ack a c))"
  "same_handles c (fst (write_oack a c))" "same_handles c (fst (write_error a c))"
  by (auto simp: write_defs same_handles_def internal_error_def arm_def)

lemma same_handles_write:
  assumes "handle_write a c = Ret (c', os)"
  shows "same_handles c c'"
  using assms
proof (cases rule: handle_write_cases)
  case (data c1)
  with same_handles_trans [OF same_handles_prepare [OF data(2)] same_handles_writes(1) [of c1 a]]
  show ?thesis by simp
next
  case no_data
  with same_handles_prepare show ?thesis by blast
next
  case ack
  with same_handles_writes(2) [of c a] show ?thesis by simp
next
  case oack
  with same_handles_writes(3) [of c a] show ?thesis by simp
next
  case error
  with same_handles_writes(4) [of c a] show ?thesis by simp
qed

lemma same_handles_step: "session_step c e os c' \<Longrightarrow> same_handles c c'"
  by (erule session_step.cases)
    (auto simp: c_set_finished_def same_handles_def [of c "c\<lparr>c_timer := elapse s (c_timer c)\<rparr>" for c s]
      same_handles_def [of c "c\<lparr>c_finished := True\<rparr>" for c]
      dest: same_handles_read same_handles_write)

interpretation handles_kept: output_invariant session_step "same_handles c0" "\<lambda>_. True" for c0
  by unfold_locales (use same_handles_step same_handles_trans in blast)

lemma destroy_same_handles:
  "same_handles c c' \<Longrightarrow> destroy_connection True c' = destroy_connection True c"
  by (auto simp: destroy_connection_def same_handles_def destroy_udp_def destroy_timer_def
      destroy_read_file_def destroy_write_file_def Let_def split: option.splits)

subsection \<open>What the constructor opens\<close>

definition opened_by :: "system \<Rightarrow> rw_packet_t \<Rightarrow> handle list" where
  "opened_by sys req =
     (if is_operation_allowed sys (rw_filename req) (rw_type req) = Ret None
      then (case rw_type req of
              READ \<Rightarrow> (case sys_fopen_r sys (c_str (rw_filename req)) of Inl e \<Rightarrow> [] | Inr f \<Rightarrow> [Read_stream])
            | WRITE \<Rightarrow> (case sys_fopen_w sys (c_str (rw_filename req)) of Inl e \<Rightarrow> [] | Inr f \<Rightarrow> [Write_stream])
            | _ \<Rightarrow> [])
      else [])"

lemma destroy_started:
  assumes "c_file_reader c = new_read_file" "c_file_writer c = new_write_file"
    and "is_operation_allowed sys (rw_filename req) (rw_type req) = Ret None"
  shows "destroy_connection True (start_request sys req c) =
    Some (destroy_timer (c_timer c) @ opened_by sys req @ destroy_udp (c_udp c))"
  using assms
  by (auto simp: destroy_connection_def opened_by_def start_request_def start_read_def start_write_def
      open_failure_def rf_open_def wf_open_def new_read_file_def new_write_file_def destroy_read_file_def
      destroy_write_file_def Let_def split: packet_t.splits sum.splits)

lemma udp_steps_sd:
  "udp_bind addr port b u = Ret u' \<Longrightarrow> udp_sd u' = udp_sd u"
  "udp_connect_sa sa cn u = Ret u' \<Longrightarrow> udp_sd u' = udp_sd u"
  "udp_set_non_blocking e g f u = Ret u' \<Longrightarrow> udp_sd u' = udp_sd u"
  by (auto simp: udp_bind_def udp_connect_sa_def udp_set_non_blocking_def Let_def split: option.splits if_splits sum.splits)

lemma new_handles:
  assumes "new_connection sys req cl = Ret c"
  shows "\<exists>sd fd. sys_socket sys = Inr sd \<and> sys_timerfd sys = Inr fd \<and>
    destroy_connection True c =
      Some ((if 0 < fd then [Descriptor fd] else []) @ opened_by sys req @
            (if 0 \<le> sd then [Descriptor sd] else []))"
proof -
  from assms obtain udp0 udp1 udp2 udp tm e where
    udp0: "udp_new (sys_socket sys) (sys_setsockopt sys) = Ret udp0"
    and tm: "timer_new (sys_timerfd sys) = Ret tm"
    and udp: "udp_bind [] 0 (sys_bind sys) udp0 = Ret udp1"
      "udp_connect_sa cl (sys_connect sys) udp1 = Ret udp2"
      "udp_set_non_blocking True (sys_getfl sys) (sys_setfl sys) udp2 = Ret udp"
    and e: "is_operation_allowed sys (rw_filename req) (rw_type req) = Ret e"
    and c: "(let c = initial_connection udp tm (rw_type req) cl
       in case e of
            Some e \<Rightarrow> Ret (c\<lparr>c_error_pkt := e, c_state := STATE_ERROR\<rparr>)
          | None \<Rightarrow>
              let c = c\<lparr>c_data_pkt := (c_data_pkt c)\<lparr>pkt_data := replicate (block_len c) 0\<rparr>\<rparr>
              in Ret (start_request sys req (process_options sys req c))) = Ret c"
    unfolding new_connection_def obind_Ret_iff by blast
  obtain sd where sd: "sys_socket sys = Inr sd" "udp_sd udp0 = sd"
    using udp0 by (auto simp: udp_new_def split: sum.splits option.splits)
  obtain fd where fd: "sys_timerfd sys = Inr fd" "tm_fd tm = fd"
    using tm by (auto simp: timer_new_def split: sum.splits)
  have udp_sd: "udp_sd udp = sd" using udp sd(2) udp_steps_sd by metis
  have "destroy_connection True c = Some (destroy_timer tm @ opened_by sys req @ destroy_udp udp)"
  proof (cases e)
    case None
    let ?init = "(initial_connection udp tm (rw_type req) cl)
      \<lparr>c_data_pkt := \<lparr>pkt_data = replicate 512 0, data_block_number = 0\<rparr>\<rparr>"
    let ?opt = "process_options sys req ?init"
    have c0: "c = start_request sys req ?opt"
      using c None by (simp add: Let_def initial_connection_def new_data_packet_def)
    have "negotiated ?init ?opt" by (rule negotiated_options)
    then obtain b t p where "?opt = ?init\<lparr>c_block_size := b, c_timeout_s := t, c_oack_packet := p\<rparr>"
      unfolding negotiated_def by blast
    then have "c_file_reader ?opt = new_read_file" "c_file_writer ?opt = new_write_file" "c_timer ?opt = tm" "c_udp ?opt = udp"
      by (simp_all add: initial_connection_def)
    with destroy_started [of ?opt sys req] e None c0 show ?thesis by simp
  next
    case (Some err)
    with c e show ?thesis
      by (auto simp: destroy_connection_def opened_by_def initial_connection_def destroy_read_file_def
          destroy_write_file_def new_read_file_def new_write_file_def)
  qed
  with sd fd udp_sd show ?thesis by (simp add: destroy_timer_def destroy_udp_def)
qed

subsection \<open>The assertion on the overflow buffer\<close>

lemma final_overflow:
  assumes "read_inv n S oack c" and "c_final_ack c"
  shows "rf_overflow (c_file_reader c) = []"
proof -
  from assms obtain k where k: "read_inv_at n S oack k c" "c_pkt_ready c"
    by (auto simp: read_inv_def read_inv_at_def)
  have short: "length (chunk n (k - 1) S) < n" and rest: "rf_pending (c_file_reader c) = drop (k * n) S"
    and pos: "k \<noteq> 0" using k assms(2) unfolding read_inv_at_def by blast+
  from pos obtain j where j: "k = Suc j" by (rule not0_implies_Suc [THEN exE])
  have "min n (length S - j * n) < n" using short j by (simp add: length_chunk)
  then have "length S \<le> n + j * n" by linarith
  then have "length S \<le> k * n" using j by simp
  with rest show ?thesis by (simp add: rf_pending_def)
qed

text \<open>
  A netascii download given up while its overflow buffer is not empty: here a file that is read at
  once, whose converted form is longer than a block, and a client that goes away after block 1.
\<close>

lemma aborted_download_asserts:
  assumes "new_connection sys req cl = Ret c" and "rw_type req = READ" "rw_mode req = NETASCII" "rw_options req = []"
    and "is_operation_allowed sys (rw_filename req) READ = Ret None"
    and "sys_fopen_r sys (c_str (rw_filename req)) = Inr (open_infile content)"
    and "length content \<le> 512" "512 < length (native_to_netascii content)" and "0 < fst a"
  shows "\<exists>c1 os. handle_write a c = Ret (c1, os) \<and> destroy_connection False (c_set_finished True c1) = None"
proof -
  from assms(2,5) have allowed: "is_operation_allowed sys (rw_filename req) (rw_type req) = Ret None"
    by simp
  obtain c0 where c0: "c = start_request sys req c0" "c_file_reader c0 = new_read_file" "\<not> c_pkt_ready c0"
    "c_block_size c0 = 512 \<and> oack_options (c_oack_packet c0) = []"
    using new_connection_allowed [OF assms(1) allowed] assms(4) by metis
  have c: "c_state c = SEND_DATA" "\<not> c_pkt_ready c" "block_len c = 512"
    "c_file_reader c = \<lparr>rf_fd = Some (open_infile content), rf_mode = NETASCII, rf_overflow = []\<rparr>"
    using c0 assms(2,3,6)
    by (simp_all add: start_request_def start_read_def rf_open_def open_failure_def new_read_file_def)
  obtain f where f: "fread 512 (open_infile content) = (content, f)" "\<not> in_err f"
    using fread_no_fault [of "open_infile content" 512] assms(7) by (auto simp: open_infile_def)
  have loop: "netascii_read_loop 512 [] (open_infile content) = (content, f)"
    using f by (subst netascii_loop_once) (simp_all add: open_infile_def)
  let ?S = "native_to_netascii content"
  have "read_in_to 512 (c_file_reader c) =
      Ret (take 512 ?S, \<lparr>rf_fd = Some f, rf_mode = NETASCII, rf_overflow = drop 512 ?S\<rparr>)"
    by (simp add: c(4) read_in_to_def loop Let_def)
  with c(1-3) f(2) assms(8) have "prepare_data c = Ret (True, c\<lparr>
      c_file_reader := \<lparr>rf_fd = Some f, rf_mode = NETASCII, rf_overflow = drop 512 ?S\<rparr>,
      c_data_pkt := \<lparr>pkt_data = take 512 ?S, data_block_number = c_block_number c\<rparr>, c_pkt_ready := True\<rparr>)"
    by (simp add: prepare_data_def rf_error_def rf_eof_def Let_def)
  with c(1) assms(8,9) show ?thesis
    by (simp add: handle_write_def write_data_def udp_send_def sent_not_failed arm_def c_set_finished_def
        destroy_connection_def destroy_read_file_def)
qed

end
