(* ===== verification/Session_Props.thy ===== *)
theory Session_Props
  imports Demo Stop_And_Wait Losses Read_Faults Destruction
begin

text \<open>
  The properties of one client session: downloads, uploads, the access check, option
  negotiation, retransmission, and the session's failures.
\<close>

section \<open>Downloads\<close>

text \<open>
  C1: Whatever datagrams arrive at a \<open>READ\<close> session, and however its sends fail, its timer fires and
  its device breaks down, every datagram it sends is its OACK, an ERROR, or the \<open>k\<close>-th block of the
  (converted) file under the number \<open>k mod 2^16\<close>.
\<close>

theorem read_session_safety:
  assumes "new_connection sys req cl = Ret c" and "rw_type req = READ"
    and "is_operation_allowed sys (rw_filename req) READ = Ret None"
    and "sys_fopen_r sys (c_str (rw_filename req)) = Inr ((open_infile content)\<lparr>in_fault := fault\<rparr>)"
    and "session_run c os c'" and "d \<in> set os"
  shows "d = serialise_oack_packet (c_oack_packet c) \<or> (\<exists>e. d = serialise_error_packet e) \<or>
    (\<exists>k \<ge> 1. (k - 1) * block_len c \<le> length (rf_convert (rw_mode req) content) \<and>
       d = serialise_data_packet
         \<lparr>pkt_data = take (block_len c) (drop ((k - 1) * block_len c) (rf_convert (rw_mode req) content)),
          data_block_number = of_nat k\<rparr>)"
proof -
  have "mend ((open_infile content)\<lparr>in_fault := fault\<rparr>) = open_infile content"
    by (simp add: mend_def open_infile_def)
  from faulty_read.run_outputs [OF assms(5) new_faulty_inv [OF assms(1-4) this] assms(6)]
  show ?thesis by (auto simp: read_output_def nth_data_packet_def chunk_def)
qed

theorem read_session_safety_witness:
  "\<exists>c c' d. new_connection (demo_system True [1, 2, 3]) (demo_request READ OCTET []) demo_client = Ret c \<and>
     session_run c [d] c' \<and>
     (d = serialise_oack_packet (c_oack_packet c) \<or> (\<exists>e. d = serialise_error_packet e) \<or>
      (\<exists>k \<ge> 1. (k - 1) * block_len c \<le> length (rf_convert OCTET [1, 2, 3]) \<and>
       d = serialise_data_packet
         \<lparr>pkt_data = take (block_len c) (drop ((k - 1) * block_len c) (rf_convert OCTET [1, 2, 3])),
          data_block_number = of_nat k\<rparr>))"
proof -
  obtain c d c1 where c: "new_connection (demo_system True [1, 2, 3]) (demo_request READ OCTET []) demo_client = Ret c"
    and r: "session_run c [d] c1" using demo_sent by blast
  have fopen: "sys_fopen_r (demo_system True [1, 2, 3]) (c_str (rw_filename (demo_request READ OCTET []))) =
      Inr ((open_infile [1, 2, 3])\<lparr>in_fault := None\<rparr>)" by (simp add: open_infile_def)
  show ?thesis
    using c r read_session_safety [OF c demo_simps(1) demo_allowed(1) fopen r, of d]
    by auto
qed

text \<open>
  C2: A \<open>READ\<close> session refines a stop-and-wait sender with unbounded block numbers: each of its steps,
  on any event, is a step of that machine with the same output, which may repeat its block, goes
  on only on the ACK of the current block and past a full one, and once failed sends ERRORs only.
  So a session that stands at block \<open>k\<close> has received the ACKs of all earlier ones in order.
\<close>

theorem download_refines_stop_and_wait:
  assumes "new_connection sys req cl = Ret c" and "rw_type req = READ"
    and "is_operation_allowed sys (rw_filename req) READ = Ret None"
    and "sys_fopen_r sys (c_str (rw_filename req)) = Inr (open_infile content)"
    and "exec session_step c tr c'"
  shows "let first = (if oack_options (c_oack_packet c) = [] then 1 else 0) in
    \<exists>s. exec (sender_step (block_len c) (rf_convert (rw_mode req) content) (c_oack_packet c)) (At first) tr s \<and>
      (case s of
         Failed \<Rightarrow> c_state c' = STATE_ERROR
       | At k \<Rightarrow> c_block_number c' = of_nat k \<and> subseq (map of_nat [first..<k]) (acks_in tr))"
proof -
  let ?first = "if oack_options (c_oack_packet c) = [] then 1 else 0"
  note start = new_read_session [OF assms(1-4)]
  have "sends_as (block_len c) (rf_convert (rw_mode req) content) (c_oack_packet c) c (At ?first)"
    using start(1,2) by (auto simp: sends_as_def sender_of_def)
  from download.exec_simulated [OF assms(5) this] obtain s where
    s: "exec (sender_step (block_len c) (rf_convert (rw_mode req) content) (c_oack_packet c)) (At ?first) tr s"
      "sends_as (block_len c) (rf_convert (rw_mode req) content) (c_oack_packet c) c' s" by blast
  then have "case s of Failed \<Rightarrow> c_state c' = STATE_ERROR
       | At k \<Rightarrow> c_block_number c' = of_nat k \<and> subseq (map of_nat [?first..<k]) (acks_in tr)"
    using sender_needs_acks [OF s(1) refl]
    by (auto simp: sends_as_def sender_of_def read_inv_at_def split: if_splits)
  with s(1) show ?thesis unfolding Let_def by blast
qed

theorem download_refines_stop_and_wait_witness:
  "\<exists>c c' d s. new_connection (demo_system True [1, 2, 3]) (demo_request READ OCTET []) demo_client = Ret c \<and>
     exec session_step c [(Ev_write (1, 0), [d])] c' \<and>
     exec (sender_step (block_len c) [1, 2, 3] (c_oack_packet c)) (At 1) [(Ev_write (1, 0), [d])] s"
proof -
  obtain c where c: "new_connection (demo_system True [1, 2, 3]) (demo_request READ OCTET []) demo_client = Ret c"
    using demo_new(1) by blast
  note start = new_read_session [OF c demo_simps(1) demo_allowed(1) demo_simps(4)]
  from start(8) have noopt: "oack_options (c_oack_packet c) = []" by simp
  with start(1-3) obtain c1 d where "handle_write (1, 0) c = Ret (c1, [d])"
    using read_round [of "block_len c" _ _ 1 c "(1, 0)"] by fastforce
  then have r: "exec session_step c [(Ev_write (1, 0), [d])] c1"
    by (intro exec_single step_write)
  from download_refines_stop_and_wait [OF c demo_simps(1) demo_allowed(1) demo_simps(4) r] noopt c r
  show ?thesis by (auto simp: rf_convert_def)
qed

text \<open>
  C3: A client that acknowledges every datagram at once receives the whole file and the session
  ends: after the OACK, if there is one, come the blocks, numbered from 1, all full but the
  last, whose payloads together are the (converted) file.
\<close>

theorem download_delivers:
  assumes "new_connection sys req cl = Ret c" and "rw_type req = READ"
    and "is_operation_allowed sys (rw_filename req) READ = Ret None"
    and "sys_fopen_r sys (c_str (rw_filename req)) = Inr (open_infile content)"
    and "0 < block_len c" and "0 < fst a"
  shows "\<exists>m ds c'. lockstep m a c =
      Ret ((if oack_options (c_oack_packet c) = [] then [] else [serialise_oack_packet (c_oack_packet c)]) @
           map serialise_data_packet ds, c') \<and>
    c_finished c' \<and> concat (map pkt_data ds) = rf_convert (rw_mode req) content \<and>
    map data_block_number ds = map of_nat [1..<length ds + 1] \<and>
    (\<forall>p \<in> set (butlast ds). length (pkt_data p) = block_len c) \<and>
    length (pkt_data (last ds)) < block_len c"
proof -
  let ?S = "rf_convert (rw_mode req) content" and ?n = "block_len c"
  let ?ds = "map (nth_data_packet ?n ?S) [1..<length ?S div ?n + 2]"
  from download_lockstep [OF assms] obtain c' where c': "c_finished c'"
    "lockstep (length ?S div ?n + 1 + (if oack_options (c_oack_packet c) = [] then 0 else 1)) a c =
      Ret ((if oack_options (c_oack_packet c) = [] then [] else [serialise_oack_packet (c_oack_packet c)]) @
           map serialise_data_packet ?ds, c')" unfolding map_map o_def by blast
  have "map data_block_number ?ds = map of_nat [1..<length ?ds + 1]"
    by (simp add: nth_data_packet_def o_def del: upt_Suc)
  moreover have "concat (map pkt_data ?ds) = ?S"
    using blocks_concat [OF assms(5), of ?S] by (simp add: o_def del: upt_Suc)
  ultimately show ?thesis
    using c' blocks_shape [OF assms(5), of ?S] by (intro exI conjI)
qed

theorem download_delivers_witness:
  "\<exists>c m ds c'. new_connection (demo_system True [1, 2, 3]) (demo_request READ OCTET []) demo_client = Ret c \<and>
     lockstep m (1, 0) c = Ret (map serialise_data_packet ds, c') \<and> c_finished c' \<and>
     concat (map pkt_data ds) = [1, 2, 3]"
proof -
  obtain c where c: "new_connection (demo_system True [1, 2, 3]) (demo_request READ OCTET []) demo_client = Ret c"
    using demo_new(1) by blast
  note start = new_read_session [OF c demo_simps(1) demo_allowed(1) demo_simps(4)]
  from start(8) have n: "block_len c = 512" "oack_options (c_oack_packet c) = []" by simp_all
  have "0 < block_len c" using n(1) by simp
  from download_delivers [OF c demo_simps(1) demo_allowed(1) demo_simps(4) this, of "(1, 0)"] n(2) c
  show ?thesis by (auto simp: rf_convert_def)
qed

text \<open>
  C4: A download survives losses: when for each block up to three timeouts pass before its ACK arrives,
  because the DATA packet or the ACK was lost, the session sends each block once and once more per
  timeout, in order, and finishes after the last.  When options were acknowledged the OACK comes first;
  it and its ACK must not be lost, since no timer runs between them.
\<close>

theorem download_survives_losses:
  assumes "new_connection sys req cl = Ret c" and "rw_type req = READ"
    and "is_operation_allowed sys (rw_filename req) READ = Ret None"
    and "sys_fopen_r sys (c_str (rw_filename req)) = Inr (open_infile content)"
    and "0 < block_len c" and "0 < fst a"
    and "length losses = length (rf_convert (rw_mode req) content) div block_len c + 1"
    and "\<forall>l \<in> set losses. l \<le> 3"
  shows "\<exists>c'. lossy_rounds ((if oack_options (c_oack_packet c) = [] then [] else [0]) @ losses) a c =
      Ret ((if oack_options (c_oack_packet c) = [] then [] else [serialise_oack_packet (c_oack_packet c)]) @
        concat (map (\<lambda>(l, k). replicate (l + 1) (serialise_data_packet
          \<lparr>pkt_data = take (block_len c) (drop ((k - 1) * block_len c) (rf_convert (rw_mode req) content)),
           data_block_number = of_nat k\<rparr>)) (zip losses [1..<length losses + 1])), c') \<and>
    c_finished c'"
  using lossy_download [OF assms] by (simp add: nth_data_packet_def chunk_def del: upt_Suc)

theorem download_survives_losses_witness:
  "\<exists>c c' oack. new_connection (demo_system True [1, 2, 3])
       (demo_request READ OCTET [(BLKSIZE_OPT, to_string 2)]) demo_client = Ret c \<and>
     lossy_rounds [0, 3, 1] (1, 0) c = Ret (serialise_oack_packet oack #
       replicate 4 (serialise_data_packet \<lparr>pkt_data = [1, 2], data_block_number = 1\<rparr>) @
       replicate 2 (serialise_data_packet \<lparr>pkt_data = [3], data_block_number = 2\<rparr>), c') \<and> c_finished c'"
proof -
  let ?req = "demo_request READ OCTET [(BLKSIZE_OPT, to_string 2)]"
  obtain c where c: "new_connection (demo_system True [1, 2, 3]) ?req demo_client = Ret c"
    using demo_new(1) by blast
  have n: "block_len c = 2" and oack: "oack_options (c_oack_packet c) \<noteq> []"
    using demo_blksize [OF c demo_allowed(1) demo_mtu] by simp_all
  have two: "zip [3, 1] [1..<length [3, 1 :: nat] + 1] = [(3, 1), (1, 2)]" by (simp add: upt_rec)
  have pos: "0 < block_len c" and len: "length [3, 1 :: nat] = length (rf_convert (rw_mode ?req) [1, 2, 3]) div block_len c + 1"
    by (simp_all add: n rf_convert_def)
  from download_survives_losses [OF c demo_simps(1) demo_allowed(1) demo_simps(4) pos, of "(1, 0)" "[3, 1]", OF _ len] oack
  have "\<exists>c'. lossy_rounds [0, 3, 1] (1, 0) c = Ret (serialise_oack_packet (c_oack_packet c) #
       replicate 4 (serialise_data_packet \<lparr>pkt_data = [1, 2], data_block_number = 1\<rparr>) @
       replicate 2 (serialise_data_packet \<lparr>pkt_data = [3], data_block_number = 2\<rparr>), c') \<and> c_finished c'"
    unfolding n two by (simp add: rf_convert_def numeral_eq_Suc)
  with c show ?thesis by blast
qed

text \<open>
  C31: Whatever happens in a session, its destructor closes the two descriptors and the stream its
  constructor opened, each once, and nothing else; and once the last block of a download has been
  read, the assertion on the overflow buffer, compiled into a debug build, holds.
\<close>

theorem handles_released:
  assumes "new_connection sys req cl = Ret c" and "session_run c os c'"
  shows "(\<exists>sd fd. sys_socket sys = Inr sd \<and> sys_timerfd sys = Inr fd \<and>
      destroy_connection True c' =
        Some ((if 0 < fd then [Descriptor fd] else []) @ opened_by sys req @
              (if 0 \<le> sd then [Descriptor sd] else []))) \<and>
    (rw_type req = READ \<and> is_operation_allowed sys (rw_filename req) READ = Ret None \<and>
      sys_fopen_r sys (c_str (rw_filename req)) = Inr (open_infile content) \<and> c_final_ack c' \<longrightarrow>
      destroy_connection False c' = destroy_connection True c')"
proof (intro conjI impI)
  have "same_handles c c'" using handles_kept.run_states [OF assms(2) same_handles_refl] .
  then show "\<exists>sd fd. sys_socket sys = Inr sd \<and> sys_timerfd sys = Inr fd \<and>
      destroy_connection True c' =
        Some ((if 0 < fd then [Descriptor fd] else []) @ opened_by sys req @
              (if 0 \<le> sd then [Descriptor sd] else []))"
    using new_handles [OF assms(1)] destroy_same_handles by metis
  assume r: "rw_type req = READ \<and> is_operation_allowed sys (rw_filename req) READ = Ret None \<and>
      sys_fopen_r sys (c_str (rw_filename req)) = Inr (open_infile content) \<and> c_final_ack c'"
  then have "read_inv (block_len c) (rf_convert (rw_mode req) content) (c_oack_packet c) c"
    using new_read_session(1) [OF assms(1)] by (auto simp: read_inv_def)
  from read_session.run_states [OF assms(2) this] r
  have "rf_overflow (c_file_reader c') = []" by (intro final_overflow) simp_all
  then show "destroy_connection False c' = destroy_connection True c'"
    by (simp add: destroy_connection_def destroy_read_file_def)
qed

theorem handles_released_witness:
  "\<exists>c d c'. session_run c [d] c' \<and>
     new_connection (demo_system True [1, 2, 3]) (demo_request READ OCTET []) demo_client = Ret c \<and>
     destroy_connection True c' = Some [Descriptor 6, Read_stream, Descriptor 5]"
proof -
  obtain c d c' where c: "new_connection (demo_system True [1, 2, 3]) (demo_request READ OCTET []) demo_client = Ret c"
    "session_run c [d] c'" using demo_sent by blast
  have "opened_by (demo_system True [1, 2, 3]) (demo_request READ OCTET []) = [Read_stream]"
    using demo_allowed(1) by (simp add: opened_by_def)
  with handles_released [OF c] c show ?thesis by (auto simp: demo_system_def)
qed

text \<open>
  C32: A \<open>READ\<close> session that awaits the ACK of the block it sent answers the ACK of the previous block
  by sending the same DATA packet again, unless its block number is 0: at the wrap of the 16-bit
  number the comparison is with -1, so any ACK but that of block 0, also the duplicate 65535, ends
  the transfer with an ERROR.
\<close>

theorem duplicate_ack:
  assumes "c_state c = WAIT_FOR_ACK" "c_pkt_ready c" "tm_expirations (c_timer c) = 0" and "0 < fst a"
  shows "(c_block_number c \<noteq> 0 \<longrightarrow>
      (\<exists>c1 c2. handle_read (Datagram (serialise_ack_packet \<lparr>ack_block_number = c_block_number c - 1\<rparr>)) c = Ret c1 \<and>
         handle_write a c1 = Ret (c2, [serialise_data_packet (c_data_pkt c)]) \<and>
         c_state c2 = WAIT_FOR_ACK \<and> c_data_pkt c2 = c_data_pkt c \<and> c_block_number c2 = c_block_number c)) \<and>
    (c_block_number c = 0 \<longrightarrow> (\<forall>n. n \<noteq> 0 \<longrightarrow>
      (\<exists>c1 c2. handle_read (Datagram (serialise_ack_packet \<lparr>ack_block_number = n\<rparr>)) c = Ret c1 \<and>
         handle_write a c1 = Ret (c2, [serialise_error_packet (c_error_pkt c1)]) \<and> c_finished c2)))"
proof (intro conjI impI allI)
  show "\<exists>c1 c2. handle_read (Datagram (serialise_ack_packet \<lparr>ack_block_number = c_block_number c - 1\<rparr>)) c = Ret c1 \<and>
      handle_write a c1 = Ret (c2, [serialise_data_packet (c_data_pkt c)]) \<and>
      c_state c2 = WAIT_FOR_ACK \<and> c_data_pkt c2 = c_data_pkt c \<and> c_block_number c2 = c_block_number c"
    if "c_block_number c \<noteq> 0"
    using assms(1-3) that assms(4) by (rule ack_of_previous)
  fix n :: u16
  assume n: "c_block_number c = 0" "n \<noteq> 0"
  from ack_before_wrap [OF assms(1,3) n] obtain c1 where
    "handle_read (Datagram (serialise_ack_packet \<lparr>ack_block_number = n\<rparr>)) c = Ret c1"
    "c_state c1 = STATE_ERROR" by blast
  then show "\<exists>c1 c2. handle_read (Datagram (serialise_ack_packet \<lparr>ack_block_number = n\<rparr>)) c = Ret c1 \<and>
      handle_write a c1 = Ret (c2, [serialise_error_packet (c_error_pkt c1)]) \<and> c_finished c2"
    using write_error_sent [OF _ assms(4)] by auto
qed

theorem duplicate_ack_witness:
  "(\<exists>c1 c2. handle_read (Datagram (serialise_ack_packet \<lparr>ack_block_number = 4\<rparr>))
       (demo_conn\<lparr>c_state := WAIT_FOR_ACK, c_pkt_ready := True, c_block_number := 5\<rparr>) = Ret c1 \<and>
     handle_write (1, 0) c1 = Ret (c2, [serialise_data_packet (c_data_pkt demo_conn)])) \<and>
   (\<exists>c1 c2. handle_read (Datagram (serialise_ack_packet \<lparr>ack_block_number = 65535\<rparr>))
       (demo_conn\<lparr>c_state := WAIT_FOR_ACK, c_pkt_ready := True\<rparr>) = Ret c1 \<and>
     handle_write (1, 0) c1 = Ret (c2, [serialise_error_packet (c_error_pkt c1)]) \<and> c_finished c2)"
proof
  show "\<exists>c1 c2. handle_read (Datagram (serialise_ack_packet \<lparr>ack_block_number = 4\<rparr>))
       (demo_conn\<lparr>c_state := WAIT_FOR_ACK, c_pkt_ready := True, c_block_number := 5\<rparr>) = Ret c1 \<and>
     handle_write (1, 0) c1 = Ret (c2, [serialise_data_packet (c_data_pkt demo_conn)])"
    using duplicate_ack
      [of "demo_conn\<lparr>c_state := WAIT_FOR_ACK, c_pkt_ready := True, c_block_number := 5\<rparr>" "(1, 0)"]
    by (auto simp: demo_conn_def initial_connection_def)
  show "\<exists>c1 c2. handle_read (Datagram (serialise_ack_packet \<lparr>ack_block_number = 65535\<rparr>))
       (demo_conn\<lparr>c_state := WAIT_FOR_ACK, c_pkt_ready := True\<rparr>) = Ret c1 \<and>
     handle_write (1, 0) c1 = Ret (c2, [serialise_error_packet (c_error_pkt c1)]) \<and> c_finished c2"
    using duplicate_ack [of "demo_conn\<lparr>c_state := WAIT_FOR_ACK, c_pkt_ready := True\<rparr>" "(1, 0)"]
    by (simp add: demo_conn_def initial_connection_def)
qed

text \<open>
  C35: With a negotiated block size of 0, which the server accepts, a download never ends: in each of
  the rounds of a client that acknowledges every packet the session sends one more, after the OACK, if
  there is one, an empty DATA packet with the next block number, and after any number \<open>m\<close> of rounds it
  has sent \<open>m\<close> packets and is not finished.
\<close>

theorem block_size_0_never_ends:
  assumes "new_connection sys req cl = Ret c" and "rw_type req = READ"
    and "is_operation_allowed sys (rw_filename req) READ = Ret None"
    and "sys_fopen_r sys (c_str (rw_filename req)) = Inr (open_infile content)"
    and "block_len c = 0" and "0 < fst a"
  shows "\<exists>os c'. lockstep m a c = Ret (os, c') \<and> \<not> c_finished c' \<and> length os = m \<and>
    os = take m ((if oack_options (c_oack_packet c) = [] then [] else [serialise_oack_packet (c_oack_packet c)]) @
      map (\<lambda>k. serialise_data_packet \<lparr>pkt_data = [], data_block_number = of_nat k\<rparr>) [1..<m + 1])"
  using download_block_size_0 [OF assms, of m] length_empty_download [of "c_oack_packet c" m]
  unfolding empty_download_def by blast

theorem block_size_0_never_ends_witness:
  "\<exists>c oack c'. new_connection (demo_system True [1, 2, 3])
       (demo_request READ OCTET [(BLKSIZE_OPT, to_string 0)]) demo_client = Ret c \<and>
     lockstep 3 (1, 0) c = Ret ([serialise_oack_packet oack,
       serialise_data_packet \<lparr>pkt_data = [], data_block_number = 1\<rparr>,
       serialise_data_packet \<lparr>pkt_data = [], data_block_number = 2\<rparr>], c') \<and> \<not> c_finished c'"
proof -
  let ?req = "demo_request READ OCTET [(BLKSIZE_OPT, to_string 0)]"
  obtain c where c: "new_connection (demo_system True [1, 2, 3]) ?req demo_client = Ret c"
    using demo_new(1) by blast
  have n: "block_len c = 0" and oack: "oack_options (c_oack_packet c) \<noteq> []"
    using demo_blksize [OF c demo_allowed(1) demo_mtu] by simp_all
  have three: "[1..<3 + 1] = [1, 2, 3 :: nat]" by (simp add: upt_rec)
  from block_size_0_never_ends [OF c demo_simps(1) demo_allowed(1) demo_simps(4) n, of "(1, 0)" 3] oack
  have "\<exists>c'. lockstep 3 (1, 0) c = Ret ([serialise_oack_packet (c_oack_packet c),
       serialise_data_packet \<lparr>pkt_data = [], data_block_number = 1\<rparr>,
       serialise_data_packet \<lparr>pkt_data = [], data_block_number = 2\<rparr>], c') \<and> \<not> c_finished c'"
    unfolding three by (simp add: numeral_3_eq_3 del: lockstep.simps)
  with c show ?thesis by blast
qed

section \<open>Uploads\<close>

text \<open>
  C16: A \<open>WRITE\<close> session stores at most one datagram, because it receives \<open>_block_size\<close> bytes header
  included: after any events the file is empty or the decoding of one payload of at most
  \<open>_block_size - 4\<close> bytes, and all it ever sends is its OACK, ERRORs, and ACKs of blocks 0 and 1.
\<close>

theorem upload_stores_one_block:
  assumes "new_connection sys req cl = Ret c" and "rw_type req = WRITE"
    and "is_operation_allowed sys (rw_filename req) WRITE = Ret None"
    and "sys_fopen_w sys (c_str (rw_filename req)) = Inr (open_outfile None)"
    and "session_run c os c'"
  shows "(wf_contents (c_file_writer c') = [] \<or>
      (\<exists>d. length d + 4 \<le> block_len c \<and>
         mode_decode (rw_mode req) d = Ret (wf_contents (c_file_writer c')))) \<and>
    (\<forall>d \<in> set os. (\<exists>p. d = serialise_oack_packet p) \<or> (\<exists>e. d = serialise_error_packet e) \<or>
       d = serialise_ack_packet \<lparr>ack_block_number = 0\<rparr> \<or>
       d = serialise_ack_packet \<lparr>ack_block_number = 1\<rparr>)"
proof -
  have "write_inv (block_len c) (rw_mode req) c" using new_write_session(1) [OF assms(1-4)] .
  from write_session.run_inv [OF assms(5) this] show ?thesis
    by (auto simp: write_inv_def write_output_def)
qed

theorem upload_stores_one_block_witness:
  "\<exists>c. new_connection (demo_system False []) (demo_request WRITE OCTET []) demo_client = Ret c \<and>
     (\<forall>os c'. session_run c os c' \<longrightarrow> wf_contents (c_file_writer c') = [] \<or>
        (\<exists>d. length d + 4 \<le> block_len c \<and> mode_decode OCTET d = Ret (wf_contents (c_file_writer c'))))"
proof -
  obtain c where c: "new_connection (demo_system False []) (demo_request WRITE OCTET []) demo_client = Ret c"
    using demo_new(2) by blast
  with upload_stores_one_block [OF c demo_simps(1) demo_allowed(2) demo_simps(5)] show ?thesis by auto
qed

section \<open>Access and options\<close>

text \<open>
  C17: The access check grants a request exactly when the canonical path of the file lies under the
  server's root, component by component, and for \<open>WRITE\<close> no such file exists, for \<open>READ\<close> one does.
\<close>

theorem access_granted_iff:
  "is_operation_allowed sys f t = Ret None \<longleftrightarrow>
     (\<exists>p. sys_weakly_canonical sys (path_append (sys_cwd sys) f) = Some p \<and>
        prefix (path_elems (sys_cwd sys)) (path_elems p) \<and>
        (case t of WRITE \<Rightarrow> sys_exists sys p = Some False
         | READ \<Rightarrow> sys_exists sys p = Some True
         | _ \<Rightarrow> True))"
  by (rule is_operation_allowed_iff)

text \<open>
  C18: A request for a path outside the root opens no file: the session's only action is the ERROR
  with code 2, after which it is finished.
\<close>

theorem outside_root_refused:
  assumes "sys_weakly_canonical sys (path_append (sys_cwd sys) (rw_filename req)) = Some p"
    and "\<not> prefix (path_elems (sys_cwd sys)) (path_elems p)"
    and "new_connection sys req cl = Ret c" and "0 < fst a"
  shows "rf_fd (c_file_reader c) = None \<and> wf_fd (c_file_writer c) = None \<and>
    handle_write a c = Ret (c\<lparr>c_finished := True\<rparr>,
      [serialise_error_packet (mk_error_packet ACCESS_ERROR ''Access denied'')])"
proof -
  have "is_operation_allowed sys (rw_filename req) (rw_type req) =
      Ret (Some (mk_error_packet ACCESS_ERROR ''Access denied''))"
    using assms(1,2) by (rule outside_root_denied)
  note refused = new_connection_refused [OF assms(3) this]
  from write_error_sent [OF refused(1) assms(4)] refused show ?thesis by simp
qed

theorem outside_root_refused_witness:
  "\<exists>c. new_connection (demo_system True [])
       \<lparr>rw_type = READ, rw_filename = bytes_of ''/etc/passwd'', rw_mode = OCTET, rw_options = []\<rparr>
       demo_client = Ret c \<and>
     handle_write (1, 0) c = Ret (c\<lparr>c_finished := True\<rparr>,
      [serialise_error_packet (mk_error_packet ACCESS_ERROR ''Access denied'')])"
proof -
  let ?req = "\<lparr>rw_type = READ, rw_filename = bytes_of ''/etc/passwd'', rw_mode = OCTET, rw_options = []\<rparr>"
  have path: "sys_weakly_canonical (demo_system True [])
      (path_append (sys_cwd (demo_system True [])) (rw_filename ?req)) = Some (bytes_of ''/etc/passwd'')"
    by (simp add: demo_system_def path_append_def bytes_of_def)
  have outside: "\<not> prefix (path_elems (sys_cwd (demo_system True []))) (path_elems (bytes_of ''/etc/passwd''))"
    by (simp add: demo_system_def path_elems_def bytes_of_def Let_def)
  obtain c where c: "new_connection (demo_system True []) ?req demo_client = Ret c"
    using new_connection_exists [OF demo_ready outside_root_denied [OF path outside]] by blast
  with outside_root_refused [OF path outside c, of "(1, 0)"] show ?thesis by simp
qed

text \<open>
  C33: A single \<open>BLKSIZE\<close> option with the number \<open>v\<close> sets the block size to \<open>v mod 2^32\<close>, lowered to the MTU
  if that is known and smaller, but not when the value is \<open>2^31\<close> or more; the option is acknowledged.
\<close>

theorem block_size_negotiated:
  assumes "new_connection sys req cl = Ret c"
    and "is_operation_allowed sys (rw_filename req) (rw_type req) = Ret None"
    and "rw_options req = [opt]" and "c_str (fst opt) = BLKSIZE_OPT" and "stoul (snd opt) = Ret v"
  shows "block_len c =
    (let M = get_mtu (fst (sys_mtu sys)) (snd (sys_mtu sys)); w = unat v mod 2 ^ 32 in
     if 0 \<le> M \<and> M < int w \<and> w < 2 ^ 31 then nat M else w) \<and>
    oack_options (c_oack_packet c) \<noteq> []"
  using new_connection_blksize [OF assms] by blast

theorem block_size_negotiated_witness:
  "\<exists>c. new_connection (demo_system True [])
       (demo_request READ OCTET [(BLKSIZE_OPT, to_string 9000)]) demo_client = Ret c \<and>
     block_len c = 1500 \<and> oack_options (c_oack_packet c) \<noteq> []"
proof -
  let ?req = "demo_request READ OCTET [(BLKSIZE_OPT, to_string 9000)]"
  obtain c where c: "new_connection (demo_system True []) ?req demo_client = Ret c"
    using demo_new(1) by blast
  have allowed: "is_operation_allowed (demo_system True []) (rw_filename ?req) (rw_type ?req) = Ret None"
    using demo_allowed(1) by simp
  have opt: "c_str (fst (BLKSIZE_OPT, to_string 9000)) = BLKSIZE_OPT"
    "stoul (snd (BLKSIZE_OPT, to_string 9000)) = Ret 9000"
    using stoul_to_string [of 9000] by (simp_all add: c_str_def BLKSIZE_OPT_def bytes_of_def)
  from block_size_negotiated [OF c allowed demo_simps(3) opt] c show ?thesis
    by (simp add: Let_def demo_system_def get_mtu_def)
qed

text \<open>
  C34: The options a session acknowledges are options of the request, in their order, and its
  retransmission timeout is at least one second.
\<close>

theorem options_acknowledged:
  assumes "new_connection sys req cl = Ret c"
  shows "subseq (map fst (oack_options (c_oack_packet c))) (map fst (rw_options req)) \<and>
    1 \<le> unat (c_timeout_s c)"
  using new_connection_acknowledges [OF assms] by (simp add: timeout_ok_def word_le_nat_alt)

theorem options_acknowledged_witness:
  "\<exists>c. new_connection (demo_system True []) (demo_request READ OCTET [(TIMEOUT_OPT, to_string 5)])
       demo_client = Ret c \<and>
     subseq (map fst (oack_options (c_oack_packet c))) [TIMEOUT_OPT]"
proof -
  obtain c where c: "new_connection (demo_system True [])
      (demo_request READ OCTET [(TIMEOUT_OPT, to_string 5)]) demo_client = Ret c"
    using demo_new(1) by blast
  with options_acknowledged [OF c] show ?thesis by simp
qed

section \<open>Retransmission\<close>

text \<open>
  C20: An armed wait whose client stays silent retransmits the last datagram exactly three times, one
  timeout apart, and ends the session at the fourth timeout.
\<close>

theorem silent_client_ends:
  assumes "armed c" and "c_timeout_count c = 0" and "\<not> c_finished c" and "0 < fst a"
  shows "\<exists>c'. silent_rounds 4 a c = Ret ([last_sent c, last_sent c, last_sent c], c') \<and> c_finished c'"
proof -
  have "c_timeout_count c = of_nat 0" using assms(2) by simp
  from silent_rounds_from [OF assms(1) this _ assms(3,4), of 3] show ?thesis
    by (simp add: numeral_eq_Suc del: silent_rounds.simps)
qed

theorem silent_client_ends_witness:
  "\<exists>c'. silent_rounds 4 (1, 0) (arm (demo_conn\<lparr>c_state := WAIT_FOR_ACK, c_pkt_ready := True\<rparr>)) =
     Ret (replicate 3 (serialise_data_packet (c_data_pkt demo_conn)), c') \<and> c_finished c'"
proof -
  let ?c = "arm (demo_conn\<lparr>c_state := WAIT_FOR_ACK, c_pkt_ready := True\<rparr>)"
  have "armed ?c" "last_sent ?c = serialise_data_packet (c_data_pkt demo_conn)"
    "c_timeout_count ?c = 0" "\<not> c_finished ?c"
    by (simp_all add: armed_def arm_def arm_timer_def timeout_ok_def last_sent_def demo_conn_def
        initial_connection_def)
  with silent_client_ends [of ?c "(1, 0)"] show ?thesis
    by (simp add: numeral_eq_Suc del: silent_rounds.simps)
qed

text \<open>
  C36: A session that acknowledges options gets no further by itself: no timer is armed for the OACK, so once
  it is sent, delays and spurious read events leave the session as it is, waiting and unfinished, for ever.
  And an upload waits for block 0: it answers the DATA 1 that RFC 2347 prescribes by going to the error state,
  with nothing stored.
\<close>

theorem oack_dead_end:
  assumes "new_connection sys req cl = Ret c" and "c_state c = SEND_OACK" and "0 < fst a"
  shows "\<exists>c'. handle_write a c = Ret (c', [serialise_oack_packet (c_oack_packet c)]) \<and>
    wait_for_read c' \<and> \<not> c_finished c' \<and> (\<forall>delays. idle_ticks delays c' = Ret c') \<and>
    (rw_type req = WRITE \<and> 4 \<le> block_len c \<longrightarrow>
      (\<exists>c2. handle_read (Datagram (serialise_data_packet \<lparr>pkt_data = d, data_block_number = 1\<rparr>)) c' = Ret c2 \<and>
         c_state c2 = STATE_ERROR \<and> c_file_writer c2 = c_file_writer c))"
proof -
  note c = new_oack_session [OF assms(1,2)]
  from write_oack_waits [OF assms(2) c(1) assms(3)] obtain c' where
    c': "handle_write a c = Ret (c', [serialise_oack_packet (c_oack_packet c)])"
      "wait_for_read c'" "timer_unarmed c'" "c_finished c' = c_finished c" by blast
  then have "\<not> c_finished c'" "\<forall>delays. idle_ticks delays c' = Ret c'"
    using c(2) unarmed_ticks by blast+
  moreover have "\<exists>c2. handle_read (Datagram (serialise_data_packet \<lparr>pkt_data = d, data_block_number = 1\<rparr>)) c' = Ret c2 \<and>
      c_state c2 = STATE_ERROR \<and> c_file_writer c2 = c_file_writer c" if "rw_type req = WRITE" "4 \<le> block_len c"
    using oack_data_rejected [OF assms(2) _ c(1,3) that(2) c'(1) assms(3)] c(4) that(1) by simp
  ultimately show ?thesis using c'(1,2) by blast
qed

theorem oack_dead_end_witness:
  "\<exists>c c1 c2. new_connection (demo_system False [])
       (demo_request WRITE OCTET [(BLKSIZE_OPT, to_string 100)]) demo_client = Ret c \<and>
     handle_write (1, 0) c = Ret (c1, [serialise_oack_packet (c_oack_packet c)]) \<and>
     idle_ticks [10, 3600, 86400] c1 = Ret c1 \<and>
     handle_read (Datagram (serialise_data_packet \<lparr>pkt_data = [7], data_block_number = 1\<rparr>)) c1 = Ret c2 \<and>
     c_state c2 = STATE_ERROR"
proof -
  let ?req = "demo_request WRITE OCTET [(BLKSIZE_OPT, to_string 100)]"
  obtain c where c: "new_connection (demo_system False []) ?req demo_client = Ret c"
    using demo_new(2) by blast
  have oack: "oack_options (c_oack_packet c) \<noteq> []" "4 \<le> block_len c"
    using demo_blksize [OF c demo_allowed(2) demo_mtu] by simp_all
  then have "c_state c = SEND_OACK"
    using new_write_session(2) [OF c demo_simps(1) demo_allowed(2) demo_simps(5)] by simp
  from oack_dead_end [OF c this, of "(1, 0)" "[7]"] oack(2) c show ?thesis
    by (simp del: idle_ticks.simps) blast
qed

section \<open>Every session\<close>

text \<open>
  C19: A constructed session stays well-formed under any events: only a \<open>READ\<close> session is ever in
  \<open>SEND_DATA\<close> or \<open>WAIT_FOR_ACK\<close> and only another one in \<open>SEND_ACK\<close> or \<open>WAIT_FOR_DATA\<close>, at most three
  timeouts are counted, and the reader's overflow buffer never exceeds a block, so that the size
  computed from it does not wrap.
\<close>

theorem session_well_formed:
  assumes "new_connection sys req cl = Ret c" and "session_run c os c'"
  shows "(if c_type c' = READ then c_state c' \<noteq> SEND_ACK \<and> c_state c' \<noteq> WAIT_FOR_DATA
          else c_state c' \<noteq> SEND_DATA \<and> c_state c' \<noteq> WAIT_FOR_ACK) \<and>
    c_timeout_count c' \<le> 3 \<and> length (rf_overflow (c_file_reader c')) \<le> block_len c'"
  using session.run_states [OF assms(2) session_inv_new [OF assms(1)]]
  by (auto simp: session_inv_def direction_ok_def MAX_TIMEOUTS_def)

theorem session_well_formed_witness:
  "\<exists>c d c'. new_connection (demo_system True [1, 2, 3]) (demo_request READ OCTET []) demo_client = Ret c \<and>
     session_run c [d] c' \<and> c_timeout_count c' \<le> 3 \<and>
     length (rf_overflow (c_file_reader c')) \<le> block_len c'"
proof -
  obtain c d c' where c: "new_connection (demo_system True [1, 2, 3]) (demo_request READ OCTET []) demo_client = Ret c"
    "session_run c [d] c'" using demo_sent by blast
  with session_well_formed [OF c] show ?thesis by blast
qed

text \<open>
  When the file of a granted \<open>READ\<close> cannot be opened, the error state the constructor sets is
  overwritten: the session is about to send data and its \<open>handle_write\<close> reads from a null stream.
\<close>

lemma unreadable_file_undefined:
  assumes "new_connection sys req cl = Ret c" and "rw_type req = READ"
    and "is_operation_allowed sys (rw_filename req) READ = Ret None"
    and "sys_fopen_r sys (c_str (rw_filename req)) = Inl e" and "rw_options req = []"
  shows "c_state c = SEND_DATA \<and> handle_write a c = Undefined"
  using read_open_failure [OF assms] by blast

end
