(* ===== verification/Client_Main.thy ===== *)
theory Client_Main
  imports Client
begin

text \<open>
  The client program (\<open>src/client/main.cpp\<close>): its options, the loop over the files, and the exit status.
  \<open>getopt_long\<close> is outside the sources; its successive answers are an argument of \<open>main\<close>, as the code
  reads them: a flag it stored (returning 0), an option character with its \<open>optarg\<close>, or \<open>'?'\<close>.
  The result of \<open>main\<close> is the status with what it prints to \<open>stdout\<close> (the log is not modelled).
\<close>

datatype getopt_answer =
    Flag_verbose | Flag_help | Flag_put
  | Opt_p | Opt_v | Opt_h bytes | Opt_i bytes | Opt_t bytes | Opt_unknown

record client_args =
  verbose_flag :: bool
  help_flag :: bool
  write_flag :: bool
  tftp_host :: bytes
  local_interface :: bytes
  transfer_mode :: bytes

definition initial_args :: client_args where
  "initial_args = \<lparr>verbose_flag = False, help_flag = False, write_flag = False, tftp_host = [],
     local_interface = [], transfer_mode = []\<rparr>"

fun take_option :: "getopt_answer \<Rightarrow> client_args \<Rightarrow> client_args" where
  "take_option Flag_verbose a = a\<lparr>verbose_flag := True\<rparr>"
| "take_option Flag_help a = a\<lparr>help_flag := True\<rparr>"
| "take_option Flag_put a = a\<lparr>write_flag := True\<rparr>"
| "take_option Opt_p a = a\<lparr>write_flag := True\<rparr>"
| "take_option Opt_v a = a\<lparr>verbose_flag := True\<rparr>"
| "take_option (Opt_h optarg) a = a\<lparr>tftp_host := optarg\<rparr>"
| "take_option (Opt_i optarg) a = a\<lparr>local_interface := optarg\<rparr>"
| "take_option (Opt_t optarg) a = a\<lparr>transfer_mode := optarg\<rparr>"
| "take_option Opt_unknown a = a"

definition parse_args :: "getopt_answer list \<Rightarrow> client_args" where
  "parse_args opts = fold take_option opts initial_args"

definition print_help :: "bytes \<Rightarrow> bytes list" where
  "print_help argv0 =
     [argv0 @ bytes_of '': [OPTIONS] FILES...'',
      bytes_of ''  -h --host       : IP address of the TFTP server'',
      bytes_of ''  -i --interface  : IP address of the local interface to send requests from (optional)'',
      bytes_of ''  -p --put        : Put files (default is get)'',
      bytes_of ''  -v --verbose    : Enable verbose logging'']"

definition chosen_mode :: "client_args \<Rightarrow> mode_t option" where
  "chosen_mode a = (if transfer_mode a = [] then Some OCTET else string_to_mode_t (transfer_mode a))"

text \<open>A file named on the command line, with the answers of the system during its transfer.\<close>

record transfer =
  tr_file :: bytes
  tr_system :: client_system
  tr_send :: send_answer
  tr_inputs :: client_input

definition transfer_file :: "client_args \<Rightarrow> mode_t \<Rightarrow> transfer \<Rightarrow> client_result outcome" where
  "transfer_file a mode t =
     (if write_flag a
      then send_file (tr_system t) (tr_file t) (tftp_host a) mode (local_interface a) (tr_send t) (tr_inputs t)
      else get_file (tr_system t) (tr_file t) (tftp_host a) mode (local_interface a) (tr_send t) (tr_inputs t))"

text \<open>The loop over the files: the results are not looked at, only an exception leaves it.\<close>

fun transfer_files :: "client_args \<Rightarrow> mode_t \<Rightarrow> transfer list \<Rightarrow> client_result list outcome" where
  "transfer_files a mode [] = Ret []"
| "transfer_files a mode (t # ts) =
     obind (transfer_file a mode t) (\<lambda>r.
     obind (transfer_files a mode ts) (\<lambda>rs. Ret (r # rs)))"

definition client_main ::
  "bytes \<Rightarrow> getopt_answer list \<Rightarrow> transfer list \<Rightarrow> (int \<times> bytes list) outcome" where
  "client_main argv0 opts ts =
     (let a = parse_args opts in
      if help_flag a then Ret (0, print_help argv0)
      else
        (case chosen_mode a of
           None \<Rightarrow> Ret (1, [])
         | Some mode \<Rightarrow>
             (case transfer_files a mode ts of
                Ret rs \<Rightarrow> Ret (0, [])
              | Throw e \<Rightarrow> Ret (1, [])
              | Undefined \<Rightarrow> Undefined
              | Diverges \<Rightarrow> Diverges)))"

subsection \<open>Results of the loop\<close>

lemma transfer_files_all2:
  assumes "list_all2 Q xs ts"
    and "\<And>x t. x \<in> set xs \<Longrightarrow> Q x t \<Longrightarrow> \<exists>r. transfer_file a mode t = Ret r \<and> P x r"
  shows "\<exists>rs. transfer_files a mode ts = Ret rs \<and> list_all2 P xs rs"
  using assms
proof (induction xs ts rule: list_all2_induct)
  case (Cons x xs t ts)
  from Cons.prems Cons.hyps(1) obtain r where r: "transfer_file a mode t = Ret r" "P x r" by auto
  from Cons.IH Cons.prems obtain rs where "transfer_files a mode ts = Ret rs" "list_all2 P xs rs" by auto
  with r show ?case by (intro exI [of _ "r # rs"]) simp
qed simp

text \<open>The first transfer that throws ends the loop; those before it have been made.\<close>

lemma transfer_files_throw:
  "transfer_files a mode ts = Ret rs \<Longrightarrow> transfer_file a mode t = Throw e \<Longrightarrow>
   transfer_files a mode (ts @ t # us) = Throw e"
  by (induction ts arbitrary: rs) (auto simp: outcome_simps)

text \<open>A request refused with an ERROR packet.\<close>

definition refused :: "client_args \<Rightarrow> transfer \<Rightarrow> bool" where
  "refused a t \<longleftrightarrow> client_ready (tr_system t) (tftp_host a) (local_interface a) \<and>
     (\<exists>sa e rest. tr_inputs t = ((1, True), Datagram_from sa (serialise_error_packet e)) # rest)"

lemma error_not_parsed:
  "deserialise_data_packet (take n (serialise_error_packet e)) = None"
  "deserialise_ack_packet (take n (serialise_error_packet e)) = None"
proof -
  have "length (take n (serialise_error_packet e)) < 2 \<or> take n (serialise_error_packet e) ! 1 = packet_code ERROR"
    using serialise_tags(4) [of e] by (cases "n < 2") (simp_all add: not_less)
  then show "deserialise_data_packet (take n (serialise_error_packet e)) = None"
    "deserialise_ack_packet (take n (serialise_error_packet e)) = None"
    by (auto intro: data_codec.decode_short data_codec.decode_other_tag ack_codec.decode_short
        ack_codec.decode_other_tag)
qed

lemma refused_transfer:
  assumes "refused a t"
  shows "\<exists>r. transfer_file a mode t = Ret r \<and> \<not> res_ok r \<and> res_sent r = [] \<and> res_file r = None"
proof -
  from assms obtain udp udp1 where udp:
    "udp_new (cl_socket (tr_system t)) (cl_setsockopt (tr_system t)) = Ret udp"
    "udp_bind (local_interface a) 0 (cl_bind (tr_system t)) udp = Ret udp1"
    "\<And>data sa. \<exists>r. udp_send_to (tftp_host a) 69 data sa = Ret r"
    by (auto simp: refused_def returns_iff elim!: client_ready_udp)
  have send: "\<exists>ret sent. udp_send_to (tftp_host a) 69 (serialise_rw_packet
      (mk_rw_packet (tr_file t) type mode)) (tr_send t) = Ret (ret, sent)" for type
    using udp(3) by (metis surj_pair)
  from send [of READ] send [of WRITE] udp(1,2) assms show ?thesis
    by (auto simp: refused_def transfer_file_def get_file_def send_file_def error_not_parsed)
qed

text \<open>A download handed the blocks of a file no pair of which is cut, or one of which is.\<close>

definition served :: "client_args \<Rightarrow> mode_t \<Rightarrow> bytes \<Rightarrow> transfer \<Rightarrow> bool" where
  "served a mode content t \<longleftrightarrow>
     client_ready (tr_system t) (tftp_host a) (local_interface a) \<and>
     cl_ofstream (tr_system t) (path_filename (tr_file t)) = Some (open_outfile None) \<and>
     (\<exists>sa. tr_inputs t = delivered sa (map (block_datagram (rf_convert mode content))
        [1..<length (rf_convert mode content) div 512 + 2]))"

lemma served_transfer:
  assumes "served a mode content t" and "\<not> write_flag a"
  shows "pairs_whole mode 512 (rf_convert mode content) \<Longrightarrow>
      \<exists>r f. transfer_file a mode t = Ret r \<and> res_ok r \<and> res_file r = Some f \<and> out_data f = content"
    and "\<not> pairs_whole mode 512 (rf_convert mode content) \<Longrightarrow>
      transfer_file a mode t = Throw (Runtime_error ''Invalid character sequence : EOL after CR'')"
proof -
  from assms obtain sa where t: "client_ready (tr_system t) (tftp_host a) (local_interface a)"
    "cl_ofstream (tr_system t) (path_filename (tr_file t)) = Some (open_outfile None)"
    "tr_inputs t = delivered sa (map (block_datagram (rf_convert mode content))
        [1..<length (rf_convert mode content) div 512 + 2])" by (auto simp: served_def simp del: upt_Suc)
  show "\<exists>r f. transfer_file a mode t = Ret r \<and> res_ok r \<and> res_file r = Some f \<and> out_data f = content"
    if "pairs_whole mode 512 (rf_convert mode content)"
    unfolding transfer_file_def t(3)
    using get_file_blocks [OF t(1,2) that, of "tr_send t" sa] assms(2) by (simp del: upt_Suc) blast
  show "transfer_file a mode t = Throw (Runtime_error ''Invalid character sequence : EOL after CR'')"
    if "\<not> pairs_whole mode 512 (rf_convert mode content)"
    unfolding transfer_file_def t(3)
    using get_file_cut [OF t(1,2) that, of "tr_send t" sa] assms(2) by (simp del: upt_Suc)
qed

end
