(* ===== verification/Server_Main.thy ===== *)
theory Server_Main
  imports Service
begin

text \<open>
  The server program (\<open>src/server/main.cpp\<close>): its arguments, the logger, the signal handler, the
  server on port 69 with room for 100 clients, and the exit status.  The result of \<open>main\<close> is the
  status with the lines it prints to \<open>stderr\<close> itself (the log is not modelled).
\<close>

subsection \<open>The program\<close>

definition print_usage :: "bytes \<Rightarrow> bytes list" where
  "print_usage argv0 =
     [bytes_of ''Usage: '' @ argv0 @ bytes_of '' [SERVER_ROOT] [INTERFACE] [DEBUG]'',
      [9] @ bytes_of ''SERVER_ROOT: (Required) Path to a directory from which to serve / receive files'',
      [9] @ bytes_of ''INTERFACE:   (Required) Local ip address to bind to (0.0.0.0 for all)'',
      [9] @ bytes_of ''DEBUG:       (Optional) 1 to turn on debug and trace prints'']"

text \<open>\<open>std::exception::what\<close>, for the exceptions of \<open>std::stoul\<close>.\<close>

definition stoul_what :: "exn \<Rightarrow> bytes" where
  "stoul_what e = (case e of Invalid_argument s \<Rightarrow> bytes_of s | Out_of_range s \<Rightarrow> bytes_of s | _ \<Rightarrow> [])"

datatype log_level = Level_trace | Level_info

text \<open>\<open>initialise_logger\<close>: \<open>ready\<close> tells whether spdlog could set up the logger, or threw.\<close>

definition initialise_logger :: "bool \<Rightarrow> bool \<Rightarrow> int \<times> log_level option \<times> bytes list" where
  "initialise_logger trace ready =
     (if ready then (0, Some (if trace then Level_trace else Level_info), [])
      else (1, None, [bytes_of ''Failed to setup logger'']))"

text \<open>What the system answers while the server is set up.\<close>

record server_host =
  sh_logger :: bool
  sh_socket :: "int + int"
  sh_setsockopt :: "int option"
  sh_bind :: "int option"
  sh_getfl :: "int option"
  sh_setfl :: "int option"
  sh_chdir :: "bytes \<Rightarrow> int option"
  sh_epoll_create1 :: "int + int"

text \<open>The signal handler, with the global \<open>_pserver\<close> (\<open>None\<close>: null).\<close>

definition sig_handler :: "server option \<Rightarrow> server option" where
  "sig_handler pserver = map_option server_stop pserver"

definition construct_server :: "server_host \<Rightarrow> bytes \<Rightarrow> bytes \<Rightarrow> server outcome" where
  "construct_server host server_root interface =
     new_server interface 69 100 (sh_socket host) (sh_setsockopt host) (sh_bind host)
       (sh_getfl host) (sh_setfl host) (sh_chdir host (c_str server_root)) (sh_epoll_create1 host)"

text \<open>The \<open>try\<close> block: \<open>start\<close> returns once \<open>stop\<close> was called; until then the program runs.\<close>

definition run_server ::
  "server_host \<Rightarrow> bytes \<Rightarrow> bytes \<Rightarrow> (nat \<Rightarrow> system) \<Rightarrow> (bool \<times> nat \<times> wait_answer) list \<Rightarrow> unit outcome" where
  "run_server host server_root interface sys ws =
     obind (construct_server host server_root interface) (\<lambda>sv.
     obind (server_start sys ws sv) (\<lambda>(sv, out).
       if sv_exit_requested sv then Ret () else Diverges))"

definition server_main ::
  "server_host \<Rightarrow> bytes \<Rightarrow> bytes list \<Rightarrow> (nat \<Rightarrow> system) \<Rightarrow> (bool \<times> nat \<times> wait_answer) list \<Rightarrow>
   (int \<times> bytes list) outcome" where
  "server_main host argv0 args sys ws =
     (if length args < 2 then Ret (1, print_usage argv0)
      else
        (case (if 2 < length args then stoul (args ! 2) else Ret 0) of
           Ret v \<Rightarrow>
             (let (failed, level, err) = initialise_logger (v \<noteq> 0) (sh_logger host) in
              if failed \<noteq> 0 then Ret (1, err)
              else
                (case run_server host (args ! 0) (args ! 1) sys ws of
                   Ret _ \<Rightarrow> Ret (0, [])
                 | Throw e \<Rightarrow> Ret (1, [])
                 | Undefined \<Rightarrow> Undefined
                 | Diverges \<Rightarrow> Diverges))
         | Throw e \<Rightarrow> Ret (1, [bytes_of ''Failed to parse DEBUG argument : '' @ stoul_what e])
         | Undefined \<Rightarrow> Undefined
         | Diverges \<Rightarrow> Diverges))"

subsection \<open>Turns of the loop in sequence\<close>

lemma server_loop_append:
  "server_loop sys us sv = Ret (sv1, out) \<Longrightarrow> \<not> sv_exit_requested sv1 \<Longrightarrow>
   server_loop sys (us @ ws) sv =
     obind (server_loop sys ws sv1) (\<lambda>(sv2, out'). Ret (sv2, out @ out'))"
proof (induction sys us sv arbitrary: out rule: server_loop.induct)
  case (1 sys sv)
  then show ?case by (cases "server_loop sys ws sv") auto
next
  case (2 sys stop s w us sv)
  let ?sv = "if stop then server_stop sv else sv"
  have run: "\<not> sv_exit_requested ?sv" using 2(3,4) by (auto simp: Let_def)
  show ?case
  proof (cases w)
    case (Wait_errno e)
    with run 2(3) have "e = EINTR" "server_loop sys us (elapse_all s ?sv) = Ret (sv1, out)"
      by (auto simp: Let_def split: if_splits)
    with 2(1) [OF refl run Wait_errno] 2(4) run Wait_errno show ?thesis by simp
  next
    case (Wait_events es)
    with run 2(3) obtain sv' o1 sv'' o2 where
      step: "service_events sys es (elapse_all s ?sv) = Ret (sv', o1)" "clean_server sv' = Ret sv''"
        "server_loop sys us sv'' = Ret (sv1, o2)" "out = o1 @ o2"
      by (auto simp: Let_def outcome_simps)
    have "server_loop sys (us @ ws) sv'' =
        obind (server_loop sys ws sv1) (\<lambda>(sv2, out'). Ret (sv2, o2 @ out'))"
      using 2(2) [OF refl run Wait_events step(1) refl step(2,3) 2(4)] .
    with run step(1,2,4) Wait_events show ?thesis
      by (cases "server_loop sys ws sv1") (auto simp: Let_def)
  qed
qed

text \<open>Only \<open>stop\<close> sets the flag the loop tests.\<close>

lemma accept_requests_exit:
  "accept_requests sys sv = Ret sv' \<Longrightarrow> sv_exit_requested sv' = sv_exit_requested sv"
proof (induction sys sv rule: accept_requests.induct)
  case (1 sys sv)
  show ?case
  proof (cases "requests_pending (sv_conn_handler sv) \<and>
      length (sv_client_connections sv) < sv_max_clients sv")
    case True
    with 1(2) obtain x sv1 where x: "get_request (sv_conn_handler sv) = Ret x"
      "accept_request sys (fst x) (sv\<lparr>sv_conn_handler := snd x\<rparr>) = Ret sv1"
      "accept_requests sys sv1 = Ret sv'"
      by (subst (asm) accept_requests.simps) (auto simp: outcome_simps)
    have "sv_exit_requested sv1 = sv_exit_requested sv"
      using x(2) by (auto simp: accept_request_def Let_def outcome_simps)
    with 1(1) [OF True x] show ?thesis by simp
  next
    case False
    with 1(2) show ?thesis by (subst (asm) accept_requests.simps) simp
  qed
qed

lemma service_events_exit:
  "service_events sys es sv = Ret (sv', out) \<Longrightarrow> sv_exit_requested sv' = sv_exit_requested sv"
proof (induction es arbitrary: sv out)
  case (Cons e es)
  from Cons.prems obtain sv1 o1 o2 where step: "service_event sys e sv = Ret (sv1, o1)"
    "service_events sys es sv1 = Ret (sv', o2)" by (auto simp: outcome_simps)
  have "sv_exit_requested sv1 = sv_exit_requested sv"
    using step(1)
    by (cases e) (auto simp: service_event_def outcome_simps dest: accept_requests_exit split: option.splits)
  with Cons.IH [OF step(2)] show ?case by simp
qed simp

lemma clean_server_exit: "clean_server sv = Ret sv' \<Longrightarrow> sv_exit_requested sv' = sv_exit_requested sv"
  by (auto simp: clean_server_def outcome_simps)

lemma server_loop_exit:
  "server_loop sys ws sv = Ret (sv', out) \<Longrightarrow> sv_exit_requested sv' \<Longrightarrow> \<not> sv_exit_requested sv \<Longrightarrow>
   \<exists>(stop, s, w) \<in> set ws. stop"
proof (induction sys ws sv arbitrary: out rule: server_loop.induct)
  case (2 sys stop s w ws sv)
  show ?case
  proof (cases stop)
    case False
    show ?thesis
    proof (cases w)
      case (Wait_errno e)
      with False 2(3,5) have "server_loop sys ws (elapse_all s sv) = Ret (sv', out)"
        by (auto simp: Let_def split: if_splits)
      with 2(1) [OF refl _ Wait_errno] 2(3-5) False Wait_errno show ?thesis
        by (auto simp: elapse_all_def split: if_splits)
    next
      case (Wait_events es)
      with False 2(3,5) obtain sv1 o1 sv2 o2 where
        step: "service_events sys es (elapse_all s sv) = Ret (sv1, o1)" "clean_server sv1 = Ret sv2"
          "server_loop sys ws sv2 = Ret (sv', o2)"
        by (auto simp: Let_def outcome_simps)
      have "\<not> sv_exit_requested sv2"
        using clean_server_exit [OF step(2)] service_events_exit [OF step(1)] 2(5)
        by (simp add: elapse_all_def)
      with 2(2) [of sv es "(sv1, o1)"] step 2(4,5) Wait_events False show ?thesis by fastforce
    qed
  qed auto
qed simp

subsection \<open>How the program ends\<close>

definition server_args :: "server_host \<Rightarrow> bytes list \<Rightarrow> bool" where
  "server_args host args \<longleftrightarrow> 2 \<le> length args \<and> (2 < length args \<longrightarrow> returns (stoul (args ! 2))) \<and>
     sh_logger host"

lemma server_main_runs:
  assumes "server_args host args"
  shows "server_main host argv0 args sys ws =
    (case run_server host (args ! 0) (args ! 1) sys ws of
       Ret _ \<Rightarrow> Ret (0, []) | Throw e \<Rightarrow> Ret (1, []) | Undefined \<Rightarrow> Undefined | Diverges \<Rightarrow> Diverges)"
  using assms
  by (cases "2 < length args")
    (auto simp: server_main_def server_args_def initialise_logger_def returns_iff)

lemma constructed_running:
  assumes "construct_server host root interface = Ret sv"
  shows "\<not> sv_exit_requested (sv\<lparr>sv_epoll := [Listen_fd \<mapsto> EPOLLIN]\<rparr>)"
  using assms by (auto simp: construct_server_def new_server_def outcome_simps split: if_splits sum.splits)

lemma server_main_status_0:
  assumes "server_main host argv0 args sys ws = Ret (0, err)"
  shows "\<exists>(stop, s, w) \<in> set ws. stop"
proof -
  from assms have "server_args host args"
    by (auto simp: server_main_def server_args_def initialise_logger_def returns_iff Let_def not_less
        split: if_splits outcome.splits)
  from assms have "run_server host (args ! 0) (args ! 1) sys ws = Ret ()"
    unfolding server_main_runs [OF \<open>server_args host args\<close>] by (auto split: outcome.splits)
  then obtain sv sv' out where sv: "construct_server host (args ! 0) (args ! 1) = Ret sv"
    "server_start sys ws sv = Ret (sv', out)" "sv_exit_requested sv'"
    by (auto simp: run_server_def outcome_simps split: if_splits)
  from sv(2) have "server_loop sys ws (sv\<lparr>sv_epoll := [Listen_fd \<mapsto> EPOLLIN]\<rparr>) = Ret (sv', out)"
    by (simp only: server_inv_new(2) [OF sv(1) [unfolded construct_server_def]])
  then show ?thesis using sv(3) constructed_running [OF sv(1)] by (rule server_loop_exit)
qed

text \<open>A server that has run through some turns, and is still running.\<close>

definition serving ::
  "server_host \<Rightarrow> bytes list \<Rightarrow> (nat \<Rightarrow> system) \<Rightarrow> (bool \<times> nat \<times> wait_answer) list \<Rightarrow> server \<Rightarrow> bool" where
  "serving host args sys us sv \<longleftrightarrow> server_args host args \<and> \<not> sv_exit_requested sv \<and>
     (\<exists>sv0 out. construct_server host (args ! 0) (args ! 1) = Ret sv0 \<and>
        server_start sys us sv0 = Ret (sv, out))"

lemma serving_inv: "serving host args sys us sv \<Longrightarrow> server_inv sv"
  using server_inv_new server_inv_loop unfolding serving_def construct_server_def by metis

lemma server_main_continues:
  assumes "serving host args sys us sv"
  shows "server_main host argv0 args sys (us @ ws) =
    (case server_loop sys ws sv of
       Ret (sv', out) \<Rightarrow> if sv_exit_requested sv' then Ret (0, []) else Diverges
     | Throw e \<Rightarrow> Ret (1, [])
     | Undefined \<Rightarrow> Undefined
     | Diverges \<Rightarrow> Diverges)"
proof -
  from assms obtain sv0 out where args: "server_args host args" and run: "\<not> sv_exit_requested sv"
    and sv0: "construct_server host (args ! 0) (args ! 1) = Ret sv0" "server_start sys us sv0 = Ret (sv, out)"
    by (auto simp: serving_def)
  note start = server_inv_new(2) [OF sv0(1) [unfolded construct_server_def]]
  have "server_start sys (us @ ws) sv0 =
      obind (server_loop sys ws sv) (\<lambda>(sv', out'). Ret (sv', out @ out'))"
    using server_loop_append [OF _ run] sv0(2) by (simp only: start)
  then show ?thesis
    unfolding server_main_runs [OF args] run_server_def sv0(1) obind.simps
    by (cases "server_loop sys ws sv") auto
qed

text \<open>A handler that throws, or does not return, ends the program or hangs it.\<close>

lemma read_stops_program:
  assumes "serving host args sys us sv" and "map_of (sv_client_connections (elapse_all s sv)) i = Some c"
    and "ev_in events"
  shows "handle_read ra c = Throw e \<Longrightarrow> server_main host argv0 args sys
      (us @ (False, s, Wait_events (Client_event i events ra sa # es)) # ws) = Ret (1, [])"
    and "handle_read ra c = Diverges \<Longrightarrow> server_main host argv0 args sys
      (us @ (False, s, Wait_events (Client_event i events ra sa # es)) # ws) = Diverges"
proof -
  from assms(1) have run: "\<not> sv_exit_requested sv" by (simp add: serving_def)
  note eq = service_client_eq [OF server_inv_elapse [OF serving_inv [OF assms(1)]] assms(2)]
  show "handle_read ra c = Throw e \<Longrightarrow> server_main host argv0 args sys
      (us @ (False, s, Wait_events (Client_event i events ra sa # es)) # ws) = Ret (1, [])"
    and "handle_read ra c = Diverges \<Longrightarrow> server_main host argv0 args sys
      (us @ (False, s, Wait_events (Client_event i events ra sa # es)) # ws) = Diverges"
    using run assms(3)
    by (simp_all add: server_main_continues [OF assms(1)] eq service_connection_def)
qed

text \<open>The entry of a turn before which \<open>stop\<close> was called is the one the signal handler leads to.\<close>

lemma stop_is_signal:
  "server_loop sys ((True, s, w) # ws) sv = server_loop sys ((False, s, w) # ws) (the (sig_handler (Some sv)))"
  by (simp add: sig_handler_def)

lemma serving_extend:
  assumes "serving host args sys us sv" and "server_loop sys ws sv = Ret (sv', out)"
    and "\<not> sv_exit_requested sv'"
  shows "serving host args sys (us @ ws) sv'"
proof -
  from assms(1) obtain sv0 out0 where args: "server_args host args" and run: "\<not> sv_exit_requested sv"
    and sv0: "construct_server host (args ! 0) (args ! 1) = Ret sv0" "server_start sys us sv0 = Ret (sv, out0)"
    by (auto simp: serving_def)
  note start = server_inv_new(2) [OF sv0(1) [unfolded construct_server_def]]
  have "server_start sys (us @ ws) sv0 = Ret (sv', out0 @ out)"
    using server_loop_append [OF _ run] sv0(2) assms(2) by (simp only: start) simp
  with args assms(3) sv0(1) show ?thesis by (auto simp: serving_def)
qed

subsection \<open>Turns with a single client\<close>

lemma request_turn:
  assumes inv: "server_inv sv" and run: "\<not> sv_exit_requested sv"
    and empty: "sv_client_connections sv = []" "h_request_queue (sv_conn_handler sv) = []"
    and room: "0 < sv_max_clients sv"
    and r: "d \<noteq> []" "parse_request (sa, d) = Some r"
    and c: "new_connection (sys (sv_next sv)) (request r) (client r) = Ret c" "\<not> c_finished c"
  shows "\<exists>sv'. server_loop sys [(False, s, Wait_events [Request_event [Datagram_from sa d]])] sv = Ret (sv', []) \<and>
    sv_client_connections sv' = [(sv_next sv, c)] \<and> \<not> sv_exit_requested sv'"
proof -
  have none: "drained_to [] []" by (simp add: drained_to_def)
  from handler_reads_arrivals [of "[(sa, d)]" "[]" "[]" "sv_conn_handler sv", OF _ none] r obtain h where h:
    "handler_handle_read [Datagram_from sa d] (sv_conn_handler sv) = Ret (h, [])"
    "h_request_queue h = [r]" using empty(2) by (auto simp: List.map_filter_def)
  have same: "elapse_all s sv = sv" using empty(1) by (simp add: elapse_all_def)
  let ?sv = "sv\<lparr>sv_conn_handler := h\<rparr>"
  let ?sv' = "?sv\<lparr>sv_conn_handler := h\<lparr>h_request_queue := []\<rparr>, sv_client_connections := [(sv_next sv, c)],
      sv_next := Suc (sv_next sv), sv_epoll := registrations [(sv_next sv, c)]\<rparr>"
  have "accept_requests sys ?sv = Ret ?sv'"
    by (subst accept_one [of ?sv r "[]" sys c])
      (use inv h(2) empty room c(1) in \<open>simp_all add: accept_none\<close>)
  moreover have "clean_server ?sv' = Ret ?sv'"
    using c(2) by (simp add: clean_server_def c_is_finished_def)
  ultimately show ?thesis
    using run by (simp add: same service_event_def h(1))
qed

lemma client_turn:
  assumes inv: "server_inv sv" and run: "\<not> sv_exit_requested sv"
    and conns: "sv_client_connections sv = [(i, c)]"
    and serve: "service_connection events ra sa (c\<lparr>c_timer := elapse s (c_timer c)\<rparr>) = Ret (c', os)"
  shows "c_finished c' \<Longrightarrow> server_loop sys ((False, s, Wait_events [Client_event i events ra sa]) # ws) sv = Undefined"
    and "\<not> c_finished c' \<Longrightarrow>
      \<exists>sv'. server_loop sys [(False, s, Wait_events [Client_event i events ra sa])] sv =
        Ret (sv', map (Pair (c_client c)) os) \<and>
      sv_client_connections sv' = [(i, c')] \<and> \<not> sv_exit_requested sv'"
proof -
  have inv': "server_inv (elapse_all s sv)" using inv by (rule server_inv_elapse)
  have c: "map_of (sv_client_connections (elapse_all s sv)) i = Some (c\<lparr>c_timer := elapse s (c_timer c)\<rparr>)"
    "sv_client_connections (elapse_all s sv) = [(i, c\<lparr>c_timer := elapse s (c_timer c)\<rparr>)]"
    using conns by (simp_all add: elapse_all_def)
  define sv1 where "sv1 = (elapse_all s sv)\<lparr>sv_client_connections := [(i, c')], sv_epoll := registrations [(i, c')]\<rparr>"
  have step: "service_events sys [Client_event i events ra sa] (elapse_all s sv) =
      Ret (sv1, map (Pair (c_client c)) os)"
    using serve by (simp add: service_client_eq [OF inv' c(1)] c(2) sv1_def)
  have inv1: "server_inv sv1" using server_inv_events [OF inv' step] .
  have sv1: "sv_client_connections sv1 = [(i, c')]" "sv_exit_requested sv1 = sv_exit_requested sv"
    by (simp_all add: sv1_def elapse_all_def)
  show "server_loop sys ((False, s, Wait_events [Client_event i events ra sa]) # ws) sv = Undefined"
    if "c_finished c'"
    using that run step sv1 by (simp del: service_events.simps add: server_inv_clean [OF inv1] c_is_finished_def)
  show "\<exists>sv'. server_loop sys [(False, s, Wait_events [Client_event i events ra sa])] sv =
        Ret (sv', map (Pair (c_client c)) os) \<and>
      sv_client_connections sv' = [(i, c')] \<and> \<not> sv_exit_requested sv'"
    if "\<not> c_finished c'"
    using that run step sv1
    by (simp del: service_events.simps add: server_inv_clean [OF inv1] c_is_finished_def)
qed

end
