(* ===== verification/Replies.thy ===== *)
theory Replies
  imports Service
begin

text \<open>
  What leaves the server: a contract on single connections, their requests and the datagrams
  they send, lifted once to the whole event loop, and its interpretation with the packet
  formats: every datagram sent is one of the formats a client parses.
\<close>

lemma set_update_subset: "set (AList.update i c xs) \<subseteq> set xs \<union> {(i, c)}"
  by (induction xs) auto

subsection \<open>From connections to the loop\<close>

text \<open>
  \<open>sys\<close> answers the constructors; \<open>request_ok\<close> holds of the requests that the admitted arrivals \<open>arrival\<close> are parsed to, \<open>inv\<close> of the
  connections made for such requests, and \<open>good\<close> of what those send and to whom.
\<close>

locale served_sessions =
  fixes sys :: "nat \<Rightarrow> system"
    and arrival :: "recvfrom_answer \<Rightarrow> bool"
    and request_ok :: "request_t \<Rightarrow> bool"
    and inv :: "conn \<Rightarrow> bool"
    and good :: "sockaddr_in \<Rightarrow> bytes \<Rightarrow> bool"
  assumes arrival_law: "arrival (Datagram_from sa d) \<Longrightarrow> parse_request (sa, d) = Some r \<Longrightarrow> request_ok r"
    and new_law: "request_ok r \<Longrightarrow> new_connection (sys i) (request r) (client r) = Ret c \<Longrightarrow> inv c"
    and step_law: "inv c \<Longrightarrow> session_step c e os c' \<Longrightarrow>
      inv c' \<and> c_client c' = c_client c \<and> (\<forall>d \<in> set os. good (c_client c) d)"
begin

definition serves :: "server \<Rightarrow> bool" where
  "serves sv \<longleftrightarrow> (\<forall>r \<in> set (h_request_queue (sv_conn_handler sv)). request_ok r) \<and>
     (\<forall>x \<in> set (sv_client_connections sv). inv (snd x))"

definition arrivals_ok :: "wait_answer \<Rightarrow> bool" where
  "arrivals_ok w \<longleftrightarrow> (case w of
     Wait_errno e \<Rightarrow> True
   | Wait_events es \<Rightarrow> (\<forall>answers. Request_event answers \<in> set es \<longrightarrow> (\<forall>a \<in> set answers. arrival a)))"

lemma handle_request_serves:
  assumes "arrival (Datagram_from sa d)" and "\<forall>r \<in> set (h_request_queue h). request_ok r"
  shows "\<forall>r \<in> set (h_request_queue (handle_request (take REQUEST_MAX_SIZE d)
    (dotted_quad (sin_addr sa), ntohs (sin_port sa)) h)). request_ok r"
  using assms arrival_law [OF assms(1)]
  by (auto simp: handle_request_parse List.map_filter_def split: if_splits)

lemma read_loop_serves:
  assumes "handler_read_loop (take REQUEST_MAX_SIZE d) (dotted_quad (sin_addr sa), ntohs (sin_port sa))
      answers h = Ret (h', rest)"
    and "arrival (Datagram_from sa d)" and "\<forall>a \<in> set answers. arrival a"
    and "\<forall>r \<in> set (h_request_queue h). request_ok r"
  shows "\<forall>r \<in> set (h_request_queue h'). request_ok r"
  using assms
proof (induction answers arbitrary: sa d h)
  case Nil
  then show ?case
    using handle_request_serves [OF Nil(2,4)]
    by (subst (asm) handler_read_loop.simps) (auto split: if_splits)
next
  case (Cons a answers)
  let ?h = "handle_request (take REQUEST_MAX_SIZE d) (dotted_quad (sin_addr sa), ntohs (sin_port sa)) h"
  note h = handle_request_serves [OF Cons.prems(2,4)]
  show ?case
  proof (cases "take REQUEST_MAX_SIZE d = []")
    case True
    with Cons.prems(1,4) show ?thesis by (subst (asm) handler_read_loop.simps) simp
  next
    case False
    show ?thesis
    proof (cases a)
      case (Datagram_from sa' d')
      with False Cons.prems(1) have
        "handler_read_loop (take REQUEST_MAX_SIZE d') (dotted_quad (sin_addr sa'), ntohs (sin_port sa'))
          answers ?h = Ret (h', rest)"
        by (subst (asm) handler_read_loop.simps) (simp add: Let_def)
      from Cons.IH [OF this] Cons.prems(3) Datagram_from h show ?thesis by simp
    next
      case (Recvfrom_errno e)
      with False Cons.prems(1) have "h' = ?h"
        by (subst (asm) handler_read_loop.simps)
          (simp add: Let_def handler_read_loop.simps [of "[]"] split: if_splits)
      with h show ?thesis by simp
    qed
  qed
qed

lemma handler_serves:
  assumes "handler_handle_read answers h = Ret (h', rest)" and "\<forall>a \<in> set answers. arrival a"
    and "\<forall>r \<in> set (h_request_queue h). request_ok r"
  shows "\<forall>r \<in> set (h_request_queue h'). request_ok r"
proof (cases answers)
  case Nil
  with assms show ?thesis by (simp add: handler_handle_read_def)
next
  case (Cons a as)
  show ?thesis
  proof (cases a)
    case (Datagram_from sa d)
    with assms Cons read_loop_serves [of d sa as h h' rest] show ?thesis
      by (simp add: handler_handle_read_def)
  next
    case (Recvfrom_errno e)
    with assms Cons show ?thesis
      by (simp add: handler_handle_read_def handler_read_loop.simps [of "[]"] split: if_splits)
  qed
qed

lemma accepts_serve:
  assumes "server_inv sv" and "accept_requests sys sv = Ret sv'" and "serves sv"
  shows "serves sv'"
proof -
  let ?room = "sv_max_clients sv - length (sv_client_connections sv)"
  let ?queue = "h_request_queue (sv_conn_handler sv)"
  from accept_requests_fifo [OF assms(1,2)] obtain cs where
    q: "h_request_queue (sv_conn_handler sv') = drop ?room ?queue"
    and cs: "sv_client_connections sv' = sv_client_connections sv @ cs"
    and new: "list_all2 (\<lambda>r (i, c). new_connection (sys i) (request r) (client r) = Ret c)
        (take ?room ?queue) cs"
    by (auto simp: accepted_def)
  have "inv (snd x)" if "x \<in> set cs" for x
  proof -
    from that obtain n where n: "n < length cs" "x = cs ! n" by (auto simp: in_set_conv_nth)
    with new have "new_connection (sys (fst x)) (request (take ?room ?queue ! n)) (client (take ?room ?queue ! n)) =
        Ret (snd x)" using list_all2_nthD2 [OF new n(1)] by (simp only: case_prod_beta' n(2))
    moreover have "take ?room ?queue ! n \<in> set (take ?room ?queue)"
      using n(1) list_all2_lengthD [OF new] by (intro nth_mem) simp
    then have "request_ok (take ?room ?queue ! n)"
      using assms(3) by (auto simp: serves_def dest: in_set_takeD)
    ultimately show ?thesis using new_law by blast
  qed
  with assms(3) show ?thesis
    by (auto simp: serves_def q cs dest: in_set_dropD)
qed

lemma service_law:
  assumes "inv c" and "service_connection events ra sa c = Ret (c', os)"
  shows "inv c' \<and> c_client c' = c_client c \<and> (\<forall>d \<in> set os. good (c_client c) d)"
proof -
  from assms(2) show ?thesis
  proof (cases rule: service_connection_cases)
    case read
    with step_law [OF assms(1) step_read] show ?thesis by simp
  next
    case send
    with step_law [OF assms(1) step_write] show ?thesis by simp
  next
    case close
    with step_law [OF assms(1) step_hangup] show ?thesis by simp
  next
    case none
    with assms(1) show ?thesis by simp
  qed
qed

lemma event_serves:
  assumes "server_inv sv" and "service_event sys e sv = Ret (sv', out)" and "serves sv"
    and "\<And>answers. e = Request_event answers \<Longrightarrow> \<forall>a \<in> set answers. arrival a"
  shows "serves sv' \<and> (\<forall>(a, d) \<in> set out. good a d)"
proof (cases e)
  case (Request_event answers)
  with assms(2) obtain h rest where h: "handler_handle_read answers (sv_conn_handler sv) = Ret (h, rest)"
    "accept_requests sys (sv\<lparr>sv_conn_handler := h\<rparr>) = Ret sv'" "out = []"
    by (auto simp: service_event_def outcome_simps)
  have "serves (sv\<lparr>sv_conn_handler := h\<rparr>)"
    using handler_serves [OF h(1)] assms(3,4) Request_event by (simp add: serves_def)
  with accepts_serve [OF _ h(2)] assms(1) h(3) show ?thesis by simp
next
  case (Client_event i events ra sa)
  from service_client_cases [OF assms(1) assms(2) [unfolded Client_event]] obtain c c' os where
    c: "map_of (sv_client_connections sv) i = Some c" "service_connection events ra sa c = Ret (c', os)"
    and sv': "sv' = sv\<lparr>sv_client_connections := AList.update i c' (sv_client_connections sv),
             sv_epoll := registrations (AList.update i c' (sv_client_connections sv))\<rparr>"
    and out: "out = map (Pair (c_client c)) os" by metis
  have "inv c" using c(1) assms(3) by (force simp: serves_def dest: map_of_SomeD)
  note law = service_law [OF this c(2)]
  have "set (AList.update i c' (sv_client_connections sv)) \<subseteq> set (sv_client_connections sv) \<union> {(i, c')}"
    by (rule set_update_subset)
  with law assms(3) show ?thesis by (auto simp: serves_def sv' out)
qed

lemma events_serve:
  "server_inv sv \<Longrightarrow> service_events sys es sv = Ret (sv', out) \<Longrightarrow> serves sv \<Longrightarrow>
   arrivals_ok (Wait_events es) \<Longrightarrow> serves sv' \<and> (\<forall>(a, d) \<in> set out. good a d)"
proof (induction es arbitrary: sv out)
  case (Cons e es)
  from Cons.prems(2) obtain sv1 o1 o2 where step: "service_event sys e sv = Ret (sv1, o1)"
    "service_events sys es sv1 = Ret (sv', o2)" "out = o1 @ o2" by (auto simp: outcome_simps)
  have "serves sv1 \<and> (\<forall>(a, d) \<in> set o1. good a d)"
    by (rule event_serves [OF Cons.prems(1) step(1) Cons.prems(3)])
      (use Cons.prems(4) in \<open>auto simp: arrivals_ok_def\<close>)
  moreover have "arrivals_ok (Wait_events es)" using Cons.prems(4) by (auto simp: arrivals_ok_def)
  ultimately show ?case
    using Cons.IH [OF server_inv_event [OF Cons.prems(1) step(1)] step(2)] step(3) by auto
qed simp

lemma serves_elapse: "serves sv \<Longrightarrow> serves (elapse_all s sv)"
proof -
  have "inv c \<Longrightarrow> inv (c\<lparr>c_timer := elapse s (c_timer c)\<rparr>)" for c
    using step_law step_elapse by blast
  then show "serves sv \<Longrightarrow> serves (elapse_all s sv)"
    by (fastforce simp: serves_def elapse_all_def)
qed

lemma clean_serves:
  assumes "server_inv sv" and "clean_server sv = Ret sv'" and "serves sv"
  shows "serves sv'"
proof -
  from assms(2) obtain conns where conns: "clean_pass (sv_client_connections sv) = Some conns"
    "sv' = sv\<lparr>sv_client_connections := conns, sv_epoll := registrations conns\<rparr>"
    by (auto simp: server_inv_clean [OF assms(1)] split: option.splits)
  have "set conns \<subseteq> set (sv_client_connections sv)"
    using clean_pass_keeps [OF conns(1)] by (auto dest: list_emb_set)
  with assms(3) show ?thesis by (auto simp: serves_def conns(2))
qed

lemma loop_serves:
  "server_inv sv \<Longrightarrow> server_loop sys ws sv = Ret (sv', out) \<Longrightarrow> serves sv \<Longrightarrow>
   \<forall>(stop, s, w) \<in> set ws. arrivals_ok w \<Longrightarrow> serves sv' \<and> (\<forall>(a, d) \<in> set out. good a d)"
proof (induction ws arbitrary: sv out)
  case (Cons x ws)
  obtain stop s w where x: "x = (stop, s, w)" by (cases x)
  let ?sv = "if stop then server_stop sv else sv"
  have inv: "server_inv (elapse_all s ?sv)"
    using Cons.prems(1) by (intro server_inv_elapse) (simp add: server_stop_def server_inv_def)
  have ok: "serves (elapse_all s ?sv)"
    using Cons.prems(3) by (intro serves_elapse) (simp add: server_stop_def serves_def)
  show ?case
  proof (cases "sv_exit_requested ?sv")
    case True
    with Cons.prems(2,3) show ?thesis by (cases stop) (auto simp: x server_stop_def serves_def)
  next
    case False
    show ?thesis
    proof (cases w)
      case (Wait_errno e)
      with False Cons.prems(2) have "server_loop sys ws (elapse_all s ?sv) = Ret (sv', out)"
        by (auto simp: x Let_def split: if_splits)
      with Cons.IH [OF inv _ ok] Cons.prems(4) show ?thesis by simp
    next
      case (Wait_events es)
      with False Cons.prems(2) obtain sv1 o1 sv2 o2 where
        step: "service_events sys es (elapse_all s ?sv) = Ret (sv1, o1)" "clean_server sv1 = Ret sv2"
          "server_loop sys ws sv2 = Ret (sv', o2)" "out = o1 @ o2"
        by (auto simp: x Let_def outcome_simps)
      note inv1 = server_inv_events [OF inv step(1)]
      have sv1: "serves sv1 \<and> (\<forall>(a, d) \<in> set o1. good a d)"
        by (rule events_serve [OF inv step(1) ok]) (use Cons.prems(4) x Wait_events in simp)
      with clean_serves [OF inv1 step(2)] have "serves sv2" by simp
      with Cons.IH [OF server_inv_cleaned [OF inv1 step(2)] step(3)] Cons.prems(4) sv1 step(4)
      show ?thesis by auto
    qed
  qed
qed simp

lemma new_server_serves:
  assumes "new_server addr port max_clients socket opt bind getfl setfl chdir ep = Ret sv"
    and "server_start sys ws sv = Ret (sv', out)" and "\<forall>(stop, s, w) \<in> set ws. arrivals_ok w"
  shows "serves sv'" and "(a, d) \<in> set out \<Longrightarrow> good a d"
proof -
  have "serves (sv\<lparr>sv_epoll := [Listen_fd \<mapsto> EPOLLIN]\<rparr>)"
    using assms(1) by (auto simp: new_server_def new_handler_def outcome_simps serves_def Let_def
        split: if_splits sum.splits)
  with loop_serves [OF server_inv_new(1) [OF assms(1)] assms(2) [unfolded server_inv_new(2) [OF assms(1)]]]
    assms(3) show "serves sv'" and "(a, d) \<in> set out \<Longrightarrow> good a d" by blast+
qed

end

subsection \<open>What a session can send\<close>

text \<open>Every handler leaves client, type and OACK of its connection, and sets one ERROR at most.\<close>

definition same_replies :: "conn \<Rightarrow> conn \<Rightarrow> bool" where
  "same_replies c c' \<longleftrightarrow> c_client c' = c_client c \<and> c_type c' = c_type c \<and> c_oack_packet c' = c_oack_packet c \<and>
     (c_error_pkt c' = c_error_pkt c \<or>
      c_error_pkt c' = mk_error_packet NOT_DEFINED ''Internal server error'')"

lemma same_replies_read:
  assumes "handle_read a c = Ret c'"
  shows "same_replies c c'"
  using assms
proof (cases rule: handle_read_cases)
  case timeout
  then show ?thesis
    by (cases "timer_read c" rule: handle_timeout_cases) (simp_all add: same_replies_def)
next
  case (ack d)
  then show ?thesis
    by (cases d "timer_read c" rule: read_ack_cases) (simp_all add: same_replies_def)
next
  case (data d)
  from data(4) show ?thesis
    by (cases rule: read_data_cases) (simp_all add: same_replies_def internal_error_def)
next
  case idle
  then show ?thesis by (simp add: same_replies_def)
qed

lemma same_replies_prepare: "prepare_data c = Ret (go, c') \<Longrightarrow> same_replies c c'"
  by (erule prepare_data_cases) (simp_all add: same_replies_def internal_error_def)

lemma same_replies_writes:
  "same_replies c (fst (write_data a c))" "same_replies c (fst (write_ack a c))"
  "same_replies c (fst (write_oack a c))" "same_replies c (fst (write_error a c))"
  by (auto simp: write_defs same_replies_def internal_error_def arm_def)

lemma same_replies_trans: "same_replies a b \<Longrightarrow> same_replies b c \<Longrightarrow> same_replies a c"
  by (auto simp: same_replies_def)

text \<open>What one call of \<open>handle_write\<close> may send.\<close>

definition reply_of :: "conn \<Rightarrow> bytes \<Rightarrow> bool" where
  "reply_of c d \<longleftrightarrow> (\<exists>p. d = serialise_data_packet p) \<or> (\<exists>p. d = serialise_ack_packet p) \<or>
     d = serialise_oack_packet (c_oack_packet c) \<or> d = serialise_error_packet (c_error_pkt c)"

lemma handle_write_replies:
  assumes "handle_write a c = Ret (c', os)"
  shows "same_replies c c' \<and> (\<forall>d \<in> set os. reply_of c d)"
  using assms
proof (cases rule: handle_write_cases)
  case (data c1)
  with same_replies_trans [OF same_replies_prepare [OF data(2)] same_replies_writes(1) [of c1 a]]
    write_data_output [of _ a c1] show ?thesis by (auto simp: reply_of_def)
next
  case no_data
  with same_replies_prepare [OF no_data(2)] show ?thesis by simp
next
  case ack
  with same_replies_writes(2) [of c a] show ?thesis
    by (auto simp: write_defs reply_of_def split: if_splits)
next
  case oack
  with same_replies_writes(3) [of c a] show ?thesis
    by (auto simp: write_defs reply_of_def split: if_splits)
next
  case error
  with same_replies_writes(4) [of c a] show ?thesis
    by (auto simp: write_defs reply_of_def split: if_splits)
qed

lemma session_step_replies:
  "session_step c e os c' \<Longrightarrow> same_replies c c' \<and> (\<forall>d \<in> set os. reply_of c d)"
  by (erule session_step.cases)
    (auto simp: c_set_finished_def same_replies_def [of c "c\<lparr>c_timer := t\<rparr>" for c t]
      same_replies_def [of c "c\<lparr>c_finished := True\<rparr>" for c]
      dest: handle_write_replies same_replies_read)

lemma new_connection_client:
  assumes "new_connection sys req cl = Ret c"
  shows "c_client c = cl"
  using assms
proof (rule new_connection_Ret)
  fix udp tm e
  assume "case e of
        Some err \<Rightarrow> c = (initial_connection udp tm (rw_type req) cl)
          \<lparr>c_error_pkt := err, c_state := STATE_ERROR\<rparr>
      | None \<Rightarrow> c = start_request sys req (process_options sys req
          ((initial_connection udp tm (rw_type req) cl)
             \<lparr>c_data_pkt := \<lparr>pkt_data = replicate 512 0, data_block_number = 0\<rparr>\<rparr>))"
  moreover have "c_client (start_request sys req c0) = c_client c0" for c0
    by (auto simp: start_request_def start_read_def start_write_def open_failure_def Let_def
        split: packet_t.splits outcome.splits prod.splits)
  moreover have "c_client (process_options sys req c0) = c_client c0" for c0
    using negotiated_options [of c0 sys req] by (auto simp: negotiated_def)
  ultimately show ?thesis by (simp add: initial_connection_def split: option.splits)
qed

subsection \<open>Formats\<close>

definition reply_error :: "error_packet_t \<Rightarrow> bool" where
  "reply_error e \<longleftrightarrow> valid_error e \<and> error_code e \<le> 7"

definition typed_conn :: "conn \<Rightarrow> bool" where
  "typed_conn c \<longleftrightarrow> valid_oack (c_oack_packet c) \<and> reply_error (c_error_pkt c)"

definition reply :: "bytes \<Rightarrow> bool" where
  "reply d \<longleftrightarrow> (\<exists>p. d = serialise_data_packet p) \<or> (\<exists>p. d = serialise_ack_packet p) \<or>
     (\<exists>p. valid_oack p \<and> d = serialise_oack_packet p) \<or>
     (\<exists>e. reply_error e \<and> d = serialise_error_packet e)"

lemma reply_error_mk: "nul_free (bytes_of msg) \<Longrightarrow> reply_error (mk_error_packet code msg)"
  by (cases code) (simp_all add: reply_error_def valid_error_def mk_error_packet_def)

lemma reply_error_messages [simp]:
  "reply_error (mk_error_packet code ''Internal server error'')"
  "reply_error (mk_error_packet code ''Access denied'')"
  "reply_error (mk_error_packet code ''File already exists'')"
  "reply_error (mk_error_packet code ''File not found'')"
  "reply_error (mk_error_packet code ''ILLEGAL_OPERATION'')"
  "reply_error (mk_error_packet code ''Failed to open file for reading'')"
  "reply_error (mk_error_packet code ''Failed to open file for writing'')"
  by (rule reply_error_mk; simp add: bytes_of_def nul_free_def)+

lemma reply_error_new [simp]: "reply_error new_error_packet"
  by (simp add: reply_error_def valid_error_def new_error_packet_def)

lemma typed_option:
  assumes "nul_free (fst opt)" "nul_free (snd opt)" and "valid_oack (c_oack_packet c)"
  shows "valid_oack (c_oack_packet (process_option sys req opt c))"
  using assms
  by (auto simp: process_option_def process_blksize_def process_timeout_def push_oack_def Let_def
      valid_oack_def nul_free_options_def split: outcome.splits packet_t.splits)

lemma typed_options:
  assumes "nul_free_options (rw_options req)" and "valid_oack (c_oack_packet c)"
  shows "valid_oack (c_oack_packet (process_options sys req c))"
proof -
  have "valid_oack (c_oack_packet (fold (process_option sys req) opts c))"
    if "nul_free_options opts" for opts
    using that assms(2)
    by (induction opts arbitrary: c) (simp_all add: typed_option nul_free_options_def)
  with assms(1) show ?thesis by (simp add: process_options_def)
qed

lemma typed_start: "typed_conn c \<Longrightarrow> typed_conn (start_request sys req c)"
  by (auto simp: start_request_def start_read_def start_write_def open_failure_def typed_conn_def Let_def
      split: packet_t.splits outcome.splits prod.splits)

lemma typed_new:
  assumes "nul_free_options (rw_options req)" and "new_connection sys req cl = Ret c"
  shows "typed_conn c"
  using assms(2)
proof (rule new_connection_Ret)
  fix udp tm e
  assume e: "is_operation_allowed sys (rw_filename req) (rw_type req) = Ret e"
    and c: "case e of
        Some err \<Rightarrow> c = (initial_connection udp tm (rw_type req) cl)
          \<lparr>c_error_pkt := err, c_state := STATE_ERROR\<rparr>
      | None \<Rightarrow> c = start_request sys req (process_options sys req
          ((initial_connection udp tm (rw_type req) cl)
             \<lparr>c_data_pkt := \<lparr>pkt_data = replicate 512 0, data_block_number = 0\<rparr>\<rparr>))"
  let ?c0 = "(initial_connection udp tm (rw_type req) cl)
             \<lparr>c_data_pkt := \<lparr>pkt_data = replicate 512 0, data_block_number = 0\<rparr>\<rparr>"
  have "valid_oack (c_oack_packet ?c0)"
    by (simp add: initial_connection_def valid_oack_def nul_free_options_def)
  from typed_options [OF assms(1) this] have "valid_oack (c_oack_packet (process_options sys req ?c0))" .
  moreover have "c_error_pkt (process_options sys req ?c0) = new_error_packet"
    using negotiated_options [of ?c0 sys req] by (auto simp: negotiated_def initial_connection_def)
  ultimately have "typed_conn (process_options sys req ?c0)" by (simp add: typed_conn_def)
  moreover have "e = Some err \<Longrightarrow> reply_error err" for err
    using e by (auto simp: is_operation_allowed_def filesystem_def outcome_simps split: if_splits option.splits)
  ultimately show ?thesis
    using c typed_start [of "process_options sys req ?c0" sys req]
    by (cases e) (simp_all add: typed_conn_def initial_connection_def valid_oack_def nul_free_options_def)
qed

lemma parsed_options: "parse_request x = Some r \<Longrightarrow> nul_free_options (rw_options (request r))"
  using deserialise_rw_packet_SomeD by (fastforce simp: parse_request_def split: prod.splits)

lemma typed_step:
  assumes "typed_conn c" and "session_step c e os c'"
  shows "typed_conn c' \<and> c_client c' = c_client c \<and> (\<forall>d \<in> set os. reply d)"
  using session_step_replies [OF assms(2)] assms(1)
  by (auto simp: same_replies_def typed_conn_def reply_of_def reply_def)

interpretation replies: served_sessions sys "\<lambda>_. True" "\<lambda>r. nul_free_options (rw_options (request r))"
    typed_conn "\<lambda>a d. reply d"
  for sys
  by unfold_locales (use typed_new parsed_options typed_step in blast)+

text \<open>A reply is read back by the parser of its format.\<close>

lemma reply_parses:
  assumes "reply d"
  shows "(\<exists>p. d = serialise_data_packet p \<and> deserialise_data_packet d = Some p) \<or>
    (\<exists>p. d = serialise_ack_packet p \<and> deserialise_ack_packet d = Some p) \<or>
    (\<exists>p. d = serialise_oack_packet p \<and> deserialise_oack_packet d = Some p) \<or>
    (\<exists>e. d = serialise_error_packet e \<and> deserialise_error_packet d = Some e \<and> error_code e \<le> 7)"
  using assms
  by (auto simp: reply_def reply_error_def deserialise_serialise_data deserialise_serialise_ack
      deserialise_serialise_oack deserialise_serialise_error)

end
