(* ===== verification/Confinement.thy ===== *)
theory Confinement
  imports Replies Read_Faults
begin

text \<open>
  What the server discloses: every datagram of the event loop is one of a session, made from a request
  that arrived, so that what holds of all sessions holds of the server; and only granted \<open>READ\<close>
  sessions whose file was opened ever send data.
\<close>

subsection \<open>The loop as a family of sessions\<close>

definition arrived :: "recvfrom_answer set \<Rightarrow> request_t \<Rightarrow> bool" where
  "arrived R r \<longleftrightarrow> (\<exists>sa d. Datagram_from sa d \<in> R \<and> parse_request (sa, d) = Some r)"

text \<open>\<open>c\<close> is a state of a session of \<open>r\<close>, which has sent \<open>os\<close>.\<close>

definition session_of :: "(nat \<Rightarrow> system) \<Rightarrow> request_t \<Rightarrow> bytes list \<Rightarrow> conn \<Rightarrow> bool" where
  "session_of sys r os c \<longleftrightarrow> c_client c = client r \<and>
     (\<exists>i c0. new_connection (sys i) (request r) (client r) = Ret c0 \<and> session_run c0 os c)"

lemma session_of_step:
  assumes "session_of sys r os c" and "session_step c e os' c'"
  shows "session_of sys r (os @ os') c'" and "c_client c' = c_client c"
  using assms session_step_replies [OF assms(2)] run_step [of session_step _ os c e os' c']
  by (auto simp: session_of_def same_replies_def)

interpretation sessions: served_sessions sys "\<lambda>a. a \<in> R" "arrived R"
    "\<lambda>c. \<exists>r os. arrived R r \<and> session_of sys r os c"
    "\<lambda>a d. \<exists>r os c. arrived R r \<and> session_of sys r os c \<and> client r = a \<and> d \<in> set os"
  for sys R
proof
  show "arrived R r" if "Datagram_from sa d \<in> R" "parse_request (sa, d) = Some r" for sa d r
    using that by (auto simp: arrived_def)
  show "\<exists>r os. arrived R r \<and> session_of sys r os c"
    if "arrived R r" "new_connection (sys i) (request r) (client r) = Ret c" for r i c
    using that new_connection_client [OF that(2)] run_refl [of session_step c]
    by (auto simp: session_of_def)
  fix c e os' c'
  assume "\<exists>r os. arrived R r \<and> session_of sys r os c" and step: "session_step c e os' c'"
  then obtain r os where r: "arrived R r" "session_of sys r os c" by blast
  note next_step = session_of_step [OF r(2) step]
  have "\<exists>r os. arrived R r \<and> session_of sys r os c'" using r(1) next_step(1) by blast
  moreover have "client r = c_client c" using r(2) by (simp add: session_of_def)
  then have "\<forall>d \<in> set os'. \<exists>r os c'. arrived R r \<and> session_of sys r os c' \<and> client r = c_client c \<and> d \<in> set os"
    using r(1) next_step(1) by fastforce
  ultimately show "(\<exists>r os. arrived R r \<and> session_of sys r os c') \<and> c_client c' = c_client c \<and>
      (\<forall>d \<in> set os'. \<exists>r os c'. arrived R r \<and> session_of sys r os c' \<and> client r = c_client c \<and> d \<in> set os)"
    using next_step(2) by blast
qed

subsection \<open>Sessions without data\<close>

definition no_data :: "bytes \<Rightarrow> bool" where
  "no_data d \<longleftrightarrow> (\<forall>p. d \<noteq> serialise_data_packet p)"

lemma no_data_others [simp]:
  "no_data (serialise_ack_packet a)" "no_data (serialise_oack_packet p)" "no_data (serialise_error_packet e)"
  using serialise_tags(2) serialise_tags(3) [of a] serialise_tags(4) [of e] serialise_tags(5) [of p]
  by (auto simp: no_data_def packet_code_inject dest: arg_cong [of _ _ "\<lambda>d. d ! 1"])

text \<open>A session that was refused, is no download, or has no file to read from.\<close>

definition dataless :: "conn \<Rightarrow> bool" where
  "dataless c \<longleftrightarrow> c_state c = STATE_ERROR \<or> session_inv c \<and> c_type c \<noteq> READ \<or>
     rf_fd (c_file_reader c) = None \<and> \<not> c_pkt_ready c"

lemma handle_read_not_ready:
  assumes "handle_read a c = Ret c'" and "\<not> c_pkt_ready c"
  shows "\<not> c_pkt_ready c'"
  using assms(1)
proof (cases rule: handle_read_cases)
  case timeout
  with assms(2) show ?thesis by (cases "timer_read c" rule: handle_timeout_cases) simp_all
next
  case (ack d)
  with assms(2) show ?thesis by (cases d "timer_read c" rule: read_ack_cases) simp_all
next
  case (data d)
  from data(4) assms(2) show ?thesis
    by (cases rule: read_data_cases) (simp_all add: internal_error_def)
next
  case idle
  with assms(2) show ?thesis by simp
qed

lemma no_file_write:
  assumes "handle_write a c = Ret (c', os)" and "rf_fd (c_file_reader c) = None" "\<not> c_pkt_ready c"
  shows "rf_fd (c_file_reader c') = None \<and> \<not> c_pkt_ready c' \<and> (\<forall>d \<in> set os. no_data d)"
proof -
  have "prepare_data c = Undefined" using assms(2,3) by (simp add: prepare_data_def read_in_to_def)
  with assms show ?thesis
    by (cases rule: handle_write_cases)
      (auto simp: write_defs arm_def internal_error_def split: if_splits)
qed

lemma not_read_write:
  assumes "handle_write a c = Ret (c', os)" and "session_inv c" "c_type c \<noteq> READ"
  shows "\<forall>d \<in> set os. no_data d"
proof -
  have "c_state c \<noteq> SEND_DATA" using assms(2,3) by (auto simp: session_inv_def direction_ok_def)
  with assms(1) show ?thesis
    by (cases rule: handle_write_cases) (auto simp: write_defs split: if_splits)
qed

lemma dataless_step:
  assumes "dataless c" and "session_step c e os c'"
  shows "dataless c' \<and> (\<forall>d \<in> set os. no_data d)"
proof -
  from assms(1) consider "c_state c = STATE_ERROR" | "session_inv c" "c_type c \<noteq> READ"
    | "rf_fd (c_file_reader c) = None" "\<not> c_pkt_ready c" unfolding dataless_def by (elim disjE conjE)
  then show ?thesis
  proof cases
    case 1
    with error_absorbing_step [OF assms(2)] show ?thesis unfolding dataless_def by auto
  next
    case c: 2
    have "session_inv c'" "c_type c' \<noteq> READ"
      using session_inv_step [OF c(1) assms(2)] session_step_replies [OF assms(2)] c(2)
      by (simp_all add: same_replies_def)
    moreover have "\<forall>d \<in> set os. no_data d"
      using assms(2) not_read_write [OF _ c] by (cases rule: session_step.cases) auto
    ultimately show ?thesis unfolding dataless_def by simp
  next
    case c: 3
    from assms(2) have "rf_fd (c_file_reader c') = None \<and> \<not> c_pkt_ready c' \<and> (\<forall>d \<in> set os. no_data d)"
    proof (cases rule: session_step.cases)
      case (step_read a)
      with handle_read_reader handle_read_not_ready c show ?thesis by fastforce
    next
      case (step_write a)
      with no_file_write c show ?thesis by blast
    qed (use c in \<open>simp_all add: c_set_finished_def\<close>)
    then show ?thesis unfolding dataless_def by simp
  qed
qed

interpretation without_data: output_invariant session_step dataless no_data
  by unfold_locales (rule dataless_step)

text \<open>A session that sends data is a granted \<open>READ\<close> whose file was opened.\<close>

lemma data_session:
  assumes c: "new_connection sys req cl = Ret c" and "session_run c os c'"
    and "serialise_data_packet p \<in> set os"
  shows "rw_type req = READ \<and> is_operation_allowed sys (rw_filename req) READ = Ret None \<and>
    (\<exists>f. sys_fopen_r sys (c_str (rw_filename req)) = Inr f)"
proof (rule ccontr)
  assume contra: "\<not> ?thesis"
  obtain e where e: "is_operation_allowed sys (rw_filename req) (rw_type req) = Ret e"
    using c by (elim new_connection_Ret)
  have "dataless c"
  proof (cases e)
    case (Some err)
    with new_connection_refused(1) [OF c] e show ?thesis by (simp add: dataless_def)
  next
    case None
    from new_connection_allowed [OF c e [unfolded None]] obtain c0 where
      c0: "c = start_request sys req c0" "c_type c0 = rw_type req" "c_file_reader c0 = new_read_file"
        "\<not> c_pkt_ready c0" by metis
    show ?thesis
    proof (cases "rw_type req = READ")
      case True
      with contra e None obtain n where "sys_fopen_r sys (c_str (rw_filename req)) = Inl n"
        by (cases "sys_fopen_r sys (c_str (rw_filename req))") auto
      with c0 True have "rf_fd (c_file_reader c) = None \<and> \<not> c_pkt_ready c"
        by (simp add: start_request_def start_read_def rf_open_def open_failure_def
            new_read_file_def Let_def)
      then show ?thesis by (simp add: dataless_def)
    next
      case False
      have "c_type c = rw_type req" unfolding c0(1) c0(2) [symmetric]
        by (auto simp: start_request_def start_read_def start_write_def open_failure_def Let_def
            split: packet_t.splits outcome.splits prod.splits)
      with session_inv_new [OF c] False show ?thesis by (simp add: dataless_def)
    qed
  qed
  from without_data.run_outputs [OF assms(2) this assms(3)] show False unfolding no_data_def by blast
qed

text \<open>So the data the loop sends are blocks of the files of granted requests.\<close>

lemma session_data:
  assumes "session_of sys r os c" and "serialise_data_packet p \<in> set os"
    and files: "\<And>i path f. sys_fopen_r (sys i) path = Inr f \<Longrightarrow>
      \<exists>content fault. f = (open_infile content)\<lparr>in_fault := fault\<rparr>"
  shows "\<exists>i n k content fault. rw_type (request r) = READ \<and>
    is_operation_allowed (sys i) (rw_filename (request r)) READ = Ret None \<and>
    sys_fopen_r (sys i) (c_str (rw_filename (request r))) = Inr ((open_infile content)\<lparr>in_fault := fault\<rparr>) \<and>
    1 \<le> k \<and> p = nth_data_packet n (rf_convert (rw_mode (request r)) content) k"
proof -
  from assms(1) obtain i c0 where c0: "new_connection (sys i) (request r) (client r) = Ret c0"
    "session_run c0 os c" by (auto simp: session_of_def)
  note granted = data_session [OF c0 assms(2)]
  then obtain content fault where f:
    "sys_fopen_r (sys i) (c_str (rw_filename (request r))) = Inr ((open_infile content)\<lparr>in_fault := fault\<rparr>)"
    using files by metis
  have "mend ((open_infile content)\<lparr>in_fault := fault\<rparr>) = open_infile content"
    by (simp add: mend_def open_infile_def)
  from faulty_read.run_outputs [OF c0(2) new_faulty_inv [OF c0(1) _ _ f this] assms(2)] granted
  have "read_output (block_len c0) (rf_convert (rw_mode (request r)) content) (c_oack_packet c0)
      (serialise_data_packet p)" by blast
  moreover have "p = q" if "serialise_data_packet p = serialise_data_packet q" for q
    using that deserialise_serialise_data by (metis option.inject)
  ultimately obtain k where "1 \<le> k"
    "p = nth_data_packet (block_len c0) (rf_convert (rw_mode (request r)) content) k"
    using no_data_others unfolding read_output_def no_data_def by metis
  with granted f show ?thesis by blast
qed

text \<open>The requests of a run are those of the datagrams that reached the listening socket.\<close>

definition arrives :: "sockaddr_in \<Rightarrow> bytes \<Rightarrow> (bool \<times> nat \<times> wait_answer) list \<Rightarrow> bool" where
  "arrives a d ws \<longleftrightarrow> (\<exists>stop s es answers. (stop, s, Wait_events es) \<in> set ws \<and>
     Request_event answers \<in> set es \<and> Datagram_from a d \<in> set answers)"

lemma server_sessions:
  assumes "new_server interface port max_clients socket opt bind getfl setfl chdir ep = Ret sv"
    and "server_start sys ws sv = Ret (sv', out)" and "(a, d) \<in> set out"
  shows "\<exists>p r os c. arrives a p ws \<and> parse_request (a, p) = Some r \<and> session_of sys r os c \<and> d \<in> set os"
proof -
  let ?R = "{Datagram_from a p | a p. arrives a p ws} \<union> {Recvfrom_errno e | e. True}"
  have ok: "sessions.arrivals_ok ?R w" if "(stop, s, w) \<in> set ws" for stop s w
  proof (cases w)
    case (Wait_events es)
    have "x \<in> ?R" if "Request_event answers \<in> set es" "x \<in> set answers" for answers x
      using that \<open>(stop, s, w) \<in> set ws\<close> Wait_events by (cases x) (auto simp: arrives_def)
    then show ?thesis unfolding sessions.arrivals_ok_def Wait_events wait_answer.case by blast
  next
    case (Wait_errno e)
    show ?thesis unfolding sessions.arrivals_ok_def Wait_errno wait_answer.case ..
  qed
  have "\<forall>(stop, s, w) \<in> set ws. sessions.arrivals_ok ?R w" using ok by blast
  from sessions.new_server_serves(2) [OF assms(1,2) this assms(3)] obtain r os c where
    r: "arrived ?R r" "session_of sys r os c" "client r = a" "d \<in> set os" by blast
  from r(1) obtain sa p where p: "arrives sa p ws" "parse_request (sa, p) = Some r"
    by (auto simp: arrived_def)
  from p(2) have "client r = sa" by (auto simp: parse_request_def)
  with p r show ?thesis by blast
qed

end
