(* ===== verification/Program_Download.thy ===== *)
theory Program_Download
  imports Server_Main Confinement
begin

text \<open>
  A whole download through the event loop of the server program: the turns of a client that is alone,
  from its request to the last ACK.
\<close>

subsection \<open>The turns\<close>

text \<open>
  A turn is \<open>s\<close> seconds after the last; \<open>i\<close> names the connection, \<open>a\<close> is what \<open>send\<close> returns.
\<close>

definition send_turn :: "nat \<Rightarrow> nat \<Rightarrow> send_answer \<Rightarrow> bool \<times> nat \<times> wait_answer" where
  "send_turn s i a =
     (False, s, Wait_events [Client_event i \<lparr>ev_in = False, ev_out = True, ev_err = False\<rparr> (Recv_errno EAGAIN) a])"

definition ack_turn :: "nat \<Rightarrow> nat \<Rightarrow> send_answer \<Rightarrow> nat \<Rightarrow> bool \<times> nat \<times> wait_answer" where
  "ack_turn s i a k =
     (False, s, Wait_events [Client_event i \<lparr>ev_in = True, ev_out = False, ev_err = False\<rparr>
        (Datagram (serialise_ack_packet \<lparr>ack_block_number = of_nat k\<rparr>)) a])"

text \<open>The blocks from \<open>k\<close> on: \<open>m\<close> are sent and acknowledged, and one more is sent.\<close>

fun download_turns :: "nat \<Rightarrow> nat \<Rightarrow> send_answer \<Rightarrow> nat \<Rightarrow> nat \<Rightarrow> (bool \<times> nat \<times> wait_answer) list" where
  "download_turns s i a k 0 = [send_turn s i a]"
| "download_turns s i a k (Suc m) = send_turn s i a # ack_turn s i a k # download_turns s i a (Suc k) m"

text \<open>The only connection of a running server, at block \<open>k\<close> of a download.\<close>

definition alone :: "server \<Rightarrow> nat \<Rightarrow> conn \<Rightarrow> nat \<Rightarrow> bytes \<Rightarrow> oack_packet_t \<Rightarrow> nat \<Rightarrow> bool" where
  "alone sv i c n S oack k \<longleftrightarrow> server_inv sv \<and> \<not> sv_exit_requested sv \<and>
     sv_client_connections sv = [(i, c)] \<and> read_inv_at n S oack k c \<and> 0 < k \<and> \<not> c_finished c"

definition awaiting_ack :: "nat \<Rightarrow> conn \<Rightarrow> bool" where
  "awaiting_ack s c \<longleftrightarrow> c_state c = WAIT_FOR_ACK \<and> c_pkt_ready c \<and> tm_expirations (c_timer c) = 0 \<and>
     (\<exists>t. tm_left (c_timer c) = Some t \<and> s < t)"

text \<open>What a turn leaves: the client of the connection, and its timeout.\<close>

definition same_client :: "conn \<Rightarrow> conn \<Rightarrow> bool" where
  "same_client c c' \<longleftrightarrow> c_client c' = c_client c \<and> c_timeout_s c' = c_timeout_s c"

lemma elapsed_inv:
  "read_inv_at n S oack k c \<Longrightarrow> 0 < k \<Longrightarrow> read_inv_at n S oack k (c\<lparr>c_timer := elapse s (c_timer c)\<rparr>)"
  by (simp add: read_inv_defs)

lemma send_turn_runs:
  assumes at: "alone sv i c n S oack k" and st: "c_state c = SEND_DATA" and a: "0 < fst a"
    and s: "s < unat (c_timeout_s c)"
  shows "\<exists>sv' c'. server_loop sys [send_turn s i a] sv =
       Ret (sv', [(c_client c, serialise_data_packet (nth_data_packet n S k))]) \<and>
     alone sv' i c' n S oack k \<and> awaiting_ack s c' \<and> same_client c c'"
proof -
  let ?c = "c\<lparr>c_timer := elapse s (c_timer c)\<rparr>"
  from at have c: "server_inv sv" "\<not> sv_exit_requested sv" "sv_client_connections sv = [(i, c)]"
    "read_inv_at n S oack k ?c" "0 < k" "\<not> c_finished c" by (simp_all add: alone_def elapsed_inv)
  have st': "c_state ?c = SEND_DATA" using st by simp
  from read_send [OF c(4) st' a] obtain c1 where c1:
    "handle_write a ?c = Ret (c1, [serialise_data_packet (nth_data_packet n S k)])"
    "read_inv_at n S oack k c1" "c_state c1 = WAIT_FOR_ACK" "c_pkt_ready c1"
    "c_timer c1 = arm_timer (unat (c_timeout_s c)) (c_timer ?c)" "\<not> c_finished c1"
    "c_timeout_s c1 = c_timeout_s c" using c(6) by auto
  have "service_connection \<lparr>ev_in = False, ev_out = True, ev_err = False\<rparr> (Recv_errno EAGAIN) a ?c =
      Ret (c1, [serialise_data_packet (nth_data_packet n S k)])"
    using c1(1) by (simp add: service_connection_def)
  from client_turn(2) [OF c(1-3) this c1(6)] obtain sv' where sv':
    "server_loop sys [send_turn s i a] sv =
      Ret (sv', [(c_client c, serialise_data_packet (nth_data_packet n S k))])"
    "sv_client_connections sv' = [(i, c1)]" "\<not> sv_exit_requested sv'"
    unfolding send_turn_def list.map by blast
  have "c_client c1 = c_client c"
    using handle_write_replies [OF c1(1)] by (simp add: same_replies_def)
  moreover have "awaiting_ack s c1" using c1(3-5) s by (simp add: awaiting_ack_def arm_timer_def)
  moreover have "alone sv' i c1 n S oack k"
    using server_inv_loop [OF c(1) sv'(1)] sv'(2,3) c1(2,6) c(5) by (simp add: alone_def)
  ultimately show ?thesis using sv'(1) c1(7) by (auto simp: same_client_def)
qed

lemma ack_turn_runs:
  assumes at: "alone sv i c n S oack k" and wait: "awaiting_ack s c"
  shows "length (chunk n (k - 1) S) < n \<Longrightarrow>
      server_loop sys (ack_turn s i a k # ws) sv = Undefined"
    and "\<not> length (chunk n (k - 1) S) < n \<Longrightarrow>
      \<exists>sv' c'. server_loop sys [ack_turn s i a k] sv = Ret (sv', []) \<and>
        alone sv' i c' n S oack (Suc k) \<and> c_state c' = SEND_DATA \<and> same_client c c'"
proof -
  let ?c = "c\<lparr>c_timer := elapse s (c_timer c)\<rparr>" and ?ack = "serialise_ack_packet \<lparr>ack_block_number = of_nat k\<rparr>"
  from at have c: "server_inv sv" "\<not> sv_exit_requested sv" "sv_client_connections sv = [(i, c)]"
    "read_inv_at n S oack k ?c" "0 < k" "\<not> c_finished c" by (simp_all add: alone_def elapsed_inv)
  from wait have w: "c_state ?c = WAIT_FOR_ACK" "c_pkt_ready ?c" "tm_expirations (c_timer ?c) = 0"
    by (auto simp: awaiting_ack_def elapse_def)
  have fin: "\<not> c_finished ?c" using c(6) by simp
  have ack: "client_ack (serialise_data_packet (nth_data_packet n S k)) = ?ack"
    by (simp add: client_ack_def deserialise_serialise_data nth_data_packet_def)
  from read_acked [OF c(4) w fin c(5), unfolded ack] obtain c2 where c2:
    "handle_read (Datagram ?ack) ?c = Ret c2" "c_timeout_s c2 = c_timeout_s c"
    "if length (chunk n (k - 1) S) < n then c_finished c2
     else read_inv_at n S oack (Suc k) c2 \<and> c_state c2 = SEND_DATA \<and> \<not> c_finished c2" by auto
  have serve: "service_connection \<lparr>ev_in = True, ev_out = False, ev_err = False\<rparr> (Datagram ?ack) a ?c = Ret (c2, [])"
    using c2(1) by (simp add: service_connection_def)
  show "server_loop sys (ack_turn s i a k # ws) sv = Undefined" if "length (chunk n (k - 1) S) < n"
    unfolding ack_turn_def by (rule client_turn(1) [OF c(1-3) serve]) (use c2(3) that in simp)
  show "\<exists>sv' c'. server_loop sys [ack_turn s i a k] sv = Ret (sv', []) \<and>
        alone sv' i c' n S oack (Suc k) \<and> c_state c' = SEND_DATA \<and> same_client c c'"
    if "\<not> length (chunk n (k - 1) S) < n"
  proof -
    from c2(3) that have c3: "read_inv_at n S oack (Suc k) c2" "c_state c2 = SEND_DATA" "\<not> c_finished c2"
      by simp_all
    from client_turn(2) [OF c(1-3) serve c3(3)] obtain sv' where sv':
      "server_loop sys [ack_turn s i a k] sv = Ret (sv', [])"
      "sv_client_connections sv' = [(i, c2)]" "\<not> sv_exit_requested sv'"
      unfolding ack_turn_def list.map by blast
    have "c_client c2 = c_client c"
      using same_replies_read [OF c2(1)] by (simp add: same_replies_def)
    with sv' c3 c2(2) server_inv_loop [OF c(1) sv'(1)] show ?thesis
      by (auto simp: alone_def same_client_def)
  qed
qed

lemma download_turns_run:
  assumes "alone sv i c n S oack k" and "c_state c = SEND_DATA" and "0 < fst a"
    and "s < unat (c_timeout_s c)" and "\<forall>j < m. \<not> length (chunk n (k + j - 1) S) < n"
  shows "\<exists>sv' c'. server_loop sys (download_turns s i a k m) sv =
       Ret (sv', map (\<lambda>j. (c_client c, serialise_data_packet (nth_data_packet n S j))) [k..<k + m + 1]) \<and>
     alone sv' i c' n S oack (k + m) \<and> awaiting_ack s c' \<and> same_client c c'"
  using assms
proof (induction m arbitrary: sv c k)
  case 0
  from send_turn_runs [OF 0(1-4)] show ?case by simp
next
  case (Suc m)
  from send_turn_runs [OF Suc.prems(1-4)] obtain sv1 c1 where sv1:
    "server_loop sys [send_turn s i a] sv =
       Ret (sv1, [(c_client c, serialise_data_packet (nth_data_packet n S k))])"
    "alone sv1 i c1 n S oack k" "awaiting_ack s c1" "same_client c c1" by blast
  have "\<not> length (chunk n (k - 1) S) < n" using Suc.prems(5) by (metis add_0_right zero_less_Suc)
  from ack_turn_runs(2) [OF sv1(2,3) this] obtain sv2 c2 where sv2:
    "server_loop sys [ack_turn s i a k] sv1 = Ret (sv2, [])" "alone sv2 i c2 n S oack (Suc k)"
    "c_state c2 = SEND_DATA" "same_client c1 c2" by blast
  have full: "\<forall>j < m. \<not> length (chunk n (Suc k + j - 1) S) < n"
    using Suc.prems(5) by (metis Suc_less_eq add_Suc add_Suc_right)
  have same: "same_client c c2" using sv1(4) sv2(4) by (simp add: same_client_def)
  with Suc.prems(4) have "s < unat (c_timeout_s c2)" by (simp add: same_client_def)
  from Suc.IH [OF sv2(2,3) Suc.prems(3) this full] same obtain sv3 c3 where sv3:
    "server_loop sys (download_turns s i a (Suc k) m) sv2 =
       Ret (sv3, map (\<lambda>j. (c_client c, serialise_data_packet (nth_data_packet n S j))) [Suc k..<Suc k + m + 1])"
    "alone sv3 i c3 n S oack (Suc k + m)" "awaiting_ack s c3" "same_client c c3"
    by (auto simp: same_client_def)
  have "\<not> sv_exit_requested sv1" "\<not> sv_exit_requested sv2" using sv1(2) sv2(2) by (simp_all add: alone_def)
  with server_loop_append [OF sv1(1)] server_loop_append [OF sv2(1)] sv3(1)
  have "server_loop sys ([send_turn s i a] @ [ack_turn s i a k] @ download_turns s i a (Suc k) m) sv =
      Ret (sv3, (c_client c, serialise_data_packet (nth_data_packet n S k)) #
        map (\<lambda>j. (c_client c, serialise_data_packet (nth_data_packet n S j))) [Suc k..<Suc k + m + 1])"
    by simp
  moreover have "[k..<k + Suc m + 1] = k # [Suc k..<Suc k + m + 1]" by (simp add: upt_rec [of k])
  ultimately show ?case using sv3(2-4) by (auto simp del: upt_Suc)
qed

text \<open>
  With options the OACK comes first, as block 0.  No timer runs while its ACK is awaited, so it may
  come after any time.
\<close>

lemma oack_turns_run:
  assumes inv: "server_inv sv" and run: "\<not> sv_exit_requested sv" and conns: "sv_client_connections sv = [(i, c)]"
    and c: "read_inv_at n S oack 0 c" "c_state c = SEND_OACK" "\<not> c_finished c" "timer_unarmed c" and a: "0 < fst a"
  shows "\<exists>sv' c'. server_loop sys [send_turn s i a, ack_turn s i a 0] sv =
       Ret (sv', [(c_client c, serialise_oack_packet oack)]) \<and>
     alone sv' i c' n S oack 1 \<and> c_state c' = SEND_DATA \<and> same_client c c'"
proof -
  let ?c = "c\<lparr>c_state := WAIT_FOR_ACK\<rparr>" and ?ack = "serialise_ack_packet \<lparr>ack_block_number = 0\<rparr>"
  have same: "c\<lparr>c_timer := elapse s (c_timer c)\<rparr> = c" "?c\<lparr>c_timer := elapse s (c_timer ?c)\<rparr> = ?c"
    using c(4) by (simp_all add: timer_unarmed_def elapse_def)
  note sent = oack_send [OF c(1,2) a]
  from oack_acked [OF sent(2)] c(3) obtain c2 where c2: "handle_read (Datagram ?ack) ?c = Ret c2"
    "read_inv_at n S oack 1 c2" "c_state c2 = SEND_DATA" "\<not> c_finished c2" "c_timeout_s c2 = c_timeout_s c" by auto
  have "service_connection \<lparr>ev_in = False, ev_out = True, ev_err = False\<rparr> (Recv_errno EAGAIN) a
      (c\<lparr>c_timer := elapse s (c_timer c)\<rparr>) = Ret (?c, [serialise_oack_packet oack])"
    unfolding same using sent(1) by (simp add: service_connection_def)
  from client_turn(2) [OF inv run conns this] c(3) obtain sv1 where sv1:
    "server_loop sys [send_turn s i a] sv = Ret (sv1, [(c_client c, serialise_oack_packet oack)])"
    "sv_client_connections sv1 = [(i, ?c)]" "\<not> sv_exit_requested sv1" unfolding send_turn_def list.map by auto
  have inv1: "server_inv sv1" by (rule server_inv_loop [OF inv sv1(1)])
  have "service_connection \<lparr>ev_in = True, ev_out = False, ev_err = False\<rparr> (Datagram ?ack) a
      (?c\<lparr>c_timer := elapse s (c_timer ?c)\<rparr>) = Ret (c2, [])"
    unfolding same using c2(1) by (simp add: service_connection_def)
  from client_turn(2) [OF inv1 sv1(3,2) this c2(4)] obtain sv2 where sv2:
    "server_loop sys [ack_turn s i a 0] sv1 = Ret (sv2, [])"
    "sv_client_connections sv2 = [(i, c2)]" "\<not> sv_exit_requested sv2"
    unfolding ack_turn_def list.map by (auto simp del: server_loop.simps)
  have "server_loop sys ([send_turn s i a] @ [ack_turn s i a 0]) sv =
      Ret (sv2, [(c_client c, serialise_oack_packet oack)])"
    using server_loop_append [OF sv1(1,3)] sv2(1) by simp
  moreover have "alone sv2 i c2 n S oack 1"
    using server_inv_loop [OF inv1 sv2(1)] sv2(2,3) c2(2,4) by (simp add: alone_def)
  moreover have "c_client c2 = c_client c"
    using same_replies_read [OF c2(1)] by (simp add: same_replies_def)
  ultimately show ?thesis using c2(3,5) by (auto simp: same_client_def)
qed

text \<open>
  What a download sends, from \<open>first\<close> on: block 0, which is the OACK, or block 1.  A whole download runs from
  there to its last block.
\<close>

definition nth_datagram :: "nat \<Rightarrow> bytes \<Rightarrow> oack_packet_t \<Rightarrow> nat \<Rightarrow> bytes" where
  "nth_datagram n S oack k =
     (if k = 0 then serialise_oack_packet oack else serialise_data_packet (nth_data_packet n S k))"

lemma blocks_datagrams:
  "map (\<lambda>k. (x, nth_datagram n S oack k)) [1..<m] =
   map (\<lambda>k. (x, serialise_data_packet (nth_data_packet n S k))) [1..<m]"
  by (simp add: nth_datagram_def del: upt_Suc)

lemma whole_download_runs:
  assumes inv: "server_inv sv" and run: "\<not> sv_exit_requested sv" and conns: "sv_client_connections sv = [(i, c)]"
    and c: "read_inv_at n S oack first c" "c_state c = (if first = 1 then SEND_DATA else SEND_OACK)"
      "\<not> c_finished c" "timer_unarmed c"
    and first: "first \<le> 1" and a: "0 < fst a" and s: "s < unat (c_timeout_s c)" and n: "0 < n"
  shows "\<exists>sv' c'. server_loop sys (download_turns s i a first (length S div n + 1 - first)) sv =
       Ret (sv', map (\<lambda>k. (c_client c, nth_datagram n S oack k)) [first..<length S div n + 2]) \<and>
     alone sv' i c' n S oack (length S div n + 1) \<and> awaiting_ack s c'"
proof -
  let ?q = "length S div n"
  have blocks: "\<exists>sv' c'. server_loop sys (download_turns s i a 1 ?q) sv1 =
       Ret (sv', map (\<lambda>k. (c_client c, nth_datagram n S oack k)) [1..<?q + 2]) \<and>
     alone sv' i c' n S oack (?q + 1) \<and> awaiting_ack s c'"
    if start: "alone sv1 i c1 n S oack 1" "c_state c1 = SEND_DATA" "same_client c c1" for sv1 c1
  proof -
    have "\<forall>j < ?q. \<not> length (chunk n (1 + j - 1) S) < n" using n by (simp add: chunk_short_iff)
    moreover have "s < unat (c_timeout_s c1)" using start(3) s by (simp add: same_client_def)
    ultimately obtain sv' c' where "server_loop sys (download_turns s i a 1 ?q) sv1 =
        Ret (sv', map (\<lambda>j. (c_client c1, serialise_data_packet (nth_data_packet n S j))) [1..<1 + ?q + 1])"
      "alone sv' i c' n S oack (1 + ?q)" "awaiting_ack s c'"
      using download_turns_run [OF start(1,2) a, of s ?q sys] by blast
    then show ?thesis
      using start(3) by (intro exI [of _ sv'] exI [of _ c'])
        (simp add: same_client_def blocks_datagrams [unfolded One_nat_def] del: upt_Suc server_loop.simps)
  qed
  show ?thesis
  proof (cases "first = 1")
    case True
    have "alone sv i c n S oack 1" using inv run conns c(1,3) by (simp add: alone_def True)
    from blocks [OF this] c(2) show ?thesis by (simp add: True same_client_def)
  next
    case False
    with first have 0: "first = 0" by simp
    with oack_turns_run [OF inv run conns _ _ c(3,4) a, of n S oack sys s] c(1,2) obtain sv1 c1 where sv1:
      "server_loop sys [send_turn s i a, ack_turn s i a 0] sv =
         Ret (sv1, [(c_client c, serialise_oack_packet oack)])"
      "alone sv1 i c1 n S oack 1" "c_state c1 = SEND_DATA" "same_client c c1" by auto
    from blocks [OF sv1(2-4)] obtain sv2 c2 where sv2: "server_loop sys (download_turns s i a 1 ?q) sv1 =
       Ret (sv2, map (\<lambda>k. (c_client c, nth_datagram n S oack k)) [1..<?q + 2])"
      "alone sv2 i c2 n S oack (?q + 1)" "awaiting_ack s c2" by blast
    have run1: "\<not> sv_exit_requested sv1" using sv1(2) by (simp add: alone_def)
    have turns: "download_turns s i a first (?q + 1 - first) =
        [send_turn s i a, ack_turn s i a 0] @ download_turns s i a 1 ?q" by (simp add: 0)
    have upt: "[first..<?q + 2] = 0 # [1..<?q + 2]" by (simp add: 0 upt_conv_Cons del: upt_Suc)
    show ?thesis
      unfolding turns upt server_loop_append [OF sv1(1) run1] using sv2
      by (intro exI [of _ sv2] exI [of _ c2]) (simp add: nth_datagram_def del: upt_Suc server_loop.simps)
  qed
qed

text \<open>The datagrams that the connections receive in some turns.\<close>

fun received_in :: "(bool \<times> nat \<times> wait_answer) list \<Rightarrow> bytes list" where
  "received_in [] = []"
| "received_in ((stop, s, Wait_errno e) # ws) = received_in ws"
| "received_in ((stop, s, Wait_events es) # ws) =
     [d. Client_event i events (Datagram d) sa \<leftarrow> es, ev_in events] @ received_in ws"

lemma received_append: "received_in (ws @ ws') = received_in ws @ received_in ws'"
  by (induction ws rule: received_in.induct) simp_all

lemma received_download:
  "received_in (download_turns s i a k m @ [ack_turn s i a (k + m)]) =
     map (\<lambda>k. serialise_ack_packet \<lparr>ack_block_number = of_nat k\<rparr>) [k..<k + m + 1]"
proof (induction m arbitrary: k)
  case 0
  then show ?case by (simp add: send_turn_def ack_turn_def)
next
  case (Suc m)
  have "received_in (download_turns s i a k (Suc m) @ [ack_turn s i a (k + Suc m)]) =
      serialise_ack_packet \<lparr>ack_block_number = of_nat k\<rparr> #
        received_in (download_turns s i a (Suc k) m @ [ack_turn s i a (Suc k + m)])"
    by (simp add: send_turn_def ack_turn_def)
  moreover have "[k..<k + Suc m + 1] = k # [Suc k..<Suc k + m + 1]" by (simp add: upt_rec [of k])
  ultimately show ?case using Suc [of "Suc k"] by (simp del: upt_Suc)
qed

end
