(* ===== verification/Failures.thy ===== *)
theory Failures
  imports Server_Main
begin

text \<open>
  Exactly when, and with which exception, the loop of the server program fails: a call to the system that
  fails, a DATA packet whose payload is cut netascii, or \<open>EPOLLOUT\<close> for a connection that waits to read.
  Since the conditions are exact, nothing else throws: not the queue, the list of connections or the
  registrations in epoll, nor \<open>handle_write\<close> in a state that sends.
\<close>

subsection \<open>Causes\<close>

text \<open>The reads of the listening socket up to the first that would block or gets an empty datagram.\<close>

fun receive_fails :: "recvfrom_answer list \<Rightarrow> exn \<Rightarrow> bool" where
  "receive_fails [] x \<longleftrightarrow> False"
| "receive_fails (Recvfrom_errno n # answers) x \<longleftrightarrow> n \<noteq> EAGAIN \<and> x = Errno_error n"
| "receive_fails (Datagram_from sa d # answers) x \<longleftrightarrow> d \<noteq> [] \<and> receive_fails answers x"

text \<open>The constructor of a connection: one of its system calls, or a query of the file system for the path.\<close>

definition request_fails :: "system \<Rightarrow> rw_packet_t \<Rightarrow> bool" where
  "request_fails sys req \<longleftrightarrow> \<not> system_ready sys \<or>
     (case sys_weakly_canonical sys (path_append (sys_cwd sys) (rw_filename req)) of
        None \<Rightarrow> True
      | Some p \<Rightarrow> is_subpath p (sys_cwd sys) \<and> (rw_type req = READ \<or> rw_type req = WRITE) \<and> sys_exists sys p = None)"

text \<open>The requests that are accepted, the first of them by the connection with identity \<open>i\<close>.\<close>

fun accept_fails :: "(nat \<Rightarrow> system) \<Rightarrow> nat \<Rightarrow> request_t list \<Rightarrow> exn \<Rightarrow> bool" where
  "accept_fails sys i [] x \<longleftrightarrow> False"
| "accept_fails sys i (r # rs) x \<longleftrightarrow>
     (if request_fails (sys i) (request r) then new_connection (sys i) (request r) (client r) = Throw x
      else accept_fails sys (Suc i) rs x)"

text \<open>
  The event of a connection: a receive that fails, the DATA packet a netascii upload awaits when its
  payload cannot be converted, or \<open>EPOLLOUT\<close> although the connection waits to read.
\<close>

definition session_fails :: "event_flags \<Rightarrow> recv_answer \<Rightarrow> conn \<Rightarrow> exn \<Rightarrow> bool" where
  "session_fails events ra c x \<longleftrightarrow>
     (ev_in events \<and> tm_expirations (c_timer c) = 0 \<and> wait_for_read c \<and>
        (\<exists>n. ra = Recv_errno n \<and> n \<noteq> EAGAIN \<and> x = Errno_error n)) \<or>
     (ev_in events \<and> tm_expirations (c_timer c) = 0 \<and> c_state c = WAIT_FOR_DATA \<and>
        wf_mode (c_file_writer c) = NETASCII \<and>
        (\<exists>d p. ra = Datagram d \<and> deserialise_data_packet (take (block_len c) d) = Some p \<and>
           data_block_number p = c_block_number c \<and> netascii_to_native (pkt_data p) = Throw x)) \<or>
     (ev_out events \<and> \<not> ev_in events \<and> wait_for_read c \<and> x = Runtime_error ''Error state'')"

definition event_fails :: "(nat \<Rightarrow> system) \<Rightarrow> server_event \<Rightarrow> server \<Rightarrow> exn \<Rightarrow> bool" where
  "event_fails sys e sv x \<longleftrightarrow> (case e of
     Request_event answers \<Rightarrow> receive_fails answers x \<or>
       (\<exists>h rest. handler_handle_read answers (sv_conn_handler sv) = Ret (h, rest) \<and>
          accept_fails sys (sv_next sv)
            (take (sv_max_clients sv - length (sv_client_connections sv)) (h_request_queue h)) x)
   | Client_event i events ra sa \<Rightarrow>
       \<exists>c. map_of (sv_client_connections sv) i = Some c \<and> session_fails events ra c x)"

text \<open>A turn of the loop: \<open>epoll_wait\<close> fails, other than by a signal, or one of its events does.\<close>

definition turn_fails :: "(nat \<Rightarrow> system) \<Rightarrow> wait_answer \<Rightarrow> server \<Rightarrow> exn \<Rightarrow> bool" where
  "turn_fails sys w sv x \<longleftrightarrow> (case w of
     Wait_errno n \<Rightarrow> n \<noteq> EINTR \<and> x = Runtime_error ''epoll error''
   | Wait_events es \<Rightarrow> \<exists>es1 e es2 sv1 out. es = es1 @ e # es2 \<and>
       service_events sys es1 sv = Ret (sv1, out) \<and> event_fails sys e sv1 x)"

subsection \<open>Sessions\<close>

lemma wf_write_throws_iff:
  "wf_write d fw = Throw x \<longleftrightarrow> wf_mode fw = NETASCII \<and> netascii_to_native d = Throw x"
  by (cases "wf_mode fw") (auto simp: wf_write_def obind_Throw_iff split: option.splits)

lemma read_data_throws_iff:
  "read_data d c = Throw x \<longleftrightarrow> wf_mode (c_file_writer c) = NETASCII \<and>
     (\<exists>p. deserialise_data_packet d = Some p \<and> data_block_number p = c_block_number c \<and>
        netascii_to_native (pkt_data p) = Throw x)"
proof -
  have "wf_error fw \<noteq> Throw x" for fw by (auto simp: wf_error_def split: option.splits)
  then show ?thesis
    by (auto simp: read_data_def Let_def obind_Throw_iff wf_write_throws_iff not_previous_self split: option.splits)
qed

lemma udp_recv_throws_iff:
  "udp_recv sz a = Throw x \<longleftrightarrow> (\<exists>n. a = Recv_errno n \<and> n \<noteq> EAGAIN \<and> x = Errno_error n)"
  by (cases a) auto

lemma handle_read_throws_iff:
  "handle_read a c = Throw x \<longleftrightarrow> tm_expirations (c_timer c) = 0 \<and> wait_for_read c \<and>
     ((\<exists>n. a = Recv_errno n \<and> n \<noteq> EAGAIN \<and> x = Errno_error n) \<or>
      c_state c = WAIT_FOR_DATA \<and> (\<exists>d. udp_recv (block_len c) a = Ret d \<and> read_data d c = Throw x))"
proof -
  have "read_data d (timer_read c) = Throw x \<longleftrightarrow> read_data d c = Throw x" for d
    by (simp add: read_data_throws_iff)
  then show ?thesis
    by (cases "c_state c") (auto simp: handle_read_eq obind_Throw_iff udp_recv_throws_iff wait_for_read_def)
qed

lemma no_data_in_errno: "deserialise_data_packet [] = None"
  by (simp add: deserialise_data_packet_def)

lemma service_connection_throws_iff:
  "service_connection events ra sa c = Throw x \<longleftrightarrow> session_fails events ra c x"
proof (cases "ev_in events")
  case True
  have data: "(\<exists>d. udp_recv (block_len c) ra = Ret d \<and> read_data d c = Throw x) \<longleftrightarrow>
      wf_mode (c_file_writer c) = NETASCII \<and>
      (\<exists>d p. ra = Datagram d \<and> deserialise_data_packet (take (block_len c) d) = Some p \<and>
         data_block_number p = c_block_number c \<and> netascii_to_native (pkt_data p) = Throw x)"
    by (cases ra) (auto simp: read_data_throws_iff no_data_in_errno)
  with True show ?thesis
    by (auto simp: service_connection_def session_fails_def obind_Throw_iff handle_read_throws_iff data wait_for_read_def)
next
  case False
  then show ?thesis
    by (auto simp: service_connection_def session_fails_def handle_write_throws_iff)
qed

subsection \<open>The listening socket and new connections\<close>

lemma handler_read_loop_throws_iff:
  "handler_read_loop d from answers h = Throw x \<longleftrightarrow> d \<noteq> [] \<and> receive_fails answers x"
  by (induction answers x arbitrary: d "from" h rule: receive_fails.induct;
      subst handler_read_loop.simps; auto simp: Let_def handler_read_loop.simps [of "[]"])

lemma handler_read_throws_iff:
  "handler_handle_read answers h = Throw x \<longleftrightarrow> receive_fails answers x"
  by (cases "(answers, x)" rule: receive_fails.cases)
    (auto simp: handler_handle_read_def handler_read_loop_throws_iff handler_read_loop.simps [of "[]"])

lemma allowed_result:
  "case sys_weakly_canonical sys (path_append (sys_cwd sys) f) of
     None \<Rightarrow> is_operation_allowed sys f t = Throw Filesystem_error
   | Some p \<Rightarrow>
       if is_subpath p (sys_cwd sys) \<and> (t = READ \<or> t = WRITE) \<and> sys_exists sys p = None
       then is_operation_allowed sys f t = Throw Filesystem_error
       else \<exists>e. is_operation_allowed sys f t = Ret e"
  by (auto simp: is_operation_allowed_def filesystem_def split: option.splits)

lemma new_connection_result:
  "if request_fails sys req then \<exists>x. new_connection sys req cl = Throw x
   else \<exists>c. new_connection sys req cl = Ret c"
proof (cases "system_ready sys")
  case True
  have "is_operation_allowed sys (rw_filename req) (rw_type req) = Ret e \<Longrightarrow> \<exists>c. new_connection sys req cl = Ret c" for e
    using True by (cases e)
      (auto simp: system_ready_def new_connection_def udp_new_def timer_new_def udp_bind_def udp_connect_sa_def
        udp_set_non_blocking_def Let_def)
  moreover have "is_operation_allowed sys (rw_filename req) (rw_type req) = Throw y \<Longrightarrow>
      \<exists>x. new_connection sys req cl = Throw x" for y
    using True by (auto simp: system_ready_def new_connection_def udp_new_def timer_new_def udp_bind_def
        udp_connect_sa_def udp_set_non_blocking_def Let_def)
  ultimately show ?thesis
    using allowed_result [of sys "rw_filename req" "rw_type req"] True
    by (auto simp: request_fails_def split: option.splits if_splits)
next
  case False
  then have "\<exists>x. new_connection sys req cl = Throw x"
    by (cases "sys_socket sys"; cases "sys_setsockopt sys"; cases "sys_timerfd sys"; cases "sys_bind sys";
        cases "sys_connect sys"; cases "sys_getfl sys"; cases "sys_setfl sys";
        simp add: system_ready_def new_connection_def udp_new_def timer_new_def udp_bind_def udp_connect_sa_def
          udp_set_non_blocking_def Let_def)
  with False show ?thesis by (simp add: request_fails_def)
qed

lemma accept_requests_throws_iff:
  "server_inv sv \<Longrightarrow> accept_requests sys sv = Throw x \<longleftrightarrow>
     accept_fails sys (sv_next sv)
       (take (sv_max_clients sv - length (sv_client_connections sv)) (h_request_queue (sv_conn_handler sv))) x"
proof (induction sys sv rule: accept_requests.induct)
  case (1 sys sv)
  show ?case
  proof (cases "requests_pending (sv_conn_handler sv) \<and> length (sv_client_connections sv) < sv_max_clients sv")
    case True
    then obtain r rs where q: "h_request_queue (sv_conn_handler sv) = r # rs"
      by (cases "h_request_queue (sv_conn_handler sv)") (auto simp: requests_pending_def)
    let ?h = "(sv_conn_handler sv)\<lparr>h_request_queue := rs\<rparr>"
    have r: "get_request (sv_conn_handler sv) = Ret (r, ?h)" by (simp add: get_request_def q)
    have inv: "server_inv (sv\<lparr>sv_conn_handler := ?h\<rparr>)" using 1(2) by simp
    from True obtain m where m: "sv_max_clients sv - length (sv_client_connections sv) = Suc m"
      by (metis Suc_diff_Suc)
    have step: "accept_requests sys sv =
        obind (accept_request sys r (sv\<lparr>sv_conn_handler := ?h\<rparr>)) (accept_requests sys)"
      using True r by (subst accept_requests.simps) simp
    show ?thesis
    proof (cases "request_fails (sys (sv_next sv)) (request r)")
      case bad: True
      then obtain y where "new_connection (sys (sv_next sv)) (request r) (client r) = Throw y"
        using new_connection_result [of "sys (sv_next sv)" "request r" "client r"] by auto
      with bad show ?thesis by (simp add: step accept_request_eq [OF inv] q m)
    next
      case good: False
      then obtain c where c: "new_connection (sys (sv_next sv)) (request r) (client r) = Ret c"
        using new_connection_result [of "sys (sv_next sv)" "request r" "client r"] by auto
      define sv1 where "sv1 = sv\<lparr>sv_conn_handler := ?h,
        sv_client_connections := sv_client_connections sv @ [(sv_next sv, c)], sv_next := Suc (sv_next sv),
        sv_epoll := registrations (sv_client_connections sv @ [(sv_next sv, c)])\<rparr>"
      have sv1: "accept_request sys r (sv\<lparr>sv_conn_handler := ?h\<rparr>) = Ret sv1"
        using c by (simp add: accept_request_eq [OF inv] sv1_def)
      have inv1: "server_inv sv1" by (rule server_inv_accept [OF inv _ sv1]) (use True in simp)
      have left: "sv_max_clients sv1 - length (sv_client_connections sv1) = m" "sv_next sv1 = Suc (sv_next sv)"
        "h_request_queue (sv_conn_handler sv1) = rs"
        using m by (simp_all add: sv1_def)
      from 1(1) [OF True r _ inv1] sv1
      have "accept_requests sys sv1 = Throw x \<longleftrightarrow> accept_fails sys (Suc (sv_next sv)) (take m rs) x"
        unfolding left by simp
      with good sv1 show ?thesis by (simp add: step q m)
    qed
  next
    case False
    then have "accept_requests sys sv = Ret sv" by (subst accept_requests.simps) auto
    with False show ?thesis by (auto simp: requests_pending_def)
  qed
qed

subsection \<open>The loop\<close>

lemma service_event_throws_iff:
  assumes inv: "server_inv sv"
  shows "service_event sys e sv = Throw x \<longleftrightarrow> event_fails sys e sv x"
proof (cases e)
  case (Request_event answers)
  have "accept_requests sys (sv\<lparr>sv_conn_handler := h\<rparr>) = Throw x \<longleftrightarrow> accept_fails sys (sv_next sv)
      (take (sv_max_clients sv - length (sv_client_connections sv)) (h_request_queue h)) x" for h
    using accept_requests_throws_iff [of "sv\<lparr>sv_conn_handler := h\<rparr>" sys x] inv by simp
  then show ?thesis
    by (auto simp: Request_event event_fails_def service_event_def obind_Throw_iff handler_read_throws_iff)
next
  case (Client_event i events ra sa)
  show ?thesis
  proof (cases "map_of (sv_client_connections sv) i")
    case None
    then show ?thesis by (simp add: Client_event event_fails_def service_event_def)
  next
    case (Some c)
    then show ?thesis
      by (auto simp: Client_event event_fails_def service_client_eq [OF inv Some] obind_Throw_iff
          service_connection_throws_iff)
  qed
qed

lemma service_events_throws_iff:
  "server_inv sv \<Longrightarrow> service_events sys es sv = Throw x \<longleftrightarrow>
     (\<exists>es1 e es2 sv1 out. es = es1 @ e # es2 \<and> service_events sys es1 sv = Ret (sv1, out) \<and> event_fails sys e sv1 x)"
proof (induction es arbitrary: sv)
  case (Cons e es)
  show ?case
  proof (intro iffI; (elim exE conjE)?)
    assume "service_events sys (e # es) sv = Throw x"
    then consider "event_fails sys e sv x"
      | sv1 o1 where "service_event sys e sv = Ret (sv1, o1)" "service_events sys es sv1 = Throw x"
      by (auto simp: obind_Throw_iff service_event_throws_iff [OF Cons.prems])
    then show "\<exists>es1 e' es2 sv1 out. e # es = es1 @ e' # es2 \<and> service_events sys es1 sv = Ret (sv1, out) \<and>
        event_fails sys e' sv1 x"
    proof cases
      case 1
      then show ?thesis by (intro exI [of _ "[]"] exI [of _ e] exI [of _ es] exI [of _ sv]) simp
    next
      case 2
      from Cons.IH [OF server_inv_event [OF Cons.prems 2(1)]] 2(2) obtain es1 e' es2 sv2 out where
        "es = es1 @ e' # es2" "service_events sys es1 sv1 = Ret (sv2, out)" "event_fails sys e' sv2 x" by blast
      with 2(1) show ?thesis by (intro exI [of _ "e # es1"] exI [of _ e'] exI [of _ es2] exI [of _ sv2]) simp
    qed
  next
    fix es1 e' es2 sv1 out
    assume e': "e # es = es1 @ e' # es2" "service_events sys es1 sv = Ret (sv1, out)" "event_fails sys e' sv1 x"
    show "service_events sys (e # es) sv = Throw x"
    proof (cases es1)
      case Nil
      with e' service_event_throws_iff [OF Cons.prems] show ?thesis by (auto simp: obind_Throw_iff)
    next
      case (Cons e0 es0)
      with e' obtain sv0 o0 o1 where 0: "service_event sys e sv = Ret (sv0, o0)"
        "service_events sys es0 sv0 = Ret (sv1, o1)" "es = es0 @ e' # es2" by (auto simp: outcome_simps)
      with Cons.IH [OF server_inv_event [OF Cons.prems 0(1)]] e'(3) show ?thesis
        by (auto simp: obind_Throw_iff)
    qed
  qed
qed simp

lemma clean_server_no_throw: "server_inv sv \<Longrightarrow> clean_server sv \<noteq> Throw x"
  by (simp add: server_inv_clean split: option.splits)

lemma turn_throws_iff:
  assumes "server_inv sv" and "\<not> sv_exit_requested sv"
  shows "server_loop sys [(False, s, w)] sv = Throw x \<longleftrightarrow> turn_fails sys w (elapse_all s sv) x"
proof -
  have inv: "server_inv (elapse_all s sv)" using assms(1) by (rule server_inv_elapse)
  have "obind (clean_server sv1) (\<lambda>sv. Ret (sv, out)) \<noteq> Throw x"
    if "service_events sys es (elapse_all s sv) = Ret (sv1, out)" for es sv1 out
    using clean_server_no_throw [OF server_inv_events [OF inv that]] by (simp add: obind_Throw_iff)
  then show ?thesis
    using assms(2) service_events_throws_iff [OF inv]
    by (cases w) (auto simp: turn_fails_def obind_Throw_iff split: if_splits)
qed

lemma server_loop_throw_prefix:
  "server_loop sys [turn] sv = Throw x \<Longrightarrow> server_loop sys (turn # ws) sv = Throw x"
  by (cases turn) (auto simp: Let_def obind_Throw_iff split: if_splits wait_answer.splits)

lemma server_loop_first:
  assumes "server_loop sys (turn # ws) sv = Throw x" and "server_loop sys [turn] sv \<noteq> Throw x"
  shows "\<exists>sv1 out. server_loop sys [turn] sv = Ret (sv1, out) \<and> server_loop sys ws sv1 = Throw x \<and>
    \<not> sv_exit_requested sv1"
proof -
  have stopped: "sv_exit_requested sv1 \<Longrightarrow> server_loop sys ws sv1 \<noteq> Throw x" for sv1
    by (cases ws) (auto simp: Let_def server_stop_def split: if_splits)
  obtain stop s w where turn: "turn = (stop, s, w)" by (cases turn)
  show ?thesis
  proof (cases w)
    case (Wait_errno n)
    with assms turn stopped show ?thesis by (auto simp: Let_def split: if_splits)
  next
    case (Wait_events es)
    with assms turn stopped show ?thesis by (fastforce simp: Let_def obind_Throw_iff split: if_splits)
  qed
qed

text \<open>The loop throws where a turn does, after turns that it has gone through without being stopped.\<close>

lemma server_loop_throws_iff:
  "server_inv sv \<Longrightarrow> \<not> sv_exit_requested sv \<Longrightarrow> server_loop sys ws sv = Throw x \<longleftrightarrow>
     (\<exists>ws1 s w ws2 sv1 out. ws = ws1 @ (False, s, w) # ws2 \<and> server_loop sys ws1 sv = Ret (sv1, out) \<and>
        \<not> sv_exit_requested sv1 \<and> turn_fails sys w (elapse_all s sv1) x)"
proof (intro iffI; (elim exE conjE)?)
  fix ws1 s w ws2 sv1 out
  assume inv: "server_inv sv" and ws: "ws = ws1 @ (False, s, w) # ws2"
    and run: "server_loop sys ws1 sv = Ret (sv1, out)" "\<not> sv_exit_requested sv1"
    and "turn_fails sys w (elapse_all s sv1) x"
  then have "server_loop sys [(False, s, w)] sv1 = Throw x"
    using turn_throws_iff [OF server_inv_loop [OF inv run(1)] run(2)] by simp
  then have "server_loop sys ((False, s, w) # ws2) sv1 = Throw x" by (rule server_loop_throw_prefix)
  with server_loop_append [OF run] show "server_loop sys ws sv = Throw x" by (simp add: ws del: server_loop.simps)
next
  assume "server_inv sv" "\<not> sv_exit_requested sv" "server_loop sys ws sv = Throw x"
  then show "\<exists>ws1 s w ws2 sv1 out. ws = ws1 @ (False, s, w) # ws2 \<and> server_loop sys ws1 sv = Ret (sv1, out) \<and>
        \<not> sv_exit_requested sv1 \<and> turn_fails sys w (elapse_all s sv1) x"
  proof (induction ws arbitrary: sv)
    case (Cons turn ws)
    obtain stop s w where turn: "turn = (stop, s, w)" by (cases turn)
    with Cons.prems(3) have go: "\<not> stop" by (auto simp: server_stop_def Let_def)
    show ?case
    proof (cases "turn_fails sys w (elapse_all s sv) x")
      case True
      with Cons.prems(2) turn go show ?thesis
        by (intro exI [of _ "[]"] exI [of _ s] exI [of _ w] exI [of _ ws] exI [of _ sv]) simp
    next
      case False
      with turn_throws_iff [OF Cons.prems(1,2)] have "server_loop sys [turn] sv \<noteq> Throw x"
        using turn go by simp
      with server_loop_first [of sys turn ws sv x] Cons.prems(3) obtain sv1 o1 where sv1:
        "server_loop sys [turn] sv = Ret (sv1, o1)" "server_loop sys ws sv1 = Throw x" "\<not> sv_exit_requested sv1" by blast
      from Cons.IH [OF server_inv_loop [OF Cons.prems(1) sv1(1)] sv1(3,2)] obtain ws1 s' w' ws2 sv2 o2 where
        "ws = ws1 @ (False, s', w') # ws2" "server_loop sys ws1 sv1 = Ret (sv2, o2)"
        "\<not> sv_exit_requested sv2" "turn_fails sys w' (elapse_all s' sv2) x" by blast
      with server_loop_append [OF sv1(1,3), of ws1] show ?thesis
        by (intro exI [of _ "turn # ws1"] exI [of _ s'] exI [of _ w'] exI [of _ ws2] exI [of _ sv2])
          (simp del: server_loop.simps)
    qed
  qed simp
qed

end
