(* ===== verification/Program_Props.thy ===== *)
theory Program_Props
  imports Demo Client_Main Program_Download Failures
begin

text \<open>
  The properties of the two programs: what the server ever sends, how it ends, and what the exit
  status of the client tells.
\<close>

section \<open>A run of the server program\<close>

text \<open>
  For the witnesses: a server that has accepted a request and sent the only block of its file, and
  waits for the ACK.
\<close>

definition demo_server_host :: server_host where
  "demo_server_host = \<lparr>sh_logger = True, sh_socket = Inr 3, sh_setsockopt = None, sh_bind = None,
     sh_getfl = None, sh_setfl = None, sh_chdir = (\<lambda>_. None), sh_epoll_create1 = Inr 4\<rparr>"

abbreviation demo_args :: "bytes list" where "demo_args \<equiv> [bytes_of ''/srv'', []]"

definition demo_datagram :: "packet_t \<Rightarrow> mode_t \<Rightarrow> bytes" where
  "demo_datagram type mode = serialise_rw_packet (demo_request type mode [])"

definition demo_turns :: "(bool \<times> nat \<times> wait_answer) list" where
  "demo_turns =
     [(False, 0, Wait_events [Request_event [Datagram_from demo_client (demo_datagram READ OCTET)]]),
      send_turn 0 0 (1, 0)]"

lemma demo_datagram_parsed:
  assumes "type = READ \<or> type = WRITE"
  shows "demo_datagram type mode \<noteq> []"
    and "parse_request (demo_client, demo_datagram type mode) =
      Some \<lparr>request = demo_request type mode [], client = demo_client\<rparr>"
proof -
  have "valid_rw (demo_request type mode [])"
    using assms by (auto simp: valid_rw_def nul_free_def demo_request_def bytes_of_def)
  then have "deserialise_rw_packet (demo_datagram type mode) = Some (demo_request type mode [])"
    unfolding demo_datagram_def by (rule deserialise_serialise_rw)
  moreover have "take REQUEST_MAX_SIZE (demo_datagram type mode) = demo_datagram type mode"
    by (cases mode) (simp_all add: demo_datagram_def serialise_rw_packet_def demo_request_def
        bytes_of_def OCTET_MODE_STR_def NETASCII_MODE_STR_def)
  ultimately show "parse_request (demo_client, demo_datagram type mode) =
      Some \<lparr>request = demo_request type mode [], client = demo_client\<rparr>" by (simp add: parse_request_def)
  show "demo_datagram type mode \<noteq> []" by (simp add: demo_datagram_def serialise_rw_packet_def)
qed

lemma demo_constructed:
  "\<exists>sv. construct_server demo_server_host (demo_args ! 0) (demo_args ! 1) = Ret sv \<and>
     sv_client_connections sv = [] \<and> h_request_queue (sv_conn_handler sv) = [] \<and>
     \<not> sv_exit_requested sv \<and> sv_max_clients sv = 100 \<and> sv_next sv = 0"
proof -
  have "inet_pton (bytes_of ''0.0.0.0'') = Some (In_addr 0 0 0 0)" by code_simp
  moreover have "bytes_of ''0.0.0.0'' \<noteq> []" by (simp add: bytes_of_def)
  ultimately show ?thesis
    by (simp add: construct_server_def demo_server_host_def new_server_def new_handler_def udp_new_def
        udp_bind_def udp_set_non_blocking_def Let_def)
qed

lemma demo_server_args: "server_args demo_server_host demo_args"
  by (simp add: server_args_def demo_server_host_def)

lemma demo_begun:
  "\<exists>sv. serving demo_server_host demo_args sys [] sv \<and>
     sv_client_connections sv = [] \<and> h_request_queue (sv_conn_handler sv) = [] \<and>
     0 < sv_max_clients sv \<and> sv_next sv = 0"
proof -
  from demo_constructed obtain sv0 where sv0:
    "construct_server demo_server_host (demo_args ! 0) (demo_args ! 1) = Ret sv0"
    "sv_client_connections sv0 = []" "h_request_queue (sv_conn_handler sv0) = []"
    "\<not> sv_exit_requested sv0" "sv_max_clients sv0 = 100" "sv_next sv0 = 0" by blast
  note start = server_inv_new [OF sv0(1) [unfolded construct_server_def]]
  have "serving demo_server_host demo_args sys [] (sv0\<lparr>sv_epoll := [Listen_fd \<mapsto> EPOLLIN]\<rparr>)"
    using sv0(1,4) demo_server_args start(2) [of sys "[]"] by (auto simp: serving_def)
  with sv0 show ?thesis by (intro exI [of _ "sv0\<lparr>sv_epoll := [Listen_fd \<mapsto> EPOLLIN]\<rparr>"]) simp
qed

lemma demo_accepted:
  assumes c: "new_connection sys (demo_request type mode []) demo_client = Ret c" "\<not> c_finished c"
    and type: "type = READ \<or> type = WRITE"
  obtains sv0 sv where
    "construct_server demo_server_host (demo_args ! 0) (demo_args ! 1) = Ret sv0"
    and "server_start (\<lambda>_. sys) us sv0 = server_loop (\<lambda>_. sys) us (sv0\<lparr>sv_epoll := [Listen_fd \<mapsto> EPOLLIN]\<rparr>)"
    and "server_loop (\<lambda>_. sys)
      [(False, 0, Wait_events [Request_event [Datagram_from demo_client (demo_datagram type mode)]])]
      (sv0\<lparr>sv_epoll := [Listen_fd \<mapsto> EPOLLIN]\<rparr>) = Ret (sv, [])"
    and "serving demo_server_host demo_args (\<lambda>_. sys)
      [(False, 0, Wait_events [Request_event [Datagram_from demo_client (demo_datagram type mode)]])] sv"
    and "sv_client_connections sv = [(0, c)]" "\<not> sv_exit_requested sv"
proof -
  from demo_constructed obtain sv0 where sv0:
    "construct_server demo_server_host (demo_args ! 0) (demo_args ! 1) = Ret sv0"
    "sv_client_connections sv0 = []" "h_request_queue (sv_conn_handler sv0) = []"
    "\<not> sv_exit_requested sv0" "sv_max_clients sv0 = 100" "sv_next sv0 = 0" by blast
  let ?sv = "sv0\<lparr>sv_epoll := [Listen_fd \<mapsto> EPOLLIN]\<rparr>"
  note start = server_inv_new [OF sv0(1) [unfolded construct_server_def]]
  have begun: "serving demo_server_host demo_args (\<lambda>_. sys) [] ?sv"
    using sv0(1,4) demo_server_args start(2) [of "\<lambda>_. sys" "[]"] by (auto simp: serving_def)
  have "\<exists>sv. server_loop (\<lambda>_. sys)
      [(False, 0, Wait_events [Request_event [Datagram_from demo_client (demo_datagram type mode)]])]
      ?sv = Ret (sv, []) \<and>
      sv_client_connections sv = [(sv_next ?sv, c)] \<and> \<not> sv_exit_requested sv"
    by (rule request_turn [OF start(1) _ _ _ _ demo_datagram_parsed [OF type]])
      (use sv0 c in simp_all)
  then obtain sv where sv: "server_loop (\<lambda>_. sys)
      [(False, 0, Wait_events [Request_event [Datagram_from demo_client (demo_datagram type mode)]])] ?sv = Ret (sv, [])"
    "sv_client_connections sv = [(0, c)]" "\<not> sv_exit_requested sv" using sv0(6) by auto
  with serving_extend [OF begun sv(1,3)] sv0(1) start(2) show thesis by (intro that) simp_all
qed

lemma demo_run:
  obtains sv0 sv c p where "construct_server demo_server_host (demo_args ! 0) (demo_args ! 1) = Ret sv0"
    and "server_start (\<lambda>_. demo_system True [1, 2, 3]) demo_turns sv0 = Ret (sv, [(demo_client, serialise_data_packet p)])"
    and "serving demo_server_host demo_args (\<lambda>_. demo_system True [1, 2, 3]) demo_turns sv"
    and "alone sv 0 c 512 [1, 2, 3] (c_oack_packet c) 1" and "awaiting_ack 0 c"
proof -
  let ?sys = "\<lambda>_. demo_system True [1, 2, 3]"
  obtain c0 where c0: "new_connection (demo_system True [1, 2, 3]) (demo_request READ OCTET []) demo_client = Ret c0"
    using demo_new(1) by blast
  note new = new_read_session [OF c0 demo_simps(1) demo_allowed(1) demo_simps(4)]
  have conn: "block_len c0 = 512" "oack_options (c_oack_packet c0) = []" using new(8) by simp_all
  obtain sv0 sv1 where sv0: "construct_server demo_server_host (demo_args ! 0) (demo_args ! 1) = Ret sv0"
    and start: "server_start ?sys demo_turns sv0 = server_loop ?sys demo_turns (sv0\<lparr>sv_epoll := [Listen_fd \<mapsto> EPOLLIN]\<rparr>)"
    and first: "server_loop ?sys
      [(False, 0, Wait_events [Request_event [Datagram_from demo_client (demo_datagram READ OCTET)]])]
      (sv0\<lparr>sv_epoll := [Listen_fd \<mapsto> EPOLLIN]\<rparr>) = Ret (sv1, [])"
    and one: "serving demo_server_host demo_args ?sys
      [(False, 0, Wait_events [Request_event [Datagram_from demo_client (demo_datagram READ OCTET)]])] sv1"
    and sv1: "sv_client_connections sv1 = [(0, c0)]" "\<not> sv_exit_requested sv1"
    by (rule demo_accepted [OF c0 new(3), where us = demo_turns]) simp
  have "alone sv1 0 c0 512 [1, 2, 3] (c_oack_packet c0) 1"
    using serving_inv [OF one] sv1 new(1,3) conn by (simp add: alone_def rf_convert_def)
  moreover have "c_state c0 = SEND_DATA" using new(2) conn(2) by simp
  moreover have "0 < unat (c_timeout_s c0)" using new(6) by (simp add: timeout_ok_def word_le_nat_alt)
  ultimately obtain sv2 c1 where c1:
    "server_loop ?sys [send_turn 0 0 (1, 0)] sv1 =
      Ret (sv2, [(c_client c0, serialise_data_packet (nth_data_packet 512 [1, 2, 3] 1))])"
    "alone sv2 0 c1 512 [1, 2, 3] (c_oack_packet c0) 1" "awaiting_ack 0 c1"
    using send_turn_runs [of sv1 0 c0 512 "[1, 2, 3]" "c_oack_packet c0" 1 "(1, 0)" 0 ?sys] by auto
  have run: "\<not> sv_exit_requested sv2" and oack: "c_oack_packet c1 = c_oack_packet c0"
    using c1(2) by (simp_all add: alone_def read_inv_at_def)
  have "server_start ?sys demo_turns sv0 =
      Ret (sv2, [(demo_client, serialise_data_packet (nth_data_packet 512 [1, 2, 3] 1))])"
    using server_loop_append [OF first sv1(2)] c1(1) new_connection_client [OF c0]
    unfolding start by (simp add: demo_turns_def)
  moreover have "serving demo_server_host demo_args ?sys demo_turns sv2"
    using serving_extend [OF one c1(1) run] by (simp add: demo_turns_def)
  ultimately show thesis using sv0 c1(2,3) oack by (intro that) simp_all
qed

lemma alone_0:
  assumes "alone sv i c n S oack k" and "awaiting_ack 0 c"
  shows "elapse_all 0 sv = sv"
proof -
  have "elapse 0 (c_timer c) = c_timer c" using assms(2) by (cases "c_timer c") (auto simp: awaiting_ack_def elapse_def)
  with assms(1) show ?thesis by (simp add: alone_def elapse_all_def)
qed


text \<open>A whole download of a client that is alone, from its request to its last ACK.\<close>

lemma lone_download:
  assumes "serving host args sys us sv" and "sv_client_connections sv = []"
    and "h_request_queue (sv_conn_handler sv) = []" and "0 < sv_max_clients sv"
    and "d \<noteq> []" "deserialise_rw_packet (take REQUEST_MAX_SIZE d) = Some req" and "rw_type req = READ"
    and "is_operation_allowed (sys (sv_next sv)) (rw_filename req) READ = Ret None"
    and "sys_fopen_r (sys (sv_next sv)) (c_str (rw_filename req)) = Inr (open_infile content)"
    and "new_connection (sys (sv_next sv)) req sa = Ret c" and "0 < block_len c"
    and "0 < fst a" and "s < unat (c_timeout_s c)"
  defines "S \<equiv> rf_convert (rw_mode req) content" and "oack \<equiv> c_oack_packet c"
  defines "first \<equiv> if oack_options oack = [] then 1 else 0" and "final \<equiv> length S div block_len c + 1"
  defines "turns \<equiv> (False, s, Wait_events [Request_event [Datagram_from sa d]]) #
    download_turns s (sv_next sv) a first (final - first)"
  shows "(\<exists>sv'. server_loop sys turns sv =
      Ret (sv', map (\<lambda>k. (sa, nth_datagram (block_len c) S oack k)) [first..<final + 1])) \<and>
    server_main host argv0 args sys (us @ turns @ ack_turn s (sv_next sv) a final # ws) = Undefined"
proof -
  let ?n = "block_len c" and ?i = "sv_next sv"
  have run: "\<not> sv_exit_requested sv" using assms(1) by (simp add: serving_def)
  note inv = serving_inv [OF assms(1)]
  note new = new_read_session [OF assms(10,7,8,9)]
  have r: "parse_request (sa, d) = Some \<lparr>request = req, client = sa\<rparr>"
    using assms(6) by (simp add: parse_request_def)
  from request_turn [OF inv run assms(2-5) r _ new(3), of sys s] assms(10)
  obtain sv1 where sv1: "server_loop sys [(False, s, Wait_events [Request_event [Datagram_from sa d]])] sv = Ret (sv1, [])"
    "sv_client_connections sv1 = [(?i, c)]" "\<not> sv_exit_requested sv1" by auto
  have c: "read_inv_at ?n S oack first c" "c_state c = (if first = 1 then SEND_DATA else SEND_OACK)" "first \<le> 1"
    using new(1,2) by (simp_all add: S_def oack_def first_def)
  from whole_download_runs [OF server_inv_loop [OF inv sv1(1)] sv1(3,2) c(1,2) new(3,7) c(3) assms(12,13,11), of sys]
  obtain sv2 c2 where sv2: "server_loop sys (download_turns s ?i a first (final - first)) sv1 =
      Ret (sv2, map (\<lambda>k. (c_client c, nth_datagram ?n S oack k)) [first..<final + 1])"
    "alone sv2 ?i c2 ?n S oack final" "awaiting_ack s c2"
    unfolding final_def by (auto simp del: upt_Suc)
  have run2: "\<not> sv_exit_requested sv2" using sv2(2) by (simp add: alone_def)
  have loop: "server_loop sys turns sv =
      Ret (sv2, map (\<lambda>k. (sa, nth_datagram ?n S oack k)) [first..<final + 1])"
    using server_loop_append [OF sv1(1,3), of "download_turns s ?i a first (final - first)"] sv2(1)
      new_connection_client [OF assms(10)]
    by (simp add: turns_def del: upt_Suc)
  have "length (chunk ?n (final - 1) S) < ?n" using assms(11) by (simp add: final_def chunk_short_iff)
  from ack_turn_runs(1) [OF sv2(2,3) this]
  have "server_loop sys (ack_turn s ?i a final # ws) sv2 = Undefined" .
  then have "server_main host argv0 args sys ((us @ turns) @ ack_turn s ?i a final # ws) = Undefined"
    unfolding server_main_continues [OF serving_extend [OF assms(1) loop run2]] by simp
  with loop show ?thesis by simp
qed

section \<open>The server\<close>

text \<open>
  C13: From its construction on, the server sends only what a session sends: each datagram goes to a
  client whose request reached the listening socket, and is an output of a run of the connection made
  for that request; it is a DATA, ACK, OACK or ERROR packet that the parser of its format reads
  back, with an error code of 7 at most.
\<close>

theorem server_replies:
  assumes "new_server interface port max_clients socket opt bind getfl setfl chdir epoll_create1 = Ret sv"
    and "server_start sys ws sv = Ret (sv', out)" and "(a, d) \<in> set out"
  shows "(\<exists>p req i c0 os c. arrives a p ws \<and> deserialise_rw_packet (take REQUEST_MAX_SIZE p) = Some req \<and>
      new_connection (sys i) req a = Ret c0 \<and> session_run c0 os c \<and> d \<in> set os) \<and>
    ((\<exists>p. d = serialise_data_packet p \<and> deserialise_data_packet d = Some p) \<or>
     (\<exists>p. d = serialise_ack_packet p \<and> deserialise_ack_packet d = Some p) \<or>
     (\<exists>p. d = serialise_oack_packet p \<and> deserialise_oack_packet d = Some p) \<or>
     (\<exists>e. d = serialise_error_packet e \<and> deserialise_error_packet d = Some e \<and> error_code e \<le> 7))"
proof
  from server_sessions [OF assms] obtain p r os c where r: "arrives a p ws"
    "parse_request (a, p) = Some r" "session_of sys r os c" "d \<in> set os" by blast
  from r(2) obtain req where "deserialise_rw_packet (take REQUEST_MAX_SIZE p) = Some req"
    "r = \<lparr>request = req, client = a\<rparr>" by (auto simp: parse_request_def)
  with r show "\<exists>p req i c0 os c. arrives a p ws \<and> deserialise_rw_packet (take REQUEST_MAX_SIZE p) = Some req \<and>
      new_connection (sys i) req a = Ret c0 \<and> session_run c0 os c \<and> d \<in> set os"
    by (fastforce simp: session_of_def)
  have "\<forall>(stop, s, w) \<in> set ws. replies.arrivals_ok w"
    by (auto simp: replies.arrivals_ok_def split: wait_answer.splits)
  from replies.new_server_serves(2) [OF assms(1,2) this assms(3)]
  show "(\<exists>p. d = serialise_data_packet p \<and> deserialise_data_packet d = Some p) \<or>
     (\<exists>p. d = serialise_ack_packet p \<and> deserialise_ack_packet d = Some p) \<or>
     (\<exists>p. d = serialise_oack_packet p \<and> deserialise_oack_packet d = Some p) \<or>
     (\<exists>e. d = serialise_error_packet e \<and> deserialise_error_packet d = Some e \<and> error_code e \<le> 7)"
    by (rule reply_parses)
qed

theorem server_replies_witness:
  "\<exists>sv sv' d. construct_server demo_server_host (demo_args ! 0) (demo_args ! 1) = Ret sv \<and>
     server_start (\<lambda>_. demo_system True [1, 2, 3]) demo_turns sv = Ret (sv', [(demo_client, d)]) \<and>
     ((\<exists>p. deserialise_data_packet d = Some p) \<or> (\<exists>p. deserialise_ack_packet d = Some p) \<or>
      (\<exists>p. deserialise_oack_packet d = Some p) \<or> (\<exists>p. deserialise_error_packet d = Some p))"
proof -
  obtain sv sv' p where r: "construct_server demo_server_host (demo_args ! 0) (demo_args ! 1) = Ret sv"
    "server_start (\<lambda>_. demo_system True [1, 2, 3]) demo_turns sv = Ret (sv', [(demo_client, serialise_data_packet p)])"
    by (rule demo_run)
  from server_replies [OF r(1) [unfolded construct_server_def] r(2), of demo_client "serialise_data_packet p"] r show ?thesis by auto
qed

text \<open>
  C14: The server discloses nothing outside its root: every DATA packet it ever sends answers a \<open>READ\<close>
  request of its recipient for a path whose canonical form lies under the root and exists, and is a
  block of the converted content of the file opened for it.  What \<open>fopen\<close> returns stands at the
  start of its file, and its device may fail later.
\<close>

theorem server_confined:
  assumes "new_server interface port max_clients socket opt bind getfl setfl chdir epoll_create1 = Ret sv"
    and "server_start sys ws sv = Ret (sv', out)" and "(a, serialise_data_packet p) \<in> set out"
    and "\<And>i path f. sys_fopen_r (sys i) path = Inr f \<Longrightarrow>
      \<exists>content fault. f = (open_infile content)\<lparr>in_fault := fault\<rparr>"
  shows "\<exists>d req i canonical content fault n k. arrives a d ws \<and>
    deserialise_rw_packet (take REQUEST_MAX_SIZE d) = Some req \<and> rw_type req = READ \<and>
    sys_weakly_canonical (sys i) (path_append (sys_cwd (sys i)) (rw_filename req)) = Some canonical \<and>
    prefix (path_elems (sys_cwd (sys i))) (path_elems canonical) \<and>
    sys_exists (sys i) canonical = Some True \<and>
    sys_fopen_r (sys i) (c_str (rw_filename req)) = Inr ((open_infile content)\<lparr>in_fault := fault\<rparr>) \<and>
    1 \<le> k \<and> pkt_data p = take n (drop ((k - 1) * n) (rf_convert (rw_mode req) content)) \<and>
    data_block_number p = of_nat k"
proof -
  from server_sessions [OF assms(1-3)] obtain d r os c where r: "arrives a d ws"
    "parse_request (a, d) = Some r" "session_of sys r os c" "serialise_data_packet p \<in> set os" by blast
  from r(2) have "deserialise_rw_packet (take REQUEST_MAX_SIZE d) = Some (request r)"
    by (auto simp: parse_request_def)
  with session_data [OF r(3,4) assms(4)] r(1) show ?thesis
    unfolding is_operation_allowed_iff nth_data_packet_def chunk_def
    by (fastforce simp del: fun_upd_apply)
qed

theorem server_confined_witness:
  "\<exists>sv sv' p canonical. construct_server demo_server_host (demo_args ! 0) (demo_args ! 1) = Ret sv \<and>
     server_start (\<lambda>_. demo_system True [1, 2, 3]) demo_turns sv = Ret (sv', [(demo_client, serialise_data_packet p)]) \<and>
     prefix (path_elems (bytes_of ''/srv'')) (path_elems canonical)"
proof -
  obtain sv sv' p where r: "construct_server demo_server_host (demo_args ! 0) (demo_args ! 1) = Ret sv"
    "server_start (\<lambda>_. demo_system True [1, 2, 3]) demo_turns sv = Ret (sv', [(demo_client, serialise_data_packet p)])"
    by (rule demo_run)
  have "\<exists>content fault. f = (open_infile content)\<lparr>in_fault := fault\<rparr>"
    if "sys_fopen_r (demo_system True [1, 2, 3]) path = Inr f" for path f
    using that by (auto intro!: exI [of _ "[1, 2, 3]"] exI [of _ None] simp: open_infile_def)
  from server_confined [OF r(1) [unfolded construct_server_def] r(2) _ this, of demo_client p] r
  show ?thesis by (auto simp: demo_system_def)
qed

text \<open>
  C28: The exit status of the server is 0 only if its signal handler has called \<open>stop\<close>; otherwise the
  arguments, the logger, the construction or an exception out of the loop have given 1.
\<close>

theorem server_exits_on_signal:
  assumes "server_main host argv0 args sys ws = Ret (status, err)"
  shows "(status = 0 \<longrightarrow> err = [] \<and> (\<exists>(stop, s, w) \<in> set ws. stop)) \<and> (status \<noteq> 0 \<longrightarrow> status = 1)"
proof -
  have "status = 0 \<and> err = [] \<or> status = 1"
    using assms
    by (auto simp: server_main_def initialise_logger_def Let_def split: if_splits outcome.splits)
  moreover have "status = 0 \<Longrightarrow> \<exists>(stop, s, w) \<in> set ws. stop"
    using assms by (auto intro: server_main_status_0)
  ultimately show ?thesis by auto
qed

theorem server_exits_on_signal_witness:
  "\<exists>err. server_main demo_server_host [] demo_args (\<lambda>_. demo_system True [1]) [(True, 0, Wait_events [])] = Ret (0, err) \<and>
     err = []"
proof -
  from demo_constructed obtain sv where sv:
    "construct_server demo_server_host (demo_args ! 0) (demo_args ! 1) = Ret sv"
    "sv_client_connections sv = []" by blast
  note start = server_inv_new(2) [OF sv(1) [unfolded construct_server_def]]
  have r: "server_main demo_server_host [] demo_args (\<lambda>_. demo_system True [1]) [(True, 0, Wait_events [])] = Ret (0, [])"
    unfolding server_main_runs [OF demo_server_args] run_server_def sv(1)
    by (simp add: start server_stop_def)
  from server_exits_on_signal [OF r] r show ?thesis by simp
qed

text \<open>
  C11: The server program serves a download: when a \<open>READ\<close> request reaches a server without clients, and each
  packet is acknowledged before the timeout, the turns of the loop send the client the OACK, if options were
  acknowledged, and then every block of the converted file, in order and once.  The last ACK then finishes
  the only connection, and with it the clean-up pass makes the behaviour of the program undefined.
\<close>

theorem program_serves_download:
  assumes "serving host args sys us sv" and "sv_client_connections sv = []"
    and "h_request_queue (sv_conn_handler sv) = []" and "0 < sv_max_clients sv"
    and "d \<noteq> []" "deserialise_rw_packet (take REQUEST_MAX_SIZE d) = Some req" and "rw_type req = READ"
    and "is_operation_allowed (sys (sv_next sv)) (rw_filename req) READ = Ret None"
    and "sys_fopen_r (sys (sv_next sv)) (c_str (rw_filename req)) = Inr (open_infile content)"
    and "new_connection (sys (sv_next sv)) req sa = Ret c" and "0 < block_len c"
    and "0 < fst a" and "s < unat (c_timeout_s c)"
  defines "S \<equiv> rf_convert (rw_mode req) content" and "oack \<equiv> c_oack_packet c"
  defines "first \<equiv> if oack_options oack = [] then 1 else 0" and "final \<equiv> length S div block_len c + 1"
  defines "turns \<equiv> (False, s, Wait_events [Request_event [Datagram_from sa d]]) #
    download_turns s (sv_next sv) a first (final - first)"
  shows "(\<exists>sv'. server_loop sys turns sv = Ret (sv', map (\<lambda>k. (sa,
      if k = 0 then serialise_oack_packet oack
      else serialise_data_packet (nth_data_packet (block_len c) S k))) [first..<final + 1])) \<and>
    server_main host argv0 args sys (us @ turns @ ack_turn s (sv_next sv) a final # ws) = Undefined"
  unfolding S_def oack_def first_def final_def turns_def
  by (rule lone_download [OF assms(1-13), unfolded nth_datagram_def])

theorem program_serves_download_witness:
  "\<exists>sv d oack. serving demo_server_host demo_args (\<lambda>_. demo_system True [1, 2, 3]) [] sv \<and>
     deserialise_rw_packet d = Some (demo_request READ OCTET [(BLKSIZE_OPT, to_string 2)]) \<and>
     (\<exists>sv'. server_loop (\<lambda>_. demo_system True [1, 2, 3])
         ((False, 0, Wait_events [Request_event [Datagram_from demo_client d]]) # download_turns 0 0 (1, 0) 0 2) sv =
       Ret (sv', map (Pair demo_client) [serialise_oack_packet oack,
         serialise_data_packet \<lparr>pkt_data = [1, 2], data_block_number = 1\<rparr>,
         serialise_data_packet \<lparr>pkt_data = [3], data_block_number = 2\<rparr>])) \<and>
     server_main demo_server_host [] demo_args (\<lambda>_. demo_system True [1, 2, 3])
       ((False, 0, Wait_events [Request_event [Datagram_from demo_client d]]) # download_turns 0 0 (1, 0) 0 2 @
        [ack_turn 0 0 (1, 0) 2]) = Undefined"
proof -
  let ?sys = "\<lambda>_. demo_system True [1, 2, 3]" and ?req = "demo_request READ OCTET [(BLKSIZE_OPT, to_string 2)]"
  define d where "d = 0 # packet_code READ #
    nul_terminated (bytes_of ''a'' # bytes_of ''octet'' # option_strings [(BLKSIZE_OPT, to_string 2)])"
  from demo_begun obtain sv where sv: "serving demo_server_host demo_args ?sys [] sv"
    "sv_client_connections sv = []" "h_request_queue (sv_conn_handler sv) = []" "0 < sv_max_clients sv"
    "sv_next sv = 0" by blast
  obtain c where c: "new_connection (?sys (sv_next sv)) ?req demo_client = Ret c"
    using demo_new(1) by blast
  have two: "to_string 2 = [50]" by (subst to_string.simps) simp
  have "string_to_mode_t (bytes_of ''octet'') = Some OCTET"
    "map upcase_option [(BLKSIZE_OPT, to_string 2)] = [(BLKSIZE_OPT, to_string 2)]"
    unfolding two by code_simp+
  then have parsed: "deserialise_rw_packet d = Some ?req"
    using deserialise_rw_packet_request [of READ "bytes_of ''a''" "bytes_of ''octet''"
        "[(BLKSIZE_OPT, to_string 2)]" OCTET 0]
    by (simp add: d_def two demo_request_def nul_free_def nul_free_options_def bytes_of_def BLKSIZE_OPT_def)
  have "take REQUEST_MAX_SIZE d = d" by (simp add: d_def two bytes_of_def BLKSIZE_OPT_def)
  with parsed have d: "d \<noteq> []" "deserialise_rw_packet (take REQUEST_MAX_SIZE d) = Some ?req"
    by (simp_all add: d_def)
  have n: "block_len c = 2" and oack: "oack_options (c_oack_packet c) \<noteq> []"
    using demo_blksize [OF c demo_allowed(1) demo_mtu] by simp_all
  have pos: "0 < block_len c" "0 < fst (1 :: int, 0 :: int)" "0 < unat (c_timeout_s c)"
    using new_read_session(6) [OF c demo_simps(1) demo_allowed(1) demo_simps(4)]
    by (simp_all add: n timeout_ok_def word_le_nat_alt)
  have blocks: "nth_data_packet 2 [1, 2, 3] 1 = \<lparr>pkt_data = [1, 2], data_block_number = 1\<rparr>"
    "nth_data_packet 2 [1, 2, 3] 2 = \<lparr>pkt_data = [3], data_block_number = 2\<rparr>"
    by (simp_all add: nth_data_packet_def chunk_def)
  have upt: "[0..<3] = [0, 1, 2 :: nat]" by (simp add: upt_rec)
  have S: "rf_convert OCTET [1, 2, 3 :: byte] = [1, 2, 3]" by (simp add: rf_convert_def)
  have len: "length [1, 2, 3 :: byte] div 2 + 1 = 2" by simp
  have "(\<exists>sv'. server_loop ?sys
         ((False, 0, Wait_events [Request_event [Datagram_from demo_client d]]) # download_turns 0 0 (1, 0) 0 2) sv =
       Ret (sv', map (Pair demo_client) [serialise_oack_packet (c_oack_packet c),
         serialise_data_packet \<lparr>pkt_data = [1, 2], data_block_number = 1\<rparr>,
         serialise_data_packet \<lparr>pkt_data = [3], data_block_number = 2\<rparr>])) \<and>
     server_main demo_server_host [] demo_args ?sys
       ((False, 0, Wait_events [Request_event [Datagram_from demo_client d]]) # download_turns 0 0 (1, 0) 0 2 @
        [ack_turn 0 0 (1, 0) 2]) = Undefined"
    using program_serves_download [OF sv(1-4) d demo_simps(1) demo_allowed(1) demo_simps(4) c pos,
        unfolded n sv(5) demo_simps S len, of "[]" "[]"] oack
    by (simp add: upt blocks [unfolded One_nat_def] del: server_loop.simps upt_Suc download_turns.simps)
  with sv(1) parsed show ?thesis by blast
qed

text \<open>
  When, after the events of a turn, the list of connections ends in an odd number of finished ones
  - as when the only client's transfer ends - the clean-up pass increments the end iterator: the
  behaviour of the server program is undefined.
\<close>

lemma last_finished_undefined:
  assumes "serving host args sys us sv"
    and "service_events sys es (elapse_all s sv) = Ret (sv', out)"
    and "odd (trailing_finished (sv_client_connections sv'))"
  shows "server_main host argv0 args sys (us @ (False, s, Wait_events es) # ws) = Undefined"
proof -
  from assms(1) have run: "\<not> sv_exit_requested sv" by (simp add: serving_def)
  have inv: "server_inv sv'"
    using server_inv_events [OF server_inv_elapse [OF serving_inv [OF assms(1)]] assms(2)] .
  have "clean_server sv' = Undefined"
    using assms(3) clean_pass_None_iff [of "sv_client_connections sv'"] by (simp add: server_inv_clean [OF inv])
  with run assms(2) show ?thesis by (simp add: server_main_continues [OF assms(1)])
qed

text \<open>
  C26: What makes the server program fail comes from outside.  An exception \<open>x\<close> leaves the loop exactly when, after
  turns that it has gone through, there is one where \<open>epoll_wait\<close> fails (other than by a signal) or, after the
  events before it, an event meets: a receive that fails, \<open>x\<close> being its error; a system call or a query of the
  file system that fails for a new connection that there is room for, \<open>x\<close> being what the constructor throws; the
  DATA packet a netascii upload awaits, with a payload whose conversion throws \<open>x\<close>; or \<open>EPOLLOUT\<close> for a connection
  that waits to read.  So the queue, the list, the registrations and \<open>handle_write\<close> in the states that send never
  throw.  And the program ends with status 1 after it has begun to serve exactly when an exception leaves the
  loop.  (That \<open>epoll_ctl\<close> fails only for a descriptor registered already, or not registered, is the model's
  assumption.)
\<close>

theorem server_failure_causes:
  assumes "serving host args sys us sv"
  shows "(server_loop sys ws sv = Throw x \<longleftrightarrow>
      (\<exists>ws1 s w ws2 sv1 out. ws = ws1 @ (False, s, w) # ws2 \<and> server_loop sys ws1 sv = Ret (sv1, out) \<and>
         \<not> sv_exit_requested sv1 \<and> turn_fails sys w (elapse_all s sv1) x)) \<and>
    ((\<exists>err. server_main host argv0 args sys (us @ ws) = Ret (1, err)) \<longleftrightarrow>
     (\<exists>y. server_loop sys ws sv = Throw y))"
proof
  have run: "\<not> sv_exit_requested sv" using assms by (simp add: serving_def)
  show "server_loop sys ws sv = Throw x \<longleftrightarrow>
      (\<exists>ws1 s w ws2 sv1 out. ws = ws1 @ (False, s, w) # ws2 \<and> server_loop sys ws1 sv = Ret (sv1, out) \<and>
         \<not> sv_exit_requested sv1 \<and> turn_fails sys w (elapse_all s sv1) x)"
    by (rule server_loop_throws_iff [OF serving_inv [OF assms] run])
  show "(\<exists>err. server_main host argv0 args sys (us @ ws) = Ret (1, err)) \<longleftrightarrow> (\<exists>y. server_loop sys ws sv = Throw y)"
    by (auto simp: server_main_continues [OF assms] split: outcome.splits if_splits)
qed

theorem server_failure_causes_witness:
  "\<exists>sv w. serving demo_server_host demo_args (\<lambda>_. demo_system True [1, 2, 3]) demo_turns sv \<and>
     w = Wait_events [Client_event 0 (demo_event True False) (Recv_errno 111) (1, 0)] \<and>
     server_loop (\<lambda>_. demo_system True [1, 2, 3]) [(False, 0, w)] sv = Throw (Errno_error 111) \<and>
     (\<exists>err. server_main demo_server_host [] demo_args (\<lambda>_. demo_system True [1, 2, 3]) (demo_turns @ [(False, 0, w)]) =
       Ret (1, err))"
proof -
  let ?sys = "\<lambda>_. demo_system True [1, 2, 3]"
  let ?w = "Wait_events [Client_event 0 (demo_event True False) (Recv_errno 111) (1, 0)]"
  obtain sv c where sv: "serving demo_server_host demo_args ?sys demo_turns sv"
    "alone sv 0 c 512 [1, 2, 3] (c_oack_packet c) 1" "awaiting_ack 0 c" by (rule demo_run)
  have "session_fails (demo_event True False) (Recv_errno 111) c (Errno_error 111)"
    using sv(3) by (simp add: session_fails_def demo_event_def awaiting_ack_def wait_for_read_def)
  then have "event_fails ?sys (Client_event 0 (demo_event True False) (Recv_errno 111) (1, 0)) sv (Errno_error 111)"
    using sv(2) by (simp add: event_fails_def alone_def)
  then have "turn_fails ?sys ?w (elapse_all 0 sv) (Errno_error 111)"
    unfolding alone_0 [OF sv(2,3)] turn_fails_def wait_answer.case
    by (intro exI [of _ "[]"] exI [of _ sv]) (auto intro!: exI)
  then have "\<exists>ws1 s w ws2 sv1 out. [(False, 0, ?w)] = ws1 @ (False, s, w) # ws2 \<and>
      server_loop ?sys ws1 sv = Ret (sv1, out) \<and> \<not> sv_exit_requested sv1 \<and>
      turn_fails ?sys w (elapse_all s sv1) (Errno_error 111)"
    using sv(2) by (intro exI [of _ "[]"] exI [of _ 0] exI [of _ ?w] exI [of _ sv]) (simp add: alone_def)
  with server_failure_causes [OF sv(1), of "[(False, 0, ?w)]" "Errno_error 111" "[]"] sv(1)
  show ?thesis by (intro exI [of _ sv] exI [of _ ?w]) blast
qed



section \<open>The client\<close>

text \<open>
  C21: The client program stores every file delivered whole - no block boundary cuts a CR pair of its netascii
  form - unchanged, and ends with status 0 whether or not the server refused some of the files, or all, with
  an ERROR packet: the results of the transfers are not looked at.  A file that is cut makes it exit with 1,
  after the files before it.
\<close>

theorem client_downloads:
  assumes "a = parse_args opts" and "\<not> help_flag a" and "chosen_mode a = Some mode"
    and "list_all2 (\<lambda>x t. case x of
        Some content \<Rightarrow> \<not> write_flag a \<and> served a mode content t \<and> pairs_whole mode 512 (rf_convert mode content)
      | None \<Rightarrow> refused a t) xs ts"
  shows "client_main argv0 opts ts = Ret (0, []) \<and>
    (\<exists>rs. transfer_files a mode ts = Ret rs \<and>
       list_all2 (\<lambda>x r. case x of
           Some content \<Rightarrow> res_ok r \<and> map_option out_data (res_file r) = Some content
         | None \<Rightarrow> \<not> res_ok r \<and> res_file r = None) xs rs) \<and>
    (\<not> write_flag a \<longrightarrow> served a mode content t \<longrightarrow> \<not> pairs_whole mode 512 (rf_convert mode content) \<longrightarrow>
       client_main argv0 opts (ts @ t # us) = Ret (1, []))"
proof (intro conjI impI)
  show "\<exists>rs. transfer_files a mode ts = Ret rs \<and>
      list_all2 (\<lambda>x r. case x of
           Some content \<Rightarrow> res_ok r \<and> map_option out_data (res_file r) = Some content
         | None \<Rightarrow> \<not> res_ok r \<and> res_file r = None) xs rs"
    by (rule transfer_files_all2 [OF assms(4)])
      (use refused_transfer served_transfer(1) in \<open>fastforce simp: refused_def split: option.splits\<close>)
  then obtain rs where rs: "transfer_files a mode ts = Ret rs" by blast
  show "client_main argv0 opts ts = Ret (0, [])"
    using assms(1-3) rs by (simp add: client_main_def Let_def)
  assume cut: "\<not> write_flag a" "served a mode content t" "\<not> pairs_whole mode 512 (rf_convert mode content)"
  from transfer_files_throw [OF rs served_transfer(2) [OF cut(2,1,3)]]
  show "client_main argv0 opts (ts @ t # us) = Ret (1, [])"
    using assms(1-3) by (simp add: client_main_def Let_def)
qed

theorem client_downloads_witness:
  "client_main [] [Opt_h demo_host]
     [\<lparr>tr_file = [97], tr_system = demo_client_system [], tr_send = (1, 0),
       tr_inputs = delivered demo_client [block_datagram [1, 2, 3] 1]\<rparr>,
      \<lparr>tr_file = [98], tr_system = demo_client_system [], tr_send = (1, 0),
       tr_inputs = [((1, True), Datagram_from demo_client
         (serialise_error_packet (mk_error_packet ACCESS_ERROR ''Access denied'')))]\<rparr>] = Ret (0, [])"
proof -
  let ?t = "\<lparr>tr_file = [97], tr_system = demo_client_system [], tr_send = (1, 0),
       tr_inputs = delivered demo_client [block_datagram [1, 2, 3] 1]\<rparr>"
  let ?u = "\<lparr>tr_file = [98], tr_system = demo_client_system [], tr_send = (1, 0),
       tr_inputs = [((1, True), Datagram_from demo_client
         (serialise_error_packet (mk_error_packet ACCESS_ERROR ''Access denied'')))]\<rparr>"
  let ?a = "parse_args [Opt_h demo_host]"
  have a: "\<not> help_flag ?a" "chosen_mode ?a = Some OCTET" "\<not> write_flag ?a"
    "tftp_host ?a = demo_host" "local_interface ?a = []"
    by (simp_all add: parse_args_def initial_args_def chosen_mode_def del: dotted_quad.simps)
  have "served ?a OCTET [1, 2, 3] ?t"
    by (simp add: served_def a(4,5) rf_convert_def demo_client_ready del: dotted_quad.simps)
      (auto simp: demo_client_system_def)
  moreover have "refused ?a ?u"
    by (auto simp: refused_def a(4,5) demo_client_ready simp del: dotted_quad.simps)
  ultimately have "list_all2 (\<lambda>x t. case x of
        Some content \<Rightarrow> \<not> write_flag ?a \<and> served ?a OCTET content t \<and> pairs_whole OCTET 512 (rf_convert OCTET content)
      | None \<Rightarrow> refused ?a t) [Some [1, 2, 3], None] [?t, ?u]"
    using a(3) by (simp add: pairs_whole_def)
  from client_downloads [OF refl a(1,2) this] show ?thesis by simp
qed

end
