(* ===== verification/Client_Runs.thy ===== *)
theory Client_Runs
  imports Client Losses
begin

text \<open>
  \<open>get_file\<close> against any sender: what a reported success says of what was received, and what the
  retransmissions of this repository's server do to it.
\<close>

subsection \<open>Success implies a complete transfer\<close>

text \<open>The DATA packet in what a receive hands to the client, if it is one.\<close>

fun received_data :: "recvfrom_answer \<Rightarrow> data_packet_t option" where
  "received_data (Datagram_from sa d) = deserialise_data_packet (take DATA_PKT_MAX_SIZE d)"
| "received_data (Recvfrom_errno e) = None"

lemma no_data_in_nothing [simp]: "deserialise_data_packet [] = None"
  by (simp add: deserialise_data_packet_def)

lemma received_by_recv:
  "udp_recv DATA_PKT_MAX_SIZE (recv_part a) = Ret d \<Longrightarrow> received_data a = deserialise_data_packet d"
  by (cases a) (auto split: if_splits)

lemma received_by_recv_from:
  "udp_recv_from refs DATA_PKT_MAX_SIZE a = Ret (d, sender) \<Longrightarrow> received_data a = deserialise_data_packet d"
  by (cases a) (auto split: if_splits)

lemma received_length: "received_data a = Some p \<Longrightarrow> length (pkt_data p) \<le> 512"
  by (cases a) (auto simp: DATA_PKT_MAX_SIZE_def dest!: deserialise_data_Some)

text \<open>
  A complete sequence of packets: numbered from \<open>n\<close> on, modulo \<open>2 ^ 16\<close>, all of at least 512 bytes
  but the last.
\<close>

fun complete_from :: "u16 \<Rightarrow> data_packet_t list \<Rightarrow> bool" where
  "complete_from n [] = False"
| "complete_from n (p # ps) \<longleftrightarrow> data_block_number p = n \<and>
     (if ps = [] then length (pkt_data p) < 512 else 512 \<le> length (pkt_data p) \<and> complete_from (n + 1) ps)"

lemma get_file_loop_success:
  "get_file_loop mode n p inputs f = Ret (True, os, f') \<Longrightarrow> data_block_number p = n \<Longrightarrow>
   \<exists>ps xs. map (\<lambda>i. received_data (snd i)) (take (length ps) inputs) = map Some ps \<and>
     complete_from n (p # ps) \<and>
     list_all2 (\<lambda>q x. mode_decode mode (pkt_data q) = Ret x) (p # ps) xs \<and>
     f' = fold ofstream_write xs f \<and>
     os = map (\<lambda>q. serialise_ack_packet \<lparr>ack_block_number = data_block_number q\<rparr>) (p # ps)"
proof (induction mode n p inputs f arbitrary: os f' rule: get_file_loop.induct)
  case (1 mode n p inputs f)
  note run = 1(2) [unfolded get_file_loop.simps [of mode n p inputs f] client_mode_decode Let_def]
  then obtain x where x: "mode_decode mode (pkt_data p) = Ret x"
    by (auto simp: outcome_simps)
  let ?f = "ofstream_write x f"
  show ?case
  proof (cases "length (pkt_data p) < 512")
    case True
    with run x have "f' = ?f" "os = [serialise_ack_packet \<lparr>ack_block_number = n\<rparr>]"
      by (simp_all add: DATA_PKT_DATA_MAX_SIZE_def)
    with True x 1(3) show ?thesis
      by (intro exI [of _ "[]"] exI [of _ "[x]"]) simp
  next
    case False
    with run x have loop: "(case inputs of
          [] \<Rightarrow> Diverges
        | (poll, answer) # inputs \<Rightarrow>
            if fst poll = 0 \<or> \<not> snd poll then Ret (False, [serialise_ack_packet \<lparr>ack_block_number = n\<rparr>], ?f)
            else
              obind (udp_recv DATA_PKT_MAX_SIZE (recv_part answer)) (\<lambda>data.
                (case deserialise_data_packet data of
                   None \<Rightarrow> Ret (False, [serialise_ack_packet \<lparr>ack_block_number = n\<rparr>], ?f)
                 | Some q \<Rightarrow>
                     if data_block_number q \<noteq> n + 1
                     then Ret (False, [serialise_ack_packet \<lparr>ack_block_number = n\<rparr>], ?f)
                     else
                       obind (get_file_loop mode (n + 1) q inputs ?f)
                         (\<lambda>(r, os, f). Ret (r, serialise_ack_packet \<lparr>ack_block_number = n\<rparr> # os, f))))) =
        Ret (True, os, f')"
      by (simp add: DATA_PKT_DATA_MAX_SIZE_def cong: if_cong)
    then obtain poll a rest where inputs: "inputs = (poll, a) # rest" by (cases inputs) auto
    with loop have poll: "\<not> (fst poll = 0 \<or> \<not> snd poll)" by (auto split: if_splits)
    with loop obtain d where d: "udp_recv DATA_PKT_MAX_SIZE (recv_part a) = Ret d"
      by (auto simp: inputs outcome_simps)
    with loop poll obtain q where q: "deserialise_data_packet d = Some q"
      by (cases "deserialise_data_packet d") (auto simp: inputs)
    with loop poll d have num: "\<not> data_block_number q \<noteq> n + 1" by (auto simp: inputs split: if_splits)
    with loop poll d q obtain os' where rest: "get_file_loop mode (n + 1) q rest ?f = Ret (True, os', f')"
      "os = serialise_ack_packet \<lparr>ack_block_number = n\<rparr> # os'" by (auto simp: inputs outcome_simps)
    note step = inputs poll d q num rest
    have "data_block_number q = n + 1" using step(5) by simp
    have "\<exists>ps xs. map (\<lambda>i. received_data (snd i)) (take (length ps) rest) = map Some ps \<and>
      complete_from (n + 1) (q # ps) \<and>
      list_all2 (\<lambda>q x. mode_decode mode (pkt_data q) = Ret x) (q # ps) xs \<and>
      f' = fold ofstream_write xs ?f \<and>
      os' = map (\<lambda>q. serialise_ack_packet \<lparr>ack_block_number = data_block_number q\<rparr>) (q # ps)"
      by (rule 1(1) [OF refl refl _ refl _ step(1) refl step(2,3,4,5,6) \<open>data_block_number q = n + 1\<close>])
        (use x False in \<open>simp_all add: client_mode_decode DATA_PKT_DATA_MAX_SIZE_def\<close>)
    then obtain ps xs where ps: "map (\<lambda>i. received_data (snd i)) (take (length ps) rest) = map Some ps"
      "complete_from (n + 1) (q # ps)"
      "list_all2 (\<lambda>q x. mode_decode mode (pkt_data q) = Ret x) (q # ps) xs"
      "f' = fold ofstream_write xs ?f"
      "os' = map (\<lambda>q. serialise_ack_packet \<lparr>ack_block_number = data_block_number q\<rparr>) (q # ps)" by blast
    show ?thesis
      by (intro exI [of _ "q # ps"] exI [of _ "x # xs"])
        (use ps step(1,7) received_by_recv [OF step(3)] step(4) False 1(3) x in auto)
  qed
qed

lemma get_file_returns:
  assumes "get_file cl filename server mode local_interface sa inputs = Ret r" and "res_ok r"
  obtains poll a rest d sender p f os f' where "inputs = (poll, a) # rest"
    and "udp_recv_from ([], 0) DATA_PKT_MAX_SIZE a = Ret (d, sender)" and "deserialise_data_packet d = Some p"
    and "data_block_number p = 1" and "cl_ofstream cl (path_filename filename) = Some f"
    and "get_file_loop mode 1 p rest f = Ret (True, os, f')" and "res_file r = Some f'" and "res_sent r = os"
proof -
  from assms(1) obtain udp ret sent where run: "(case inputs of
        [] \<Rightarrow> Diverges
      | (poll, answer) # inputs \<Rightarrow>
          if fst poll \<le> 0 \<or> \<not> snd poll
          then Ret \<lparr>res_ok = False, res_request = sent, res_sent = [], res_file = None\<rparr>
          else
            obind (udp_recv_from ([], 0) DATA_PKT_MAX_SIZE answer) (\<lambda>(data, addr, server_tid).
              (case deserialise_data_packet data of
                 None \<Rightarrow> Ret \<lparr>res_ok = False, res_request = sent, res_sent = [], res_file = None\<rparr>
               | Some data_packet \<Rightarrow>
                   if data_block_number data_packet \<noteq> 1
                   then Ret \<lparr>res_ok = False, res_request = sent, res_sent = [], res_file = None\<rparr>
                   else
                     (case cl_ofstream cl (path_filename filename) of
                        None \<Rightarrow> Ret \<lparr>res_ok = False, res_request = sent, res_sent = [], res_file = None\<rparr>
                      | Some out_file \<Rightarrow>
                          obind (udp_connect server server_tid (cl_connect cl) udp) (\<lambda>udp.
                          obind (get_file_loop mode 1 data_packet inputs out_file) (\<lambda>(r, os, f).
                          Ret \<lparr>res_ok = r, res_request = sent, res_sent = os, res_file = Some f\<rparr>)))))) = Ret r"
    unfolding get_file_def Let_def outcome_simps by (auto simp only: prod.case)
  then obtain poll a rest where inputs: "inputs = (poll, a) # rest" by (cases inputs) auto
  from run assms(2) have poll: "\<not> (fst poll \<le> 0 \<or> \<not> snd poll)" by (auto simp: inputs split: if_splits)
  with run obtain d addr tid where d: "udp_recv_from ([], 0) DATA_PKT_MAX_SIZE a = Ret (d, addr, tid)"
    by (auto simp: inputs outcome_simps)
  with run poll assms(2) obtain p where p: "deserialise_data_packet d = Some p"
    by (cases "deserialise_data_packet d") (auto simp: inputs)
  with run poll d assms(2) have n: "data_block_number p = 1" by (auto simp: inputs split: if_splits)
  with run poll d p assms(2) obtain f where f: "cl_ofstream cl (path_filename filename) = Some f"
    by (cases "cl_ofstream cl (path_filename filename)") (auto simp: inputs)
  with run poll d p n assms(2) show thesis
    by (auto simp: inputs outcome_simps intro: that [OF inputs d p n f])
qed

lemma get_file_success:
  assumes "get_file cl filename server mode local_interface sa inputs = Ret r" and "res_ok r"
  shows "\<exists>ps xs f. map (\<lambda>i. received_data (snd i)) (take (length ps) inputs) = map Some ps \<and>
     complete_from 1 ps \<and> list_all2 (\<lambda>q x. mode_decode mode (pkt_data q) = Ret x) ps xs \<and>
     cl_ofstream cl (path_filename filename) = Some f \<and> res_file r = Some (fold ofstream_write xs f) \<and>
     res_sent r = map (\<lambda>q. serialise_ack_packet \<lparr>ack_block_number = data_block_number q\<rparr>) ps"
proof -
  from assms obtain poll a rest d sender p f os f' where step: "inputs = (poll, a) # rest"
    "udp_recv_from ([], 0) DATA_PKT_MAX_SIZE a = Ret (d, sender)" "deserialise_data_packet d = Some p"
    "data_block_number p = 1" "cl_ofstream cl (path_filename filename) = Some f"
    "get_file_loop mode 1 p rest f = Ret (True, os, f')" "res_file r = Some f'" "res_sent r = os"
    by (elim get_file_returns) auto
  from get_file_loop_success [OF step(6,4)] obtain ps xs where
    "map (\<lambda>i. received_data (snd i)) (take (length ps) rest) = map Some ps" "complete_from 1 (p # ps)"
    "list_all2 (\<lambda>q x. mode_decode mode (pkt_data q) = Ret x) (p # ps) xs" "f' = fold ofstream_write xs f"
    "os = map (\<lambda>q. serialise_ack_packet \<lparr>ack_block_number = data_block_number q\<rparr>) (p # ps)" by blast
  with step received_by_recv_from [OF step(2)] show ?thesis
    by (intro exI [of _ "p # ps"] exI [of _ xs] exI [of _ f]) simp
qed


text \<open>On a device with room the writes append; on a full one they do nothing, and nobody looks.\<close>

lemma fold_ofstream_write:
  "out_space f = None \<Longrightarrow> \<not> out_err f \<Longrightarrow> out_data (fold ofstream_write xs f) = out_data f @ concat xs"
  by (induction xs arbitrary: f) (simp_all add: ofstream_write_ok)

subsection \<open>Retransmissions\<close>

lemma get_file_loop_repeated:
  assumes "\<not> length (pkt_data p) < 512" and "take DATA_PKT_MAX_SIZE d = d"
    and "deserialise_data_packet d = Some q" and "data_block_number q \<noteq> n + 1"
    and "mode_decode mode (pkt_data p) = Ret x"
  shows "\<exists>os f'. get_file_loop mode n p (((1, True), Datagram_from sa d) # inputs) f = Ret (False, os, f')"
  using assms
  by (subst get_file_loop.simps) (simp add: Let_def DATA_PKT_DATA_MAX_SIZE_def client_mode_decode)

text \<open>Block \<open>k\<close> once more \<open>l\<close> times, and then the following blocks with their repetitions.\<close>

lemma get_file_loop_lossy:
  assumes "out_space f = None" "\<not> out_err f" and "1 \<le> k" and "k + length ls = length S div 512 + 1"
    and "\<And>i. k \<le> i \<Longrightarrow> i \<le> k + length ls \<Longrightarrow> returns (mode_decode mode (chunk 512 (i - 1) S))"
  shows "\<exists>r os f'. get_file_loop mode (of_nat k) (nth_data_packet 512 S k)
       (delivered sa (replicate l (block_datagram S k) @
          concat (map (\<lambda>(l, i). replicate (Suc l) (block_datagram S i)) (zip ls [Suc k..<length S div 512 + 2])))) f =
       Ret (r, os, f') \<and> (r \<longleftrightarrow> (\<forall>m \<in> set (butlast (l # ls)). m = 0))"
  using assms
proof (induction ls arbitrary: l k f)
  case Nil
  then have "length (chunk 512 (k - 1) S) < 512" by (subst chunk_short_iff) auto
  moreover obtain x where "mode_decode mode (chunk 512 (k - 1) S) = Ret x"
    using Nil(5) [of k] by (auto simp: returns_iff)
  ultimately show ?case
    using Nil(1,2) by (intro exI [of _ True]) (simp add: get_file_loop_last nth_data_packet_def)
next
  case (Cons l' ls)
  then have long: "\<not> length (chunk 512 (k - 1) S) < 512" by (subst chunk_short_iff) auto
  obtain x where x: "mode_decode mode (chunk 512 (k - 1) S) = Ret x"
    using Cons.prems(5) [of k] by (auto simp: returns_iff)
  have upt: "[Suc k..<length S div 512 + 2] = Suc k # [Suc (Suc k)..<length S div 512 + 2]"
    using Cons.prems(4) by (intro upt_conv_Cons) simp
  show ?case
  proof (cases l)
    case 0
    let ?f = "f\<lparr>out_data := out_data f @ x\<rparr>"
    from Cons.IH [of ?f "Suc k" l'] Cons.prems obtain r os f' where r:
      "get_file_loop mode (of_nat (Suc k)) (nth_data_packet 512 S (Suc k))
       (delivered sa (replicate l' (block_datagram S (Suc k)) @
          concat (map (\<lambda>(l, i). replicate (Suc l) (block_datagram S i)) (zip ls [Suc (Suc k)..<length S div 512 + 2])))) ?f =
       Ret (r, os, f')" "r \<longleftrightarrow> (\<forall>m \<in> set (butlast (l' # ls)). m = 0)" by auto
    have "\<exists>os'. get_file_loop mode (of_nat k) (nth_data_packet 512 S k)
       (((1, True), Datagram_from sa (block_datagram S (Suc k))) #
        delivered sa (replicate l' (block_datagram S (Suc k)) @
          concat (map (\<lambda>(l, i). replicate (Suc l) (block_datagram S i)) (zip ls [Suc (Suc k)..<length S div 512 + 2])))) f =
       Ret (r, os', f')"
      by (subst get_file_loop_next [where q = "nth_data_packet 512 S (Suc k)" and x = x])
        (use Cons.prems(1,2) long x r(1) in \<open>simp_all add: nth_data_packet_def add.commute
           DATA_PKT_MAX_SIZE_def length_chunk deserialise_serialise_data del: upt_Suc\<close>)
    with r(2) 0 show ?thesis unfolding upt by (auto simp del: upt_Suc)
  next
    case (Suc m)
    have "\<not> (\<forall>m \<in> set (butlast (l # l' # ls)). m = 0)" using Suc by simp
    moreover have "\<exists>os f'. get_file_loop mode (of_nat k) (nth_data_packet 512 S k)
       (delivered sa (replicate l (block_datagram S k) @
          concat (map (\<lambda>(l, i). replicate (Suc l) (block_datagram S i)) (zip (l' # ls) [Suc k..<length S div 512 + 2])))) f =
       Ret (False, os, f')"
      unfolding Suc replicate_Suc append_Cons list.map
      by (rule get_file_loop_repeated [OF _ take_block decode_block, where x = x])
        (use long x in \<open>simp_all add: nth_data_packet_def\<close>)
    ultimately show ?thesis using Suc by auto
  qed
qed

lemma get_file_lossy:
  assumes ready: "client_ready cl server local_interface"
    and out: "cl_ofstream cl (path_filename filename) = Some (open_outfile None)"
    and whole: "pairs_whole mode 512 (rf_convert mode content)"
    and len: "length losses = length (rf_convert mode content) div 512 + 1"
  defines "S \<equiv> rf_convert mode content"
  shows "\<exists>r. get_file cl filename server mode local_interface sa0
       (delivered sa (concat (map (\<lambda>(l, i). replicate (Suc l) (block_datagram S i))
         (zip losses [1..<length S div 512 + 2])))) = Ret r \<and>
     (res_ok r \<longleftrightarrow> (\<forall>l \<in> set (butlast losses). l = 0))"
proof -
  from len obtain l ls where losses: "losses = l # ls" by (cases losses) auto
  from whole_blocks_decode [OF whole] obtain x where
    "\<forall>j \<le> length S div 512. mode_decode mode (chunk 512 j S) = Ret (x j)" by (auto simp: S_def)
  then have dec: "returns (mode_decode mode (chunk 512 (i - 1) S))" if "1 \<le> i" "i \<le> 1 + length ls" for i
    using that len losses by (simp add: S_def)
  have empty: "out_space (open_outfile None) = None" "\<not> out_err (open_outfile None)"
    by (simp_all add: open_outfile_def)
  let ?rest = "replicate l (block_datagram S 1) @
      concat (map (\<lambda>(l, i). replicate (Suc l) (block_datagram S i)) (zip ls [Suc 1..<length S div 512 + 2]))"
  from get_file_loop_lossy [OF empty order_refl _ dec, where l = l and ls = ls and sa = sa] obtain r os f where r:
    "get_file_loop mode 1 (nth_data_packet 512 S 1) (delivered sa ?rest) (open_outfile None) = Ret (r, os, f)"
    "r \<longleftrightarrow> (\<forall>m \<in> set (butlast losses). m = 0)"
    using len by (auto simp: losses S_def simp del: upt_Suc)
  have "data_block_number (nth_data_packet 512 S 1) = 1" by (simp add: nth_data_packet_def)
  from get_file_first [OF ready out take_block decode_block this] obtain sent where
    "get_file cl filename server mode local_interface sa0 (delivered sa (block_datagram S 1 # ?rest)) =
     obind (get_file_loop mode 1 (nth_data_packet 512 S 1) (delivered sa ?rest) (open_outfile None))
       (\<lambda>(r, os, f). Ret \<lparr>res_ok = r, res_request = sent, res_sent = os, res_file = Some f\<rparr>)"
    unfolding list.map by blast
  moreover have "[1..<length S div 512 + 2] = 1 # [Suc 1..<length S div 512 + 2]"
    by (rule upt_conv_Cons) simp
  then have "concat (map (\<lambda>(l, i). replicate (Suc l) (block_datagram S i)) (zip losses [1..<length S div 512 + 2])) =
      block_datagram S 1 # ?rest" by (simp add: losses del: upt_Suc)
  ultimately show ?thesis using r by (simp del: upt_Suc)
qed

end
