(* ===== verification/End_To_End.thy ===== *)
theory End_To_End
  imports Program_Props Client_Runs
begin

text \<open>
  The server and the client of this repository against each other: the two programs in a download, a session
  and \<open>get_file\<close> or \<open>send_file\<close>, and \<open>get_file\<close> against any sender.
\<close>

section \<open>The two programs\<close>

text \<open>
  C6: The client program downloads a file from the server program.  Each is given what the other sends: the
  server receives the client's request on its listening socket and then its ACKs in the turns of the
  download, the client receives the datagrams the server sends.  The client exits with 0 and its
  local file is the server's, unless a block boundary cuts a CR pair.  The last ACK makes the behaviour of the server
  undefined.
\<close>

theorem programs_download:
  assumes "serving host args sys us sv" and "sv_client_connections sv = []"
    and "h_request_queue (sv_conn_handler sv) = []" and "0 < sv_max_clients sv"
    and "is_operation_allowed (sys (sv_next sv)) filename READ = Ret None"
    and "sys_fopen_r (sys (sv_next sv)) (c_str filename) = Inr (open_infile content)"
    and "new_connection (sys (sv_next sv)) (mk_rw_packet filename READ mode) sa = Ret c"
    and "0 < fst a" and "s < unat (c_timeout_s c)"
    and "\<not> help_flag (parse_args opts)" and "\<not> write_flag (parse_args opts)" and "chosen_mode (parse_args opts) = Some mode"
    and "nul_free filename" and "length filename \<le> 2000"
    and "client_ready cl (tftp_host (parse_args opts)) (local_interface (parse_args opts))"
    and "cl_ofstream cl (path_filename filename) = Some (open_outfile None)"
    and "0 < fst sent" and "pairs_whole mode 512 (rf_convert mode content)"
  defines "asked \<equiv> serialise_rw_packet (mk_rw_packet filename READ mode)"
    and "n \<equiv> length (rf_convert mode content) div 512"
  defines "turns \<equiv> (False, s, Wait_events [Request_event [Datagram_from sa asked]]) # download_turns s (sv_next sv) a 1 n"
    and "last_turn \<equiv> ack_turn s (sv_next sv) a (n + 1)"
  shows "\<exists>sv' out t r. server_loop sys turns sv = Ret (sv', out) \<and> (\<forall>x \<in> set out. fst x = sa) \<and>
    t = \<lparr>tr_file = filename, tr_system = cl, tr_send = sent, tr_inputs = delivered tid (map snd out)\<rparr> \<and>
    transfer_file (parse_args opts) mode t = Ret r \<and> res_ok r \<and> map_option out_data (res_file r) = Some content \<and>
    map snd (res_request r) = [asked] \<and> res_sent r = received_in (turns @ [last_turn]) \<and>
    client_main argv0 opts [t] = Ret (0, []) \<and>
    server_main host argv0 args sys (us @ turns @ last_turn # ws) = Undefined"
proof -
  let ?req = "mk_rw_packet filename READ mode" and ?S = "rf_convert mode content"
  have req: "rw_type ?req = READ" "rw_filename ?req = filename" "rw_mode ?req = mode" "rw_options ?req = []"
    by (simp_all add: mk_rw_packet_def)
  have "length asked \<le> REQUEST_MAX_SIZE"
    using assms(14) by (cases mode) (simp_all add: asked_def serialise_rw_packet_def mk_rw_packet_def
        bytes_of_def OCTET_MODE_STR_def NETASCII_MODE_STR_def)
  moreover have "deserialise_rw_packet asked = Some ?req"
    unfolding asked_def using assms(13) req by (intro deserialise_serialise_rw) (simp add: valid_rw_def)
  ultimately have parsed: "deserialise_rw_packet (take REQUEST_MAX_SIZE asked) = Some ?req" by simp
  have some: "asked \<noteq> []" by (simp add: asked_def serialise_rw_packet_def)
  note new = new_read_session(8) [OF assms(7), unfolded req, OF refl assms(5,6) refl]
  have conn: "block_len c = 512" "oack_options (c_oack_packet c) = []" using new by simp_all
  let ?out = "map (\<lambda>k. (sa, block_datagram ?S k)) [1..<n + 2]"
  let ?t = "\<lparr>tr_file = filename, tr_system = cl, tr_send = sent, tr_inputs = delivered tid (map snd ?out)\<rparr>"
  have server: "\<exists>sv'. server_loop sys turns sv = Ret (sv', ?out)"
    "server_main host argv0 args sys (us @ turns @ last_turn # ws) = Undefined"
    using lone_download [OF assms(1-4) some parsed, unfolded req, OF refl assms(5-7) _ assms(8,9)] conn
    by (simp_all add: turns_def last_turn_def n_def blocks_datagrams [unfolded One_nat_def] del: upt_Suc server_loop.simps)
  have transfer: "transfer_file (parse_args opts) mode ?t = get_file cl filename (tftp_host (parse_args opts)) mode
      (local_interface (parse_args opts)) sent (delivered tid (map (block_datagram ?S) [1..<n + 2]))"
    using assms(11) by (simp add: transfer_file_def o_def del: upt_Suc)
  obtain r f where
    r: "get_file cl filename (tftp_host (parse_args opts)) mode (local_interface (parse_args opts)) sent
      (delivered tid (map (block_datagram ?S) [1..<n + 2])) = Ret r" "res_ok r" "res_file r = Some f" "out_data f = content"
    "res_sent r = map (\<lambda>i. serialise_ack_packet \<lparr>ack_block_number = of_nat i\<rparr>) [1..<n + 2]"
    "map snd (res_request r) = [asked]"
    using get_file_blocks [OF assms(15,16,18), of sent tid, folded n_def asked_def]
    by (elim exE conjE) (rule that, assumption+, erule mp, rule assms(17))
  note run = r(1) [folded transfer]
  have "received_in (turns @ [last_turn]) = received_in (download_turns s (sv_next sv) a 1 n @ [ack_turn s (sv_next sv) a (1 + n)])"
    by (simp add: turns_def last_turn_def)
  then have acks: "res_sent r = received_in (turns @ [last_turn])"
    unfolding r(5) received_download by (simp add: add.commute)
  have "client_main argv0 opts [?t] = Ret (0, [])"
    using assms(10,12) run by (simp add: client_main_def Let_def)
  moreover have "\<forall>x \<in> set ?out. fst x = sa" by auto
  ultimately show ?thesis using server run r(2-4,6) acks by (metis option.map(2))
qed

theorem programs_download_witness:
  "\<exists>sv sv' out t r. serving demo_server_host demo_args (\<lambda>_. demo_system True [1, 2, 3]) [] sv \<and>
     server_loop (\<lambda>_. demo_system True [1, 2, 3]) ((False, 0, Wait_events [Request_event [Datagram_from demo_client
       (serialise_rw_packet (mk_rw_packet (bytes_of ''a'') READ OCTET))]]) # download_turns 0 0 (1, 0) 1 0) sv = Ret (sv', out) \<and>
     tr_inputs t = delivered demo_client (map snd out) \<and> client_main [] [Opt_h demo_host] [t] = Ret (0, []) \<and>
     transfer_file (parse_args [Opt_h demo_host]) OCTET t = Ret r \<and> map_option out_data (res_file r) = Some [1, 2, 3]"
proof -
  let ?sys = "\<lambda>_. demo_system True [1, 2, 3]" and ?a = "parse_args [Opt_h demo_host]"
  from demo_begun obtain sv where sv: "serving demo_server_host demo_args ?sys [] sv"
    "sv_client_connections sv = []" "h_request_queue (sv_conn_handler sv) = []" "0 < sv_max_clients sv"
    "sv_next sv = 0" by blast
  have req: "mk_rw_packet (bytes_of ''a'') READ OCTET = demo_request READ OCTET []"
    by (simp add: mk_rw_packet_def demo_request_def)
  have name: "rw_filename (demo_request READ OCTET []) = bytes_of ''a''" by (simp add: demo_request_def)
  obtain c where c: "new_connection (?sys (sv_next sv)) (mk_rw_packet (bytes_of ''a'') READ OCTET) demo_client = Ret c"
    using demo_new(1) req by metis
  have allowed: "is_operation_allowed (?sys (sv_next sv)) (bytes_of ''a'') READ = Ret None"
    using demo_allowed(1) [of "[1, 2, 3]" OCTET "[]"] name by simp
  have "0 < unat (c_timeout_s c)"
    using new_read_session(6) [OF c [unfolded req] demo_simps(1) demo_allowed(1) demo_simps(4)]
    by (simp add: timeout_ok_def word_le_nat_alt)
  moreover have a: "\<not> help_flag ?a" "\<not> write_flag ?a" "chosen_mode ?a = Some OCTET"
    "tftp_host ?a = demo_host" "local_interface ?a = []"
    by (simp_all add: parse_args_def initial_args_def chosen_mode_def del: dotted_quad.simps)
  moreover have "client_ready (demo_client_system []) (tftp_host ?a) (local_interface ?a)"
    unfolding a(4,5) by (rule demo_client_ready)
  moreover have "cl_ofstream (demo_client_system []) (path_filename (bytes_of ''a'')) = Some (open_outfile None)"
    by (simp add: demo_client_system_def)
  moreover have "nul_free (bytes_of ''a'')" "length (bytes_of ''a'') \<le> 2000"
    by (simp_all add: nul_free_def bytes_of_def)
  moreover have "pairs_whole OCTET 512 (rf_convert OCTET [1, 2, 3])" by (simp add: pairs_whole_def)
  ultimately obtain sv' out t r where r: "server_loop ?sys ((False, 0, Wait_events [Request_event [Datagram_from demo_client
       (serialise_rw_packet (mk_rw_packet (bytes_of ''a'') READ OCTET))]]) # download_turns 0 (sv_next sv) (1, 0) 1
         (length (rf_convert OCTET [1, 2, 3 :: byte]) div 512)) sv = Ret (sv', out)"
     "t = \<lparr>tr_file = bytes_of ''a'', tr_system = demo_client_system [], tr_send = (1, 0), tr_inputs = delivered demo_client (map snd out)\<rparr>"
     "transfer_file ?a OCTET t = Ret r" "map_option out_data (res_file r) = Some [1, 2, 3]" "client_main [] [Opt_h demo_host] [t] = Ret (0, [])"
    using programs_download [OF sv(1-4) allowed demo_simps(4) c, where a = "(1, 0)" and s = 0 and
        sent = "(1, 0)" and tid = demo_client and opts = "[Opt_h demo_host]" and cl = "demo_client_system []"
        and ?argv0.0 = "[]"]
    by (metis fst_conv zero_less_one)
  have "length (rf_convert OCTET [1, 2, 3 :: byte]) div 512 = 0" by (simp add: rf_convert_def)
  with r sv(1,5) show ?thesis by (metis transfer.select_convs(4))
qed

section \<open>A session and the client\<close>

text \<open>
  C7: A download between the server and the client of this repository, in either mode: the request the
  client sends is the one the server parses, and if the client is handed what the server's session
  sends in answer to its own ACKs, it reports success with an identical file, and its ACKs are
  those the session was given - unless the mode is netascii and a block boundary cuts a CR pair of the
  converted file, when \<open>get_file\<close> throws.
\<close>

theorem download_end_to_end:
  assumes "nul_free filename" and "req = mk_rw_packet filename READ mode"
    and "new_connection sys req cl = Ret c"
    and "is_operation_allowed sys filename READ = Ret None"
    and "sys_fopen_r sys (c_str filename) = Inr (open_infile content)"
    and "client_ready host server interface"
    and "cl_ofstream host (path_filename filename) = Some (open_outfile None)"
    and "0 < fst a"
  shows "deserialise_rw_packet (serialise_rw_packet req) = Some req \<and>
    (\<exists>os c'. lockstep (length (rf_convert mode content) div 512 + 1) a c = Ret (os, c') \<and> c_finished c' \<and>
       (if pairs_whole mode 512 (rf_convert mode content)
        then \<exists>r f. get_file host filename server mode interface sa (delivered tid os) = Ret r \<and>
          res_ok r \<and> res_file r = Some f \<and> out_data f = content \<and> res_sent r = map client_ack os
        else get_file host filename server mode interface sa (delivered tid os) =
          Throw (Runtime_error ''Invalid character sequence : EOL after CR'')))"
proof -
  let ?S = "rf_convert mode content"
  have req: "rw_type req = READ" "rw_filename req = filename" "rw_mode req = mode" "rw_options req = []"
    using assms(2) by (simp_all add: mk_rw_packet_def)
  have parsed: "deserialise_rw_packet (serialise_rw_packet req) = Some req"
    using assms(1) req by (intro deserialise_serialise_rw) (simp add: valid_rw_def)
  have allowed: "is_operation_allowed sys (rw_filename req) READ = Ret None"
    and fopen: "sys_fopen_r sys (c_str (rw_filename req)) = Inr (open_infile content)"
    using assms(4,5) req(2) by simp_all
  have n: "block_len c = 512" "oack_options (c_oack_packet c) = []"
    using new_read_session(8) [OF assms(3) req(1) allowed fopen] req(4) by simp_all
  let ?os = "map (block_datagram ?S) [1..<length ?S div 512 + 2]"
  from download_lockstep [OF assms(3) req(1) allowed fopen _ assms(8)] n req(3)
  obtain c' where c': "lockstep (length ?S div 512 + 1) a c = Ret (?os, c')" "c_finished c'"
    by (auto simp del: upt_Suc lockstep.simps)
  show ?thesis
  proof (cases "pairs_whole mode 512 ?S")
    case True
    from get_file_blocks [OF assms(6,7) True, of sa tid] obtain r f where r:
      "get_file host filename server mode interface sa (delivered tid ?os) = Ret r"
      "res_ok r" "res_file r = Some f" "out_data f = content"
      "res_sent r = map (\<lambda>i. serialise_ack_packet \<lparr>ack_block_number = of_nat i\<rparr>) [1..<length ?S div 512 + 2]"
      by blast
    have "res_sent r = map client_ack ?os"
      unfolding r(5) by (simp add: nth_data_packet_def del: upt_Suc)
    with parsed c' r(1-4) True show ?thesis by auto
  next
    case False
    from get_file_cut [OF assms(6,7) False, of sa tid] parsed c' False show ?thesis by auto
  qed
qed

theorem download_end_to_end_witness:
  "\<exists>c os c' r f. new_connection (demo_system True [1, 2, 3]) (mk_rw_packet (bytes_of ''a'') READ OCTET)
       demo_client = Ret c \<and> lockstep 1 (1, 0) c = Ret (os, c') \<and>
     get_file (demo_client_system []) (bytes_of ''a'') demo_host OCTET [] (1, 0)
       (delivered demo_client os) = Ret r \<and> res_file r = Some f \<and> out_data f = [1, 2, 3]"
proof -
  let ?req = "mk_rw_packet (bytes_of ''a'') READ OCTET"
  have req: "?req = demo_request READ OCTET []" by (simp add: mk_rw_packet_def demo_request_def)
  have name: "rw_filename (demo_request READ OCTET []) = bytes_of ''a''" by (simp add: demo_request_def)
  obtain c where c: "new_connection (demo_system True [1, 2, 3]) ?req demo_client = Ret c"
    using demo_new(1) req by metis
  have "nul_free (bytes_of ''a'')" by (simp add: nul_free_def bytes_of_def)
  moreover have "is_operation_allowed (demo_system True [1, 2, 3]) (bytes_of ''a'') READ = Ret None"
    using demo_allowed(1) [of "[1, 2, 3]" OCTET "[]"] name by simp
  moreover have "cl_ofstream (demo_client_system []) (path_filename (bytes_of ''a'')) = Some (open_outfile None)"
    by (simp add: demo_client_system_def)
  moreover have "pairs_whole OCTET 512 (rf_convert OCTET [1, 2, 3])" by (simp add: pairs_whole_def)
  ultimately show ?thesis
    using download_end_to_end [OF _ refl c _ demo_simps(4) demo_client_ready,
        where a = "(1, 0)" and sa = "(1, 0)" and tid = demo_client] c
    by (fastforce simp: rf_convert_def)
qed

text \<open>
  C8: An upload between the server and the client of this repository never succeeds, in either mode.  After
  the server's ACK 0 the client refuses a file shorter than a block and sends nothing.  A longer
  one it cuts into blocks and converts each; the server takes the first 508 bytes of block 1 for the whole upload.
  If they end in the CR of a pair of a netascii upload, handling the block throws.  Otherwise the server stores what
  they decode to, acknowledges them and finishes; the client sends block 2, whatever number that ACK
  has, and waits for the next.  It returns only if \<open>poll\<close> times out, and then false.
\<close>

theorem upload_end_to_end:
  assumes "nul_free filename" and "req = mk_rw_packet filename WRITE mode"
    and "new_connection sys req cl = Ret c"
    and "is_operation_allowed sys filename WRITE = Ret None"
    and "sys_fopen_w sys (c_str filename) = Inr (open_outfile None)"
    and "client_ready host server interface"
    and "cl_ifstream host filename = Some (open_infile content)"
    and "0 < fst a"
  shows "deserialise_rw_packet (serialise_rw_packet req) = Some req \<and>
    (\<exists>c1. handle_write a c = Ret (c1, [serialise_ack_packet \<lparr>ack_block_number = 0\<rparr>]) \<and>
      wf_contents (c_file_writer c1) = [] \<and>
      (if length content < 512
       then \<exists>r. send_file host filename server mode interface sa [acked tid 0] = Ret r \<and>
         \<not> res_ok r \<and> res_sent r = []
       else if mode = NETASCII \<and> last (take 508 (file_block mode (take 512 content))) = CR
       then handle_read (Datagram (file_datagram mode content 1)) c1 =
           Throw (Runtime_error ''Invalid character sequence : EOL after CR'') \<and>
         (\<exists>r. send_file host filename server mode interface sa [acked tid 0, ((0, b), x)] = Ret r \<and>
            \<not> res_ok r \<and> res_sent r = [file_datagram mode content 1])
       else \<exists>c2 c3. handle_read (Datagram (file_datagram mode content 1)) c1 = Ret c2 \<and>
         handle_write a c2 = Ret (c3, [serialise_ack_packet \<lparr>ack_block_number = 1\<rparr>]) \<and> c_finished c3 \<and>
         mode_decode mode (take 508 (file_block mode (take 512 content))) = Ret (wf_contents (c_file_writer c3)) \<and>
         prefix (wf_contents (c_file_writer c3)) content \<and>
         send_file host filename server mode interface sa [acked tid 0, acked tid n] = Diverges \<and>
         (\<exists>r. send_file host filename server mode interface sa [acked tid 0, acked tid n, ((0, b), x)] = Ret r \<and>
            \<not> res_ok r \<and> res_sent r = [file_datagram mode content 1, file_datagram mode content 2])))"
proof -
  have req: "rw_type req = WRITE" "rw_filename req = filename" "rw_mode req = mode" "rw_options req = []"
    using assms(2) by (simp_all add: mk_rw_packet_def)
  have parsed: "deserialise_rw_packet (serialise_rw_packet req) = Some req"
    using assms(1) req by (intro deserialise_serialise_rw) (simp add: valid_rw_def)
  have allowed: "is_operation_allowed sys (rw_filename req) WRITE = Ret None"
    and fopen: "sys_fopen_w sys (c_str (rw_filename req)) = Inr (open_outfile None)"
    using assms(4,5) req(2) by simp_all
  note upload = upload_exchange [OF assms(3) req(1) allowed fopen req(4) assms(8)]
  from upload_opens [OF assms(3) req(1) allowed fopen req(4) assms(8)] obtain c1 where
    c1: "handle_write a c = Ret (c1, [serialise_ack_packet \<lparr>ack_block_number = 0\<rparr>])"
      "c_state c1 = WAIT_FOR_DATA" "tm_expirations (c_timer c1) = 0" "c_block_number c1 = 1" "block_len c1 = 512"
      "wf_contents (c_file_writer c1) = []" "wf_mode (c_file_writer c1) = mode" unfolding req(3) by blast
  define d where "d = file_block mode (take 512 content)"
  have block: "file_datagram mode content 1 = serialise_data_packet \<lparr>pkt_data = d, data_block_number = 1\<rparr>"
    by (simp add: d_def chunk_def)
  consider (short) "length content < 512"
    | (cut) "512 \<le> length content" "mode = NETASCII" "last (take 508 d) = CR"
    | (stored) "512 \<le> length content" "\<not> (mode = NETASCII \<and> last (take 508 d) = CR)" by linarith
  then show ?thesis
  proof cases
    case short
    with parsed c1(1,6) short_file_refused [OF assms(6,7), of mode sa tid "[]"] show ?thesis by auto
  next
    case cut
    have "length d \<ge> 512" using cut(1) file_block_length [of "take 512 content" mode] by (simp add: d_def)
    then have "take 508 d \<noteq> []" by auto
    with cut file_block_cut [of 508 "take 512 content"]
    have "handle_read (Datagram (file_datagram mode content 1)) c1 =
        Throw (Runtime_error ''Invalid character sequence : EOL after CR'')"
      using malformed_data_throws [of c1 d] c1(2-5,7) by (simp add: block d_def)
    with parsed c1(1,6) cut long_file_upload(1) [OF assms(6,7), of mode sa tid b x] show ?thesis
      by (auto simp: d_def)
  next
    case stored
    from file_block_prefix [of mode 508 "take 512 content"] stored(2) obtain y where
      y: "mode_decode mode (take 508 d) = Ret y" "prefix y (take 512 content)" by (auto simp: d_def)
    from upload [of d y] y(1) req(3) obtain c2 c3 where
      "handle_read (Datagram (file_datagram mode content 1)) c1 = Ret c2"
      "handle_write a c2 = Ret (c3, [serialise_ack_packet \<lparr>ack_block_number = 1\<rparr>])"
      "c_finished c3" "wf_contents (c_file_writer c3) = y" unfolding block using c1(1) by auto
    moreover have "prefix y content" using y(2) take_is_prefix prefix_order.trans by blast
    ultimately show ?thesis
      using parsed c1(1,6) stored y(1) long_file_upload(2) [OF assms(6,7), of mode sa tid n]
        long_file_upload(3) [OF assms(6,7), of mode sa tid n b x]
      by (auto simp: d_def not_less)
  qed
qed

theorem upload_end_to_end_witness:
  "\<exists>c c1 r. new_connection (demo_system False []) (mk_rw_packet (bytes_of ''a'') WRITE OCTET) demo_client = Ret c \<and>
     handle_write (1, 0) c = Ret (c1, [serialise_ack_packet \<lparr>ack_block_number = 0\<rparr>]) \<and>
     send_file (demo_client_system [1, 2, 3]) (bytes_of ''a'') demo_host OCTET [] (1, 0) [acked demo_client 0] = Ret r \<and>
     \<not> res_ok r"
proof -
  let ?req = "mk_rw_packet (bytes_of ''a'') WRITE OCTET"
  have req: "?req = demo_request WRITE OCTET []" by (simp add: mk_rw_packet_def demo_request_def)
  have name: "rw_filename (demo_request WRITE OCTET []) = bytes_of ''a''" by (simp add: demo_request_def)
  obtain c where c: "new_connection (demo_system False []) ?req demo_client = Ret c"
    using demo_new(2) req by metis
  have "nul_free (bytes_of ''a'')" by (simp add: nul_free_def bytes_of_def)
  moreover have "is_operation_allowed (demo_system False []) (bytes_of ''a'') WRITE = Ret None"
    using demo_allowed(2) [of "[]" OCTET "[]"] name by simp
  moreover have "cl_ifstream (demo_client_system [1, 2, 3]) (bytes_of ''a'') = Some (open_infile [1, 2, 3])"
    by (simp add: demo_client_system_def)
  ultimately show ?thesis
    using upload_end_to_end [OF _ refl c _ demo_simps(5) demo_client_ready,
        where a = "(1, 0)" and sa = "(1, 0)" and tid = demo_client and content = "[1, 2, 3]"] c
    by fastforce
qed



text \<open>
  C9: When \<open>get_file\<close> reports success, whoever sent the datagrams, it has received DATA packets numbered from 1
  on without a gap (modulo \<open>2 ^ 16\<close>), all full but the last, has acknowledged each, and has written the
  decoded payloads in this order.  Whether they reached the file it does not look at: they have if the device had
  room, and on a full device success is reported all the same.
\<close>

theorem client_success_complete:
  assumes "get_file host filename server mode interface sa inputs = Ret r" and "res_ok r"
  shows "\<exists>ps xs f. map (\<lambda>i. received_data (snd i)) (take (length ps) inputs) = map Some ps \<and>
    complete_from 1 ps \<and> list_all2 (\<lambda>p x. mode_decode mode (pkt_data p) = Ret x) ps xs \<and>
    res_sent r = map (\<lambda>p. serialise_ack_packet \<lparr>ack_block_number = data_block_number p\<rparr>) ps \<and>
    cl_ofstream host (path_filename filename) = Some f \<and> res_file r = Some (fold ofstream_write xs f) \<and>
    (out_space f = None \<and> \<not> out_err f \<longrightarrow> out_data (fold ofstream_write xs f) = out_data f @ concat xs)"
  using get_file_success [OF assms] fold_ofstream_write by metis

theorem client_success_complete_witness:
  "\<exists>r f. get_file (demo_client_system []\<lparr>cl_ofstream := \<lambda>_. Some (open_outfile (Some 0))\<rparr>) (bytes_of ''a'')
       demo_host OCTET [] (1, 0) (delivered demo_client [block_datagram [1, 2, 3] 1]) = Ret r \<and>
     res_ok r \<and> res_file r = Some f \<and> out_data f = []"
proof -
  let ?host = "demo_client_system []\<lparr>cl_ofstream := \<lambda>_. Some (open_outfile (Some 0))\<rparr>"
  let ?p = "nth_data_packet 512 [1, 2, 3] 1"
  have ready: "client_ready ?host demo_host []"
    using demo_client_ready [of "[]"] by (simp add: client_ready_def del: dotted_quad.simps)
  have "data_block_number ?p = 1" by (simp add: nth_data_packet_def)
  from get_file_first [OF ready _ take_block decode_block this, of "bytes_of ''a''" "open_outfile (Some 0)"
      OCTET "(1, 0)" demo_client "[]"]
  obtain r where r: "get_file ?host (bytes_of ''a'') demo_host OCTET [] (1, 0)
      (delivered demo_client [block_datagram [1, 2, 3] 1]) = Ret r" "res_ok r"
    by (auto simp: get_file_loop.simps [of _ _ _ "[]"] nth_data_packet_def DATA_PKT_DATA_MAX_SIZE_def Let_def
        simp del: dotted_quad.simps)
  from client_success_complete [OF r] obtain ps xs where ps:
    "map (\<lambda>i. received_data (snd i)) (take (length ps) (delivered demo_client [block_datagram [1, 2, 3] 1])) = map Some ps"
    "complete_from 1 ps" "list_all2 (\<lambda>p x. mode_decode OCTET (pkt_data p) = Ret x) ps xs"
    "res_file r = Some (fold ofstream_write xs (open_outfile (Some 0)))" by auto
  from ps(1,2) have "length ps = 1" by (cases ps; cases "tl ps") auto
  with ps(3) obtain x where "xs = [x]" by (cases xs) (auto dest: list_all2_lengthD)
  then have "out_data (fold ofstream_write xs (open_outfile (Some 0))) = []"
    by (simp add: ofstream_write_def open_outfile_def fwrite_def)
  with r ps(4) show ?thesis by blast
qed

end
