(* ===== verification/Interleaving.thy ===== *)
theory Interleaving
  imports Replies Server_Main
begin

text \<open>
  The loop as an interleaving of sessions: what becomes of a connection, and what it sends, is a function
  of the time that passes and of its own events alone.
\<close>

subsection \<open>A connection by itself\<close>

fun events_of :: "nat \<Rightarrow> server_event list \<Rightarrow> (event_flags \<times> recv_answer \<times> send_answer) list" where
  "events_of i [] = []"
| "events_of i (Request_event answers # es) = events_of i es"
| "events_of i (Client_event j events ra sa # es) =
     (if j = i then (events, ra, sa) # events_of i es else events_of i es)"

fun serve_events ::
  "(event_flags \<times> recv_answer \<times> send_answer) list \<Rightarrow> conn \<Rightarrow> (conn \<times> bytes list) outcome" where
  "serve_events [] c = Ret (c, [])"
| "serve_events ((events, ra, sa) # es) c =
     obind (service_connection events ra sa c) (\<lambda>(c, os).
     obind (serve_events es c) (\<lambda>(c, os'). Ret (c, os @ os')))"

fun serve_alone ::
  "nat \<Rightarrow> (bool \<times> nat \<times> wait_answer) list \<Rightarrow> conn \<Rightarrow> (conn \<times> bytes list) outcome" where
  "serve_alone i [] c = Ret (c, [])"
| "serve_alone i ((stop, s, w) # ws) c =
     obind (serve_events (case w of Wait_errno e \<Rightarrow> [] | Wait_events es \<Rightarrow> events_of i es)
       (c\<lparr>c_timer := elapse s (c_timer c)\<rparr>)) (\<lambda>(c, os).
     obind (serve_alone i ws c) (\<lambda>(c, os'). Ret (c, os @ os')))"

lemma service_connection_client:
  assumes "service_connection events ra sa c = Ret (c', os)"
  shows "c_client c' = c_client c"
  using assms
proof (cases rule: service_connection_cases)
  case read
  with same_replies_read show ?thesis by (simp add: same_replies_def)
next
  case send
  with handle_write_replies show ?thesis by (auto simp: same_replies_def)
qed (simp_all add: c_set_finished_def)

subsection \<open>Batches\<close>

lemma events_project:
  "server_inv sv \<Longrightarrow> service_events sys es sv = Ret (sv', out) \<Longrightarrow>
   map_of (sv_client_connections sv) i = Some c \<Longrightarrow>
   \<exists>c' os. serve_events (events_of i es) c = Ret (c', os) \<and>
     map_of (sv_client_connections sv') i = Some c' \<and> c_client c' = c_client c \<and>
     subseq (map (Pair (c_client c)) os) out"
proof (induction es arbitrary: sv c out)
  case (Cons e es)
  from Cons.prems(2) obtain sv1 o1 o2 where step: "service_event sys e sv = Ret (sv1, o1)"
    "service_events sys es sv1 = Ret (sv', o2)" "out = o1 @ o2" by (auto simp: outcome_simps)
  note inv1 = server_inv_event [OF Cons.prems(1) step(1)]
  have other: ?case if "map_of (sv_client_connections sv1) i = Some c" "events_of i (e # es) = events_of i es"
    using Cons.IH [OF inv1 step(2) that(1)] that(2) step(3) by (auto intro: list_emb_append2)
  show ?case
  proof (cases e)
    case (Request_event answers)
    with step(1) obtain h rest where h: "accept_requests sys (sv\<lparr>sv_conn_handler := h\<rparr>) = Ret sv1"
      by (auto simp: service_event_def outcome_simps)
    have "map_of (sv_client_connections sv1) i = Some c"
      by (rule accepts_keep [OF _ h]) (use Cons.prems(1,3) in simp_all)
    then show ?thesis by (rule other) (simp add: Request_event)
  next
    case (Client_event j events ra sa)
    show ?thesis
    proof (cases "j = i")
      case False
      with service_isolated(1) [OF Cons.prems(1) step(1) [unfolded Client_event], of i] Cons.prems(3)
      show ?thesis by (intro other) (simp_all add: Client_event)
    next
      case True
      from service_client_cases [OF Cons.prems(1) step(1) [unfolded Client_event]]
      obtain c0 c1 os where c0: "map_of (sv_client_connections sv) j = Some c0"
        "service_connection events ra sa c0 = Ret (c1, os)"
        "sv1 = sv\<lparr>sv_client_connections := AList.update j c1 (sv_client_connections sv),
             sv_epoll := registrations (AList.update j c1 (sv_client_connections sv))\<rparr>"
        "o1 = map (Pair (c_client c0)) os" by metis
      have "c0 = c" using c0(1) Cons.prems(3) True by simp
      with c0 True have c1: "service_connection events ra sa c = Ret (c1, os)"
        "map_of (sv_client_connections sv1) i = Some c1" "o1 = map (Pair (c_client c)) os"
        by (simp_all add: update_conv')
      have same: "c_client c1 = c_client c" using service_connection_client [OF c1(1)] .
      from Cons.IH [OF inv1 step(2) c1(2)] obtain c' os' where c':
        "serve_events (events_of i es) c1 = Ret (c', os')"
        "map_of (sv_client_connections sv') i = Some c'" "c_client c' = c_client c1"
        "subseq (map (Pair (c_client c1)) os') o2" by blast
      with c1(1) True Client_event same step(3) c1(3) show ?thesis
        by (auto intro: list_emb_append_mono)
    qed
  qed
qed simp

subsection \<open>Identities are not used again\<close>

definition gone :: "nat \<Rightarrow> server \<Rightarrow> bool" where
  "gone i sv \<longleftrightarrow> i < sv_next sv \<and> i \<notin> set (map fst (sv_client_connections sv))"

lemma gone_handler [simp]: "gone i (sv\<lparr>sv_conn_handler := h\<rparr>) = gone i sv"
  by (simp add: gone_def)

lemma gone_accepts:
  "server_inv sv \<Longrightarrow> accept_requests sys sv = Ret sv' \<Longrightarrow> gone i sv \<Longrightarrow> gone i sv'"
proof (induction sys sv rule: accept_requests.induct)
  case (1 sys sv)
  show ?case
  proof (cases "requests_pending (sv_conn_handler sv) \<and>
      length (sv_client_connections sv) < sv_max_clients sv")
    case True
    with 1(3) obtain r h sv1 where step: "get_request (sv_conn_handler sv) = Ret (r, h)"
      "accept_request sys r (sv\<lparr>sv_conn_handler := h\<rparr>) = Ret sv1"
      "accept_requests sys sv1 = Ret sv'"
      by (subst (asm) accept_requests.simps) (auto simp: outcome_simps)
    have inv: "server_inv (sv\<lparr>sv_conn_handler := h\<rparr>)" using 1(2) by simp
    have "server_inv sv1" by (rule server_inv_accept [OF inv _ step(2)]) (use True in simp)
    moreover have "gone i sv1"
      using step(2) 1(4) by (auto simp: accept_request_eq [OF inv] outcome_simps gone_def)
    ultimately show ?thesis using 1(1) True step by (metis fst_conv snd_conv)
  next
    case False
    with 1(2,3,4) show ?thesis by (subst (asm) accept_requests.simps) simp
  qed
qed

lemma gone_event:
  assumes "server_inv sv" and "service_event sys e sv = Ret (sv', out)" and "gone i sv"
  shows "gone i sv'"
proof (cases e)
  case (Request_event answers)
  with assms(2) obtain h where "accept_requests sys (sv\<lparr>sv_conn_handler := h\<rparr>) = Ret sv'"
    by (auto simp: service_event_def outcome_simps)
  with gone_accepts [of "sv\<lparr>sv_conn_handler := h\<rparr>"] assms(1,3) show ?thesis by simp
next
  case (Client_event j events ra sa)
  from assms(2) have "sv_next sv' = sv_next sv"
    unfolding Client_event by (rule service_client_cases [OF assms(1)]) simp
  with service_isolated(3) [OF assms(1) assms(2) [unfolded Client_event]] assms(3) show ?thesis
    by (simp add: gone_def)
qed

lemma gone_events:
  "server_inv sv \<Longrightarrow> service_events sys es sv = Ret (sv', out) \<Longrightarrow> gone i sv \<Longrightarrow> gone i sv'"
proof (induction es arbitrary: sv out)
  case (Cons e es)
  from Cons.prems(2) obtain sv1 o1 o2 where "service_event sys e sv = Ret (sv1, o1)"
    "service_events sys es sv1 = Ret (sv', o2)" by (auto simp: outcome_simps)
  with Cons.IH server_inv_event [OF Cons.prems(1)] gone_event [OF Cons.prems(1)] Cons.prems(3)
  show ?case by blast
qed simp

lemma gone_elapse: "gone i (elapse_all s sv) \<longleftrightarrow> gone i sv"
  by (simp add: gone_def elapse_all_def case_prod_beta' image_image)

lemma gone_cleaned:
  assumes "server_inv sv" and "clean_server sv = Ret sv'"
  shows "gone i sv \<Longrightarrow> gone i sv'"
    and "map_of (sv_client_connections sv') i = Some c \<Longrightarrow> map_of (sv_client_connections sv) i = Some c"
    and "map_of (sv_client_connections sv) i = Some c \<Longrightarrow>
      map_of (sv_client_connections sv') i = Some c \<or> gone i sv'"
proof -
  from assms(2) obtain conns where conns: "clean_pass (sv_client_connections sv) = Some conns"
    and sv': "sv' = sv\<lparr>sv_client_connections := conns, sv_epoll := registrations conns\<rparr>"
    by (auto simp: server_inv_clean [OF assms(1)] split: option.splits)
  from clean_pass_keeps [OF conns] have sub: "set conns \<subseteq> set (sv_client_connections sv)"
    by (auto dest: list_emb_set)
  note dist = server_invD(2) [OF assms(1)] server_invD(2) [OF server_inv_cleaned [OF assms]]
  show "gone i sv \<Longrightarrow> gone i sv'"
    using sub by (auto simp: gone_def sv')
  show kept: "map_of (sv_client_connections sv') j = Some d \<Longrightarrow> map_of (sv_client_connections sv) j = Some d"
    for j d using dist sub by (auto simp: sv')
  assume c: "map_of (sv_client_connections sv) i = Some c"
  then have "i \<in> fst ` set (sv_client_connections sv)" by (force dest: map_of_SomeD)
  then have "i < sv_next sv" by (rule server_invD(3) [OF assms(1)])
  moreover have "map_of (sv_client_connections sv') i = Some c" if "i \<in> fst ` set conns"
    using that kept c by (fastforce simp: sv' map_of_eq_None_iff dest!: weak_map_of_SomeI)
  ultimately show "map_of (sv_client_connections sv') i = Some c \<or> gone i sv'"
    by (auto simp: gone_def sv')
qed

subsection \<open>The loop\<close>

lemma map_of_elapse:
  "map_of (sv_client_connections (elapse_all s sv)) i =
     map_option (\<lambda>c. c\<lparr>c_timer := elapse s (c_timer c)\<rparr>) (map_of (sv_client_connections sv) i)"
  by (simp add: elapse_all_def map_of_map)

text \<open>What a turn of the loop that goes on does.\<close>

lemma loop_turn:
  assumes "server_loop sys ((False, s, w) # ws) sv = Ret (sv', out)" and "\<not> sv_exit_requested sv"
  obtains sv1 sv2 o1 o2 where
    "service_events sys (case w of Wait_errno e \<Rightarrow> [] | Wait_events es \<Rightarrow> es) (elapse_all s sv) = Ret (sv1, o1)"
    and "sv2 = sv1 \<or> clean_server sv1 = Ret sv2"
    and "server_loop sys ws sv2 = Ret (sv', o2)" and "out = o1 @ o2"
proof (cases w)
  case (Wait_errno e)
  with assms that [of "elapse_all s sv" "[]" "elapse_all s sv" out] show thesis
    by (auto simp: Let_def split: if_splits)
next
  case (Wait_events es)
  with assms that show thesis by (force simp: Let_def outcome_simps)
qed

lemma turn_inv:
  assumes "server_inv sv" and "service_events sys es (elapse_all s sv) = Ret (sv1, o1)"
    and "sv2 = sv1 \<or> clean_server sv1 = Ret sv2"
  shows "server_inv sv1" and "server_inv sv2" and "sv_exit_requested sv2 = sv_exit_requested sv"
proof -
  show "server_inv sv1" by (rule server_inv_events [OF server_inv_elapse [OF assms(1)] assms(2)])
  then show "server_inv sv2" using assms(3) server_inv_cleaned by blast
  show "sv_exit_requested sv2 = sv_exit_requested sv"
    using assms(3) service_events_exit [OF assms(2)] clean_server_exit [of sv1 sv2]
    by (auto simp: elapse_all_def)
qed

lemma loop_stopped:
  "server_loop sys ((True, s, w) # ws) sv = Ret (sv', out) \<Longrightarrow> sv' = server_stop sv \<and> out = []"
  by (simp add: server_stop_def)

lemma gone_loop:
  "server_inv sv \<Longrightarrow> \<not> sv_exit_requested sv \<Longrightarrow> server_loop sys ws sv = Ret (sv', out) \<Longrightarrow> gone i sv \<Longrightarrow>
   gone i sv'"
proof (induction ws arbitrary: sv out)
  case (Cons turn ws)
  obtain stop s w where turn: "turn = (stop, s, w)" by (cases turn) auto
  show ?case
  proof (cases stop)
    case True
    with Cons.prems(3,4) turn loop_stopped show ?thesis by (fastforce simp: gone_def server_stop_def)
  next
    case False
    with Cons.prems(3) turn have "server_loop sys ((False, s, w) # ws) sv = Ret (sv', out)" by simp
    then obtain sv1 sv2 o1 o2 where step:
      "service_events sys (case w of Wait_errno e \<Rightarrow> [] | Wait_events es \<Rightarrow> es) (elapse_all s sv) = Ret (sv1, o1)"
      "sv2 = sv1 \<or> clean_server sv1 = Ret sv2" "server_loop sys ws sv2 = Ret (sv', o2)"
      by (rule loop_turn [OF _ Cons.prems(2)])
    note inv = turn_inv [OF Cons.prems(1) step(1,2)]
    have "gone i sv1"
      by (rule gone_events [OF server_inv_elapse [OF Cons.prems(1)] step(1)])
        (use Cons.prems(4) in \<open>simp add: gone_elapse\<close>)
    then have "gone i sv2" using step(2) gone_cleaned(1) [OF inv(1)] by blast
    with Cons.IH inv(2,3) Cons.prems(2) step(3) show ?thesis by blast
  qed
qed simp

text \<open>
  A connection that is there before and after the loop went through, in between, exactly what
  \<open>serve_alone\<close> makes of its own events, and its own datagrams were sent in that order.
\<close>

lemma loop_projects:
  "server_inv sv \<Longrightarrow> \<not> sv_exit_requested sv \<Longrightarrow> server_loop sys ws sv = Ret (sv', out) \<Longrightarrow>
   map_of (sv_client_connections sv) i = Some c \<Longrightarrow> map_of (sv_client_connections sv') i = Some c' \<Longrightarrow>
   \<exists>os. serve_alone i (takeWhile (\<lambda>turn. \<not> fst turn) ws) c = Ret (c', os) \<and>
     subseq (map (Pair (c_client c)) os) out"
proof (induction ws arbitrary: sv c out)
  case (Cons turn ws)
  obtain stop s w where turn: "turn = (stop, s, w)" by (cases turn) auto
  let ?es = "case w of Wait_errno e \<Rightarrow> [] | Wait_events es \<Rightarrow> es"
  show ?case
  proof (cases stop)
    case True
    with Cons.prems(3,4,5) turn show ?thesis by (fastforce simp: server_stop_def dest!: loop_stopped)
  next
    case False
    with Cons.prems(3) turn have "server_loop sys ((False, s, w) # ws) sv = Ret (sv', out)" by simp
    then obtain sv1 sv2 o1 o2 where step: "service_events sys ?es (elapse_all s sv) = Ret (sv1, o1)"
      "sv2 = sv1 \<or> clean_server sv1 = Ret sv2" "server_loop sys ws sv2 = Ret (sv', o2)" "out = o1 @ o2"
      by (rule loop_turn [OF _ Cons.prems(2)])
    note inv = turn_inv [OF Cons.prems(1) step(1,2)]
    let ?c = "c\<lparr>c_timer := elapse s (c_timer c)\<rparr>"
    have "map_of (sv_client_connections (elapse_all s sv)) i = Some ?c"
      by (simp add: map_of_elapse Cons.prems(4))
    from events_project [OF server_inv_elapse [OF Cons.prems(1)] step(1) this]
    obtain c1 os where c1: "serve_events (events_of i ?es) ?c = Ret (c1, os)"
      "map_of (sv_client_connections sv1) i = Some c1" "c_client c1 = c_client c"
      "subseq (map (Pair (c_client c)) os) o1" by auto
    have run: "\<not> sv_exit_requested sv2" using inv(3) Cons.prems(2) by simp
    have "\<not> gone i sv2"
      using gone_loop [OF inv(2) run step(3)] Cons.prems(5)
      by (force simp: gone_def dest: map_of_SomeD)
    then have "map_of (sv_client_connections sv2) i = Some c1"
      using step(2) c1(2) gone_cleaned(3) [OF inv(1) _ c1(2)] by blast
    from Cons.IH [OF inv(2) run step(3) this Cons.prems(5)] obtain os' where
      "serve_alone i (takeWhile (\<lambda>turn. \<not> fst turn) ws) c1 = Ret (c', os')"
      "subseq (map (Pair (c_client c1)) os') o2" by blast
    moreover have "(case w of Wait_errno e \<Rightarrow> [] | Wait_events es \<Rightarrow> events_of i es) = events_of i ?es"
      by (simp split: wait_answer.splits)
    ultimately show ?thesis
      using turn False c1 step(4) by (auto intro: list_emb_append_mono)
  qed
qed simp

end
