(* ===== verification/Shared_Download.thy ===== *)
theory Shared_Download
  imports Interleaving Program_Download
begin

text \<open>
  A download in a server that serves others as well: the client's own events, with the time that passes,
  decide what its session sends and how far it gets.  The client may miss datagrams: up to three timeouts
  may pass before each ACK.
\<close>

subsection \<open>What a client sees and does\<close>

type_synonym own_event = "event_flags \<times> recv_answer \<times> send_answer"

definition own_events :: "nat \<Rightarrow> wait_answer \<Rightarrow> own_event list" where
  "own_events i w = (case w of Wait_errno e \<Rightarrow> [] | Wait_events es \<Rightarrow> events_of i es)"

text \<open>The time that passes, in seconds, and the events of connection \<open>i\<close>, over some turns of the loop.\<close>

fun own_trace :: "nat \<Rightarrow> (bool \<times> nat \<times> wait_answer) list \<Rightarrow> (nat + own_event) list" where
  "own_trace i [] = []"
| "own_trace i ((stop, s, w) # ws) = Inl s # map Inr (own_events i w) @ own_trace i ws"

text \<open>
  Where a download stands: at block \<open>k\<close> (0: the OACK) with \<open>r\<close> timeouts counted, about to send,
  waiting with \<open>t\<close> seconds left, or timed out.
\<close>

datatype standing = Sending | Waiting nat | Expired

fun pass_time :: "nat \<Rightarrow> nat \<Rightarrow> standing \<Rightarrow> standing" where
  "pass_time k s (Waiting t) = (if k = 0 then Waiting t else if s < t then Waiting (t - s) else Expired)"
| "pass_time k s w = w"

text \<open>
  The client does its part, in a trace of its own events: the datagrams can be sent, the ACK of each arrives
  while the session waits for it, or the timeout is reported, three times at most for a block.  The
  result is where the download stands then, with the blocks sent on the way; \<open>T\<close> is the timeout
  and \<open>n\<close> the last block.
\<close>

fun follows ::
  "nat \<Rightarrow> nat \<Rightarrow> nat \<times> nat \<times> standing \<Rightarrow> (nat + own_event) list \<Rightarrow> ((nat \<times> nat \<times> standing) \<times> nat list) option" where
  "follows T n p [] = Some (p, [])"
| "follows T n (k, r, w) (Inl s # tr) = follows T n (k, r, pass_time k s w) tr"
| "follows T n (k, r, w) (Inr (events, ra, sa) # tr) =
     (if n < k then None
      else
        (case w of
           Sending \<Rightarrow>
             if \<not> ev_in events \<and> ev_out events \<and> 0 < fst sa
             then map_option (\<lambda>(p, ks). (p, k # ks)) (follows T n (k, r, Waiting T) tr) else None
         | Waiting t \<Rightarrow>
             if ev_in events \<and> ra = Datagram (serialise_ack_packet \<lparr>ack_block_number = of_nat k\<rparr>)
             then follows T n (k + 1, 0, Sending) tr else None
         | Expired \<Rightarrow>
             if ev_in events \<and> r < 3 then follows T n (k, r + 1, Sending) tr else None))"

text \<open>The blocks are sent in order, each of them again after a timeout only.\<close>

definition to_send :: "nat \<times> nat \<times> standing \<Rightarrow> nat" where
  "to_send p = (case p of (k, r, w) \<Rightarrow> if r = 0 \<and> w = Sending then k else k + 1)"

lemma remdups_adj_upt: "remdups_adj [m..<n] = [m..<n]"
  by (simp add: remdups_adj_distinct)

lemma follows_in_order:
  "follows T n (k, r, w) tr = Some (p, ks) \<Longrightarrow>
   k \<le> fst p \<and>
   remdups_adj ((if r = 0 \<and> w = Sending then [] else [k]) @ ks) = [k..<to_send p]"
proof (induction T n "(k, r, w)" tr arbitrary: k r w ks rule: follows.induct)
  case (1 T n)
  then show ?case by (auto simp: to_send_def)
next
  case (2 T n k r w s tr)
  have "(pass_time k s w = Sending) = (w = Sending)" by (cases w) auto
  with 2 show ?case by simp
next
  case (3 T n k r w events ra sa tr)
  show ?case
  proof (cases w)
    case Sending
    with 3(4) obtain ks' where ks: "ks = k # ks'" "follows T n (k, r, Waiting T) tr = Some (p, ks')"
      by (auto split: if_splits)
    have "remdups_adj ([k] @ ks') = [k..<to_send p] \<and> k \<le> fst p"
      using 3(1) [OF _ Sending _ ks(2)] 3(4) Sending by (auto split: if_splits)
    then show ?thesis using ks(1) Sending by simp
  next
    case (Waiting t)
    with 3(4) have ks: "follows T n (k + 1, 0, Sending) tr = Some (p, ks)" by (auto split: if_splits)
    have "remdups_adj ks = [k + 1..<to_send p] \<and> k + 1 \<le> fst p"
      using 3(2) [OF _ Waiting _ ks] 3(4) Waiting by (auto split: if_splits)
    moreover from this have "k < to_send p" by (cases p) (auto simp: to_send_def)
    moreover from calculation have "hd (remdups_adj ks) \<noteq> k" if "ks \<noteq> []"
      using that by (cases "to_send p = k + 1") (auto simp: upt_conv_Cons)
    ultimately show ?thesis using Waiting
      by (cases ks) (auto simp: upt_conv_Cons remdups_adj_Cons split: list.splits)
  next
    case Expired
    with 3(4) have ks: "follows T n (k, r + 1, Sending) tr = Some (p, ks)" by (auto split: if_splits)
    show ?thesis using 3(3) [OF _ Expired _ ks] 3(4) Expired by (auto split: if_splits)
  qed
qed

subsection \<open>The connection\<close>

definition datagram_of :: "nat \<Rightarrow> bytes \<Rightarrow> oack_packet_t \<Rightarrow> nat \<Rightarrow> bytes" where
  "datagram_of b S oack k =
     (if k = 0 then serialise_oack_packet oack else serialise_data_packet (nth_data_packet b S k))"

text \<open>The connection of a download of \<open>n\<close> blocks that stands at \<open>p\<close>; past the last it is finished.\<close>

definition stands_at ::
  "nat \<Rightarrow> bytes \<Rightarrow> oack_packet_t \<Rightarrow> nat \<Rightarrow> nat \<Rightarrow> nat \<times> nat \<times> standing \<Rightarrow> conn \<Rightarrow> bool" where
  "stands_at b S oack T n p c \<longleftrightarrow>
     (case p of (k, r, w) \<Rightarrow>
        if n < k then c_finished c
        else read_inv_at b S oack k c \<and> \<not> c_finished c \<and> unat (c_timeout_s c) = T \<and>
          c_timeout_count c = of_nat r \<and>
          (case w of
             Sending \<Rightarrow> c_state c = (if k = 0 then SEND_OACK else SEND_DATA)
           | Waiting t \<Rightarrow> c_state c = WAIT_FOR_ACK \<and>
               (0 < k \<longrightarrow> tm_expirations (c_timer c) = 0 \<and> tm_left (c_timer c) = Some t)
           | Expired \<Rightarrow> 0 < k \<and> c_state c = WAIT_FOR_ACK \<and> 0 < tm_expirations (c_timer c)))"

lemma stands_at_elapse:
  assumes "stands_at b S oack T n (k, r, w) c"
  shows "stands_at b S oack T n (k, r, pass_time k s w) (c\<lparr>c_timer := elapse s (c_timer c)\<rparr>)"
proof (cases "n < k")
  case True
  with assms show ?thesis by (simp add: stands_at_def)
next
  case False
  with assms have inv: "read_inv_at b S oack k c" by (simp add: stands_at_def)
  have "read_inv_at b S oack k (c\<lparr>c_timer := elapse s (c_timer c)\<rparr>)"
    using inv by (cases "k = 0") (auto simp: read_inv_defs elapse_def)
  with assms False show ?thesis
    by (cases w) (auto simp: stands_at_def elapse_def split: option.splits)
qed

text \<open>One event of a client that follows.\<close>

lemma follows_event:
  assumes at: "stands_at b S oack T n p c" and tr: "follows T n p (Inr (events, ra, sa) # tr) = Some (p', ks)"
    and T: "0 < T" and b: "0 < b" and n: "n = length S div b + 1"
  shows "\<exists>c' os p1 ks1 ks2. service_connection events ra sa c = Ret (c', os) \<and>
    os = map (datagram_of b S oack) ks1 \<and> stands_at b S oack T n p1 c' \<and>
    follows T n p1 tr = Some (p', ks2) \<and> ks = ks1 @ ks2"
proof -
  obtain k r w where p: "p = (k, r, w)" by (cases p)
  from tr p have k: "\<not> n < k" by (auto split: if_splits)
  with at p have c: "read_inv_at b S oack k c" "\<not> c_finished c" "unat (c_timeout_s c) = T"
    "c_timeout_count c = of_nat r" by (simp_all add: stands_at_def)
  have serve: "service_connection events ra sa c = Ret (c', [])" if "handle_read ra c = Ret c'" "ev_in events" for c'
    using that by (simp add: service_connection_def)
  show ?thesis
  proof (cases w)
    case Sending
    with tr p k obtain ks' where ks: "ks = k # ks'" "follows T n (k, r, Waiting T) tr = Some (p', ks')"
      and ev: "\<not> ev_in events" "ev_out events" "0 < fst sa" by (auto split: if_splits)
    have "\<exists>c'. handle_write sa c = Ret (c', [datagram_of b S oack k]) \<and> stands_at b S oack T n (k, r, Waiting T) c'"
    proof (cases "k = 0")
      case True
      with at p k Sending have st: "read_inv_at b S oack 0 c" "c_state c = SEND_OACK" by (simp_all add: stands_at_def)
      from oack_send [OF st ev(3)] c True show ?thesis by (auto simp: datagram_of_def stands_at_def)
    next
      case False
      with at p k Sending have st: "c_state c = SEND_DATA" by (simp add: stands_at_def)
      from read_send [OF c(1) st ev(3)] False c k T show ?thesis
        by (auto simp: datagram_of_def stands_at_def arm_timer_def)
    qed
    then obtain c' where c': "service_connection events ra sa c = Ret (c', map (datagram_of b S oack) [k])"
      "stands_at b S oack T n (k, r, Waiting T) c'" using ev by (auto simp: service_connection_def)
    show ?thesis
      by (rule exI [of _ c'], rule exI [of _ "map (datagram_of b S oack) [k]"], rule exI [of _ "(k, r, Waiting T)"],
          rule exI [of _ "[k]"], rule exI [of _ ks']) (use c' ks in simp)
  next
    case (Waiting t)
    with tr p k have ks: "follows T n (k + 1, 0, Sending) tr = Some (p', ks)"
      and ev: "ev_in events" "ra = Datagram (serialise_ack_packet \<lparr>ack_block_number = of_nat k\<rparr>)"
      by (auto split: if_splits)
    have "\<exists>c'. handle_read ra c = Ret c' \<and> stands_at b S oack T n (k + 1, 0, Sending) c'"
    proof (cases "k = 0")
      case True
      with at p k Waiting have st: "read_inv_at b S oack 0 c" "c_state c = WAIT_FOR_ACK" by (simp_all add: stands_at_def)
      from oack_acked [OF st c(2)] c(3) True n ev(2) show ?thesis by (auto simp: stands_at_def)
    next
      case False
      with at p k Waiting have st: "c_state c = WAIT_FOR_ACK" "tm_expirations (c_timer c) = 0"
        by (simp_all add: stands_at_def)
      have ready: "c_pkt_ready c" using c(1) st(1) False by (auto simp: read_inv_at_def)
      have ack: "ra = Datagram (client_ack (serialise_data_packet (nth_data_packet b S k)))"
        by (simp add: ev(2) nth_data_packet_def)
      have short: "length (chunk b (k - 1) S) < b \<longleftrightarrow> n < k + 1"
        using b k False by (subst chunk_short_iff) (auto simp: n)
      from read_acked [OF c(1) st(1) ready st(2) c(2)] False c(3) short show ?thesis
        unfolding ack by (auto simp: stands_at_def)
    qed
    with serve ev(1) obtain c' where c': "service_connection events ra sa c = Ret (c', [])"
      "stands_at b S oack T n (k + 1, 0, Sending) c'" by blast
    show ?thesis
      by (rule exI [of _ c'], rule exI [of _ "[]"], rule exI [of _ "(k + 1, 0, Sending)"],
          rule exI [of _ "[]"], rule exI [of _ ks]) (use c' ks in simp)
  next
    case Expired
    with tr p k have ks: "follows T n (k, r + 1, Sending) tr = Some (p', ks)"
      and ev: "ev_in events" "r < 3" by (auto split: if_splits)
    from at p k Expired have st: "0 < k" "c_state c = WAIT_FOR_ACK" "0 < tm_expirations (c_timer c)"
      by (simp_all add: stands_at_def)
    have "r = 0 \<or> r = 1 \<or> r = 2" using ev(2) by auto
    then have count: "\<not> MAX_TIMEOUTS \<le> c_timeout_count c"
      using c(4) by (auto simp: MAX_TIMEOUTS_def word_le_nat_alt)
    have r: "handle_read ra c = Ret (handle_timeout (timer_read c))" using st(3) by (simp add: handle_read_eq)
    have t: "handle_timeout (timer_read c) =
        timer_read c\<lparr>c_timeout_count := c_timeout_count c + 1, c_state := SEND_DATA\<rparr>"
      using st(2) count by (simp add: handle_timeout_def retransmit_def)
    have "read_inv_at b S oack k (handle_timeout (timer_read c))"
      by (rule read_inv_at_timeout [OF read_inv_at_timer_read [OF c(1)] st(1)])
    then have "stands_at b S oack T n (k, r + 1, Sending) (handle_timeout (timer_read c))"
      using c k st(1) unfolding t by (simp add: stands_at_def add.commute)
    with serve [OF r ev(1)] show ?thesis
      by (intro exI [of _ "handle_timeout (timer_read c)"] exI [of _ "[]"] exI [of _ "(k, r + 1, Sending)"]
          exI [of _ ks]) (use ks in simp)
  qed
qed

lemma follows_events:
  assumes "stands_at b S oack T n p c" and "follows T n p (map Inr es @ tr) = Some (p', ks)"
    and "0 < T" and "0 < b" and "n = length S div b + 1"
  shows "\<exists>c' ks1 p1 ks2. serve_events es c = Ret (c', map (datagram_of b S oack) ks1) \<and>
    stands_at b S oack T n p1 c' \<and> follows T n p1 tr = Some (p', ks2) \<and> ks = ks1 @ ks2"
  using assms(1,2)
proof (induction es arbitrary: p c ks)
  case Nil
  then show ?case by (intro exI [of _ c] exI [of _ "[]"] exI [of _ p] exI [of _ ks]) simp
next
  case (Cons e es)
  obtain events ra sa where e: "e = (events, ra, sa)" by (cases e)
  from Cons.prems(2) e have "follows T n p (Inr (events, ra, sa) # (map Inr es @ tr)) = Some (p', ks)" by simp
  from follows_event [OF Cons.prems(1) this assms(3-5)] obtain c1 p1 ks1 ks2 where c1:
    "service_connection events ra sa c = Ret (c1, map (datagram_of b S oack) ks1)"
    "stands_at b S oack T n p1 c1" "follows T n p1 (map Inr es @ tr) = Some (p', ks2)" "ks = ks1 @ ks2" by blast
  from Cons.IH [OF c1(2,3)] obtain c' ks1' p2 ks2' where
    "serve_events es c1 = Ret (c', map (datagram_of b S oack) ks1')" "stands_at b S oack T n p2 c'"
    "follows T n p2 tr = Some (p', ks2')" "ks2 = ks1' @ ks2'" by blast
  with c1 e show ?case
    by (intro exI [of _ c'] exI [of _ "ks1 @ ks1'"] exI [of _ p2] exI [of _ ks2']) simp
qed

subsection \<open>The loop\<close>

lemma unfinished_cleaned:
  assumes inv: "server_inv sv" and clean: "clean_server sv = Ret sv'"
    and c: "map_of (sv_client_connections sv) i = Some c" "\<not> c_finished c"
  shows "map_of (sv_client_connections sv') i = Some c"
proof -
  from clean obtain conns where conns: "clean_pass (sv_client_connections sv) = Some conns"
    and sv': "sv_client_connections sv' = conns"
    by (auto simp: server_inv_clean [OF inv] split: option.splits)
  have "(i, c) \<in> set (filter (\<lambda>x. \<not> c_is_finished (snd x)) (sv_client_connections sv))"
    using c by (auto simp: c_is_finished_def dest: map_of_SomeD)
  then have "(i, c) \<in> set (filter (\<lambda>x. \<not> c_is_finished (snd x)) conns)"
    using clean_pass_keeps [OF conns] by simp
  then have "\<not> gone i sv'" by (force simp: gone_def sv')
  with gone_cleaned(3) [OF inv clean c(1)] show ?thesis by blast
qed

text \<open>The connection is there, at \<open>p\<close>, or the download is over and the connection removed.\<close>

definition in_service ::
  "nat \<Rightarrow> sockaddr_in \<Rightarrow> nat \<Rightarrow> bytes \<Rightarrow> oack_packet_t \<Rightarrow> nat \<Rightarrow> nat \<Rightarrow> server \<Rightarrow> nat \<times> nat \<times> standing \<Rightarrow> bool" where
  "in_service i a b S oack T n sv p \<longleftrightarrow>
     (\<exists>c. map_of (sv_client_connections sv) i = Some c \<and> c_client c = a \<and> stands_at b S oack T n p c) \<or>
     (n < fst p \<and> gone i sv)"

lemma follows_past_end:
  "follows T n (k, r, w) (map Inr es @ tr) = Some (p, ks) \<Longrightarrow> n < k \<Longrightarrow> es = []"
  by (cases es) auto

lemma turn_serves:
  assumes inv: "server_inv sv" and at: "in_service i a b S oack T n sv p"
    and tr: "follows T n p (own_trace i ((False, s, w) # ws)) = Some (p', ks)"
    and step: "service_events sys (case w of Wait_errno e \<Rightarrow> [] | Wait_events es \<Rightarrow> es) (elapse_all s sv) = Ret (sv1, o1)"
      "sv2 = sv1 \<or> clean_server sv1 = Ret sv2"
    and T: "0 < T" and b: "0 < b" and n: "n = length S div b + 1"
  shows "\<exists>p1 ks1 ks2. in_service i a b S oack T n sv2 p1 \<and> follows T n p1 (own_trace i ws) = Some (p', ks2) \<and>
    ks = ks1 @ ks2 \<and> subseq (map (\<lambda>k. (a, datagram_of b S oack k)) ks1) o1"
proof -
  let ?es = "case w of Wait_errno e \<Rightarrow> [] | Wait_events es \<Rightarrow> es"
  obtain k r w' where p: "p = (k, r, w')" by (cases p)
  from tr p have tr': "follows T n (k, r, pass_time k s w') (map Inr (own_events i w) @ own_trace i ws) = Some (p', ks)"
    by simp
  note inv' = server_inv_elapse [OF inv, of s] turn_inv(1) [OF inv step]
  have own: "own_events i w = events_of i ?es" by (simp add: own_events_def split: wait_answer.splits)
  from at [unfolded in_service_def] show ?thesis
  proof (elim disjE exE conjE)
    fix c
    assume c: "map_of (sv_client_connections sv) i = Some c" "c_client c = a" "stands_at b S oack T n p c"
    let ?c = "c\<lparr>c_timer := elapse s (c_timer c)\<rparr>"
    have "map_of (sv_client_connections (elapse_all s sv)) i = Some ?c" by (simp add: map_of_elapse c(1))
    from events_project [OF inv'(1) step(1) this] c(2) obtain c1 os where c1:
      "serve_events (events_of i ?es) ?c = Ret (c1, os)" "map_of (sv_client_connections sv1) i = Some c1"
      "c_client c1 = a" "subseq (map (Pair a) os) o1" by auto
    from c(3) p have "stands_at b S oack T n (k, r, pass_time k s w') ?c" by (simp add: stands_at_elapse)
    from follows_events [OF this tr' T b n] c1(1) own obtain ks1 p1 ks2 where f:
      "os = map (datagram_of b S oack) ks1" "stands_at b S oack T n p1 c1"
      "follows T n p1 (own_trace i ws) = Some (p', ks2)" "ks = ks1 @ ks2" by auto
    have "in_service i a b S oack T n sv2 p1"
    proof (cases "n < fst p1")
      case True
      then have "map_of (sv_client_connections sv2) i = Some c1 \<or> gone i sv2"
        using step(2) c1(2) gone_cleaned(3) [OF inv'(2) _ c1(2)] by blast
      with True c1(3) f(2) show ?thesis by (auto simp: in_service_def)
    next
      case False
      with f(2) have "\<not> c_finished c1" by (simp add: stands_at_def case_prod_beta')
      with step(2) c1(2) have "map_of (sv_client_connections sv2) i = Some c1"
        using unfinished_cleaned [OF inv'(2)] by blast
      with c1(3) f(2) show ?thesis by (auto simp: in_service_def)
    qed
    moreover have "subseq (map (\<lambda>k. (a, datagram_of b S oack k)) ks1) o1"
      using c1(4) f(1) by (simp add: comp_def)
    ultimately show ?thesis using f(3,4) by blast
  next
    assume over: "n < fst p" "gone i sv"
    with follows_past_end [OF tr'] p have "own_events i w = []" by simp
    with tr' have tr'': "follows T n (k, r, pass_time k s w') (own_trace i ws) = Some (p', ks)" by simp
    have "gone i sv1" by (rule gone_events [OF inv'(1) step(1)]) (use over(2) in \<open>simp add: gone_elapse\<close>)
    then have "gone i sv2" using step(2) gone_cleaned(1) [OF inv'(2)] by blast
    with over(1) p tr'' show ?thesis
      by (intro exI [of _ "(k, r, pass_time k s w')"] exI [of _ "[]"] exI [of _ ks]) (simp add: in_service_def)
  qed
qed

lemma loop_follows:
  assumes T: "0 < T" and b: "0 < b" and n: "n = length S div b + 1"
  shows "server_inv sv \<Longrightarrow> \<not> sv_exit_requested sv \<Longrightarrow> in_service i a b S oack T n sv p \<Longrightarrow>
    \<forall>turn \<in> set ws. \<not> fst turn \<Longrightarrow> server_loop sys ws sv = Ret (sv', out) \<Longrightarrow>
    follows T n p (own_trace i ws) = Some (p', ks) \<Longrightarrow>
    in_service i a b S oack T n sv' p' \<and> subseq (map (\<lambda>k. (a, datagram_of b S oack k)) ks) out"
proof (induction ws arbitrary: sv p ks out)
  case (Cons turn ws)
  obtain s w where turn: "turn = (False, s, w)" using Cons.prems(4) by (cases turn) auto
  with Cons.prems(5) have "server_loop sys ((False, s, w) # ws) sv = Ret (sv', out)" by simp
  then obtain sv1 sv2 o1 o2 where step:
    "service_events sys (case w of Wait_errno e \<Rightarrow> [] | Wait_events es \<Rightarrow> es) (elapse_all s sv) = Ret (sv1, o1)"
    "sv2 = sv1 \<or> clean_server sv1 = Ret sv2" "server_loop sys ws sv2 = Ret (sv', o2)" "out = o1 @ o2"
    by (rule loop_turn [OF _ Cons.prems(2)])
  note inv = turn_inv [OF Cons.prems(1) step(1,2)]
  from turn_serves [OF Cons.prems(1,3) Cons.prems(6) [unfolded turn] step(1,2) T b n] obtain p1 ks1 ks2 where p1:
    "in_service i a b S oack T n sv2 p1" "follows T n p1 (own_trace i ws) = Some (p', ks2)"
    "ks = ks1 @ ks2" "subseq (map (\<lambda>k. (a, datagram_of b S oack k)) ks1) o1" by blast
  have "in_service i a b S oack T n sv' p' \<and> subseq (map (\<lambda>k. (a, datagram_of b S oack k)) ks2) o2"
    by (rule Cons.IH [OF inv(2) _ p1(1) _ step(3) p1(2)]) (use inv(3) Cons.prems(2,4) in auto)
  with p1(3,4) step(4) show ?case by (auto intro: list_emb_append_mono)
qed simp

text \<open>From a session the constructor just made.\<close>

lemma new_stands_at:
  assumes "new_connection sys req cl = Ret c" and "rw_type req = READ"
    and "is_operation_allowed sys (rw_filename req) READ = Ret None"
    and "sys_fopen_r sys (c_str (rw_filename req)) = Inr (open_infile content)"
  shows "stands_at (block_len c) (rf_convert (rw_mode req) content) (c_oack_packet c) (unat (c_timeout_s c))
      (length (rf_convert (rw_mode req) content) div block_len c + 1)
      (if oack_options (c_oack_packet c) = [] then 1 else 0, 0, Sending) c"
    and "0 < unat (c_timeout_s c)"
  using new_read_session [OF assms] by (auto simp: stands_at_def timeout_ok_def word_le_nat_alt)

lemma in_service_end:
  assumes "in_service i a b S oack T n sv (k, r, w)"
  shows "if k \<le> n then \<exists>c. map_of (sv_client_connections sv) i = Some c \<and> \<not> c_finished c \<and> c_block_number c = of_nat k
    else \<forall>c. map_of (sv_client_connections sv) i = Some c \<longrightarrow> c_finished c"
proof -
  have "map_of (sv_client_connections sv) i = None" if "gone i sv"
    using that by (simp add: gone_def map_of_eq_None_iff)
  with assms show ?thesis
    by (auto simp: in_service_def stands_at_def read_inv_at_def split: if_splits)
qed

end
