(* ===== verification/Flooded.thy ===== *)
theory Flooded
  imports Interleaving
begin

text \<open>
  A server all of whose connections wait without a timer: nothing that the silence of their clients brings
  about changes it, and the requests that arrive only make its queue longer.
\<close>

subsection \<open>Stuck connections\<close>

definition stuck :: "conn \<Rightarrow> bool" where
  "stuck c \<longleftrightarrow> timer_unarmed c \<and> wait_for_read c \<and> \<not> c_finished c"

text \<open>The events of silent clients: requests of others, and reads that find nothing.\<close>

definition quiet :: "server_event \<Rightarrow> bool" where
  "quiet e \<longleftrightarrow> (case e of
     Request_event answers \<Rightarrow> True
   | Client_event i events ra sa \<Rightarrow> ev_in events \<and> ra = Recv_errno EAGAIN)"

definition quiet_wait :: "wait_answer \<Rightarrow> bool" where
  "quiet_wait w \<longleftrightarrow> (case w of Wait_errno e \<Rightarrow> True | Wait_events es \<Rightarrow> \<forall>e \<in> set es. quiet e)"

lemma stuck_elapse: "stuck c \<Longrightarrow> c\<lparr>c_timer := elapse s (c_timer c)\<rparr> = c"
  by (simp add: stuck_def timer_unarmed_def elapse_def)

lemma stuck_quiet:
  assumes "stuck c" and "ev_in events"
  shows "service_connection events (Recv_errno EAGAIN) sa c = Ret (c, [])"
  using unarmed_tick [of c 0] stuck_elapse [OF assms(1), of 0] assms
  by (simp add: service_connection_def stuck_def)

lemma oack_sent_stuck:
  assumes "new_connection sys req cl = Ret c" and "c_state c = SEND_OACK" and "0 < fst a"
    and "handle_write a c = Ret (c', os)"
  shows "stuck c'"
proof -
  note c = new_oack_session [OF assms(1,2)]
  from write_oack_waits [OF assms(2) c(1) assms(3)] assms(4) c(2) show ?thesis by (auto simp: stuck_def)
qed

subsection \<open>The server\<close>

definition flooded :: "server \<Rightarrow> bool" where
  "flooded sv \<longleftrightarrow> sv_max_clients sv \<le> length (sv_client_connections sv) \<and>
     (\<forall>(i, c) \<in> set (sv_client_connections sv). stuck c)"

text \<open>The queue has grown, and all else is as it was.\<close>

definition queue_grown :: "server \<Rightarrow> server \<Rightarrow> bool" where
  "queue_grown sv sv' \<longleftrightarrow> (\<exists>h. sv' = sv\<lparr>sv_conn_handler := h\<rparr> \<and>
     prefix (h_request_queue (sv_conn_handler sv)) (h_request_queue h))"

lemma queue_grown_refl [simp]: "queue_grown sv sv"
  unfolding queue_grown_def by (rule exI [of _ "sv_conn_handler sv"]) simp

lemma queue_grown_trans: "queue_grown sv sv1 \<Longrightarrow> queue_grown sv1 sv2 \<Longrightarrow> queue_grown sv sv2"
  by (auto simp: queue_grown_def)

lemma queue_grown_flooded: "queue_grown sv sv' \<Longrightarrow> flooded sv \<Longrightarrow> flooded sv'"
  by (auto simp: queue_grown_def flooded_def)

lemma handle_request_grows: "prefix (h_request_queue h) (h_request_queue (handle_request d from h))"
  by (auto simp: handle_request_def enqueue_def split: option.splits)

lemma handler_read_loop_grows:
  "handler_read_loop d from answers h = Ret (h', rest) \<Longrightarrow> prefix (h_request_queue h) (h_request_queue h')"
proof (induction d "from" answers h rule: handler_read_loop.induct)
  case (1 d "from" answers h)
  let ?h = "handle_request d from h"
  show ?case
  proof (cases "d = [] \<or> answers = []")
    case True
    with 1(2) handle_request_grows [of h d "from"] show ?thesis
      by (subst (asm) handler_read_loop.simps) (auto split: if_splits)
  next
    case False
    then obtain a as where a: "answers = a # as" by (cases answers) auto
    with 1(2) False obtain data ip port where r: "udp_recv_from from REQUEST_MAX_SIZE a = Ret (data, ip, port)"
      "handler_read_loop data (ip, port) as ?h = Ret (h', rest)"
      by (subst (asm) handler_read_loop.simps) (auto simp: outcome_simps Let_def)
    have "prefix (h_request_queue ?h) (h_request_queue h')"
      using 1(1) False a r by (metis prod.collapse fst_conv snd_conv)
    with handle_request_grows show ?thesis by (rule prefix_order.trans)
  qed
qed

lemma handler_read_grows:
  assumes "handler_handle_read answers h = Ret (h', rest)"
  shows "prefix (h_request_queue h) (h_request_queue h')"
  using assms handler_read_loop_grows
  by (fastforce simp: handler_handle_read_def outcome_simps split: list.splits)

lemma registered: "server_inv sv \<Longrightarrow> sv\<lparr>sv_epoll := registrations (sv_client_connections sv)\<rparr> = sv"
  using server_invD(4) [of sv] by (cases sv) simp

lemma flooded_event:
  assumes inv: "server_inv sv" and full: "flooded sv" and "quiet e" and step: "service_event sys e sv = Ret (sv', out)"
  shows "queue_grown sv sv' \<and> out = []"
proof (cases e)
  case (Request_event answers)
  with step obtain h rest where h: "handler_handle_read answers (sv_conn_handler sv) = Ret (h, rest)"
    "accept_requests sys (sv\<lparr>sv_conn_handler := h\<rparr>) = Ret sv'" "out = []"
    by (auto simp: service_event_def outcome_simps)
  have "accept_requests sys (sv\<lparr>sv_conn_handler := h\<rparr>) = Ret (sv\<lparr>sv_conn_handler := h\<rparr>)"
    by (rule accept_none) (use full in \<open>simp add: flooded_def\<close>)
  with h handler_read_grows [OF h(1)] show ?thesis by (auto simp: queue_grown_def)
next
  case (Client_event i events ra sa)
  with assms(3) have quiet: "ev_in events" "ra = Recv_errno EAGAIN" by (simp_all add: quiet_def)
  from service_client_cases [OF inv step [unfolded Client_event]] obtain c c' os where c:
    "map_of (sv_client_connections sv) i = Some c" "service_connection events ra sa c = Ret (c', os)"
    "sv' = sv\<lparr>sv_client_connections := AList.update i c' (sv_client_connections sv),
       sv_epoll := registrations (AList.update i c' (sv_client_connections sv))\<rparr>"
    "out = map (Pair (c_client c)) os" by metis
  have "stuck c" using full c(1) by (auto simp: flooded_def dest: map_of_SomeD)
  from stuck_quiet [OF this quiet(1)] c(2) quiet(2) have same: "c' = c" "os = []" by simp_all
  have "AList.update i c (sv_client_connections sv) = sv_client_connections sv"
    using c(1) by (rule update_triv)
  with c(3,4) same registered [OF inv] show ?thesis by simp
qed

lemma flooded_events:
  "server_inv sv \<Longrightarrow> flooded sv \<Longrightarrow> \<forall>e \<in> set es. quiet e \<Longrightarrow> service_events sys es sv = Ret (sv', out) \<Longrightarrow>
   queue_grown sv sv' \<and> out = []"
proof (induction es arbitrary: sv out)
  case (Cons e es)
  from Cons.prems(4) obtain sv1 o1 o2 where step: "service_event sys e sv = Ret (sv1, o1)"
    "service_events sys es sv1 = Ret (sv', o2)" "out = o1 @ o2" by (auto simp: outcome_simps)
  from flooded_event [OF Cons.prems(1,2) _ step(1)] Cons.prems(3) have e: "queue_grown sv sv1" "o1 = []" by simp_all
  from Cons.IH [OF server_inv_event [OF Cons.prems(1) step(1)] queue_grown_flooded [OF e(1) Cons.prems(2)] _ step(2)]
    Cons.prems(3) have "queue_grown sv1 sv' \<and> o2 = []" by simp
  with e step(3) queue_grown_trans show ?case by auto
qed simp

lemma flooded_elapse: "flooded sv \<Longrightarrow> elapse_all s sv = sv"
proof -
  assume "flooded sv"
  then have "map (\<lambda>(i, c). (i, c\<lparr>c_timer := elapse s (c_timer c)\<rparr>)) (sv_client_connections sv) = sv_client_connections sv"
    by (intro map_idI) (auto simp: flooded_def stuck_elapse)
  then show "elapse_all s sv = sv" by (simp add: elapse_all_def)
qed

lemma clean_pass_unfinished: "\<forall>x \<in> set conns. \<not> c_is_finished (snd x) \<Longrightarrow> clean_pass conns = Some conns"
  by (induction conns) simp_all

lemma flooded_cleaned:
  assumes "server_inv sv" and "flooded sv" and "clean_server sv = Ret sv'"
  shows "sv' = sv"
proof -
  have "clean_pass (sv_client_connections sv) = Some (sv_client_connections sv)"
    by (rule clean_pass_unfinished) (use assms(2) in \<open>auto simp: flooded_def stuck_def c_is_finished_def\<close>)
  with assms(3) registered [OF assms(1)] show ?thesis by (simp add: server_inv_clean [OF assms(1)])
qed

lemma flooded_loop:
  "server_inv sv \<Longrightarrow> \<not> sv_exit_requested sv \<Longrightarrow> flooded sv \<Longrightarrow> \<forall>(stop, s, w) \<in> set ws. \<not> stop \<and> quiet_wait w \<Longrightarrow>
   server_loop sys ws sv = Ret (sv', out) \<Longrightarrow> queue_grown sv sv' \<and> out = []"
proof (induction ws arbitrary: sv out)
  case (Cons turn ws)
  obtain s w where turn: "turn = (False, s, w)" "quiet_wait w" using Cons.prems(4) by (cases turn) auto
  with Cons.prems(5) have "server_loop sys ((False, s, w) # ws) sv = Ret (sv', out)" by simp
  then obtain sv1 sv2 o1 o2 where step:
    "service_events sys (case w of Wait_errno e \<Rightarrow> [] | Wait_events es \<Rightarrow> es) (elapse_all s sv) = Ret (sv1, o1)"
    "sv2 = sv1 \<or> clean_server sv1 = Ret sv2" "server_loop sys ws sv2 = Ret (sv', o2)" "out = o1 @ o2"
    by (rule loop_turn [OF _ Cons.prems(2)])
  note inv = turn_inv [OF Cons.prems(1) step(1,2)]
  have "\<forall>e \<in> set (case w of Wait_errno e \<Rightarrow> [] | Wait_events es \<Rightarrow> es). quiet e"
    using turn(2) by (simp add: quiet_wait_def split: wait_answer.splits)
  from flooded_events [OF Cons.prems(1,3) this step(1) [unfolded flooded_elapse [OF Cons.prems(3)]]]
  have sv1: "queue_grown sv sv1" "o1 = []" by simp_all
  have full: "flooded sv1" by (rule queue_grown_flooded [OF sv1(1) Cons.prems(3)])
  then have "sv2 = sv1" using step(2) flooded_cleaned [OF inv(1)] by blast
  with Cons.IH [OF inv(2) _ _ _ step(3)] inv(3) Cons.prems(2,4) full
  have "queue_grown sv1 sv' \<and> o2 = []" by simp
  with sv1 step(4) queue_grown_trans show ?case by auto
qed simp

end
