(* ===== verification/Release.thy ===== *)
theory Release
  imports Confinement Destruction
begin

text \<open>
  The end of the server: \<open>~tftp_server\<close> closes the epoll instance and destroys the connections that
  are left, each of which closes what its constructor opened, and the handler.
\<close>

text \<open>The body of the destructor, then the members in reverse order of their declaration.\<close>

definition destroy_server :: "bool \<Rightarrow> int \<Rightarrow> server \<Rightarrow> handle list option" where
  "destroy_server ndebug epoll_fd sv =
     (let closed = map (destroy_connection ndebug \<circ> snd) (sv_client_connections sv)
      in if None \<in> set closed then None
         else Some ((if 0 < epoll_fd then [Descriptor epoll_fd] else []) @ concat (map the closed) @
           destroy_udp (h_udp (sv_conn_handler sv))))"

lemma session_of_handles:
  assumes "session_of sys r os c"
  shows "\<exists>i sd fd. sys_socket (sys i) = Inr sd \<and> sys_timerfd (sys i) = Inr fd \<and>
    destroy_connection True c = Some ((if 0 < fd then [Descriptor fd] else []) @ opened_by (sys i) (request r) @
      (if 0 \<le> sd then [Descriptor sd] else []))"
proof -
  from assms obtain i c0 where c0: "new_connection (sys i) (request r) (client r) = Ret c0" "session_run c0 os c"
    by (auto simp: session_of_def)
  have "same_handles c0 c" using handles_kept.run_states [OF c0(2) same_handles_refl] .
  with new_handles [OF c0(1)] destroy_same_handles [of c0 c] show ?thesis by metis
qed

lemma server_end_releases:
  assumes "new_server addr port max_clients socket opt bind getfl setfl chdir ep = Ret sv"
    and "server_start sys ws sv = Ret (sv', out)"
  shows "\<exists>hs. destroy_server True epoll_fd sv' = Some hs \<and>
    (\<forall>(j, c) \<in> set (sv_client_connections sv'). \<exists>i (r :: request_t) sd fd.
       sys_socket (sys i) = Inr sd \<and> sys_timerfd (sys i) = Inr fd \<and>
       set ((if 0 < fd then [Descriptor fd] else []) @ opened_by (sys i) (request r) @
         (if 0 \<le> sd then [Descriptor sd] else [])) \<subseteq> set hs)"
proof -
  have "sessions.arrivals_ok UNIV w" for w
    unfolding sessions.arrivals_ok_def by (simp split: wait_answer.split)
  then have "sessions.serves UNIV sys sv'"
    by (intro sessions.new_server_serves(1) [OF assms]) auto
  then have each: "\<exists>i (r :: request_t) sd fd. sys_socket (sys i) = Inr sd \<and> sys_timerfd (sys i) = Inr fd \<and>
      destroy_connection True c = Some ((if 0 < fd then [Descriptor fd] else []) @ opened_by (sys i) (request r) @
        (if 0 \<le> sd then [Descriptor sd] else []))" if "(j, c) \<in> set (sv_client_connections sv')" for j c
  proof -
    from \<open>sessions.serves UNIV sys sv'\<close> that obtain r os where "session_of sys r os c"
      unfolding sessions.serves_def by (metis snd_conv)
    from session_of_handles [OF this] show ?thesis by blast
  qed
  then have some: "None \<notin> set (map (destroy_connection True \<circ> snd) (sv_client_connections sv'))"
    by force
  have part: "set (the (destroy_connection True c)) \<subseteq> set (the (destroy_server True epoll_fd sv'))"
    if "(j, c) \<in> set (sv_client_connections sv')" for j c
    using that some by (auto simp: destroy_server_def Let_def)
  have "\<exists>hs. destroy_server True epoll_fd sv' = Some hs"
    using some by (simp add: destroy_server_def Let_def)
  then obtain hs where hs: "destroy_server True epoll_fd sv' = Some hs" by blast
  have "\<exists>i (r :: request_t) sd fd. sys_socket (sys i) = Inr sd \<and> sys_timerfd (sys i) = Inr fd \<and>
       set ((if 0 < fd then [Descriptor fd] else []) @ opened_by (sys i) (request r) @
         (if 0 \<le> sd then [Descriptor sd] else [])) \<subseteq> set hs"
    if "(j, c) \<in> set (sv_client_connections sv')" for j c
    using each [OF that] part [OF that] hs by (metis option.sel)
  with hs show ?thesis by blast
qed

end
