(* ===== verification/Unit_Tests.thy ===== *)
theory Unit_Tests
  imports Packets
begin

text \<open>
  The unit tests of the repository (\<open>src/tests/utils_tests.cpp\<close>, \<open>src/tests/tftp_tests.cpp\<close>), one lemma
  for each: the definitions, evaluated on the vectors of a test, give what it expects.
\<close>

subsection \<open>\<open>tests/test_utils.hpp\<close>\<close>

definition join_vectors :: "'a list list \<Rightarrow> 'a list" where
  "join_vectors data = fold (\<lambda>d ret. ret @ d) data []"

definition string_to_vector_null :: "bytes \<Rightarrow> bytes" where
  "string_to_vector_null str = str @ [0]"

text \<open>A test gives each string with its terminating NUL, joined.\<close>

abbreviation nul_strings :: "string list \<Rightarrow> bytes" where
  "nul_strings xs \<equiv> join_vectors (map (\<lambda>s. string_to_vector_null (bytes_of s)) xs)"

subsection \<open>\<open>extract_c_strings_from_buffer\<close>\<close>

lemma extract_empty: "extract_c_strings_from_buffer [] 0 = []"
  by code_simp

lemma extract_one_string:
  "extract_c_strings_from_buffer (string_to_vector_null (bytes_of ''test_file.txt'')) 0 =
     [bytes_of ''test_file.txt'']"
  by code_simp

lemma extract_two_strings:
  "extract_c_strings_from_buffer (nul_strings [''test_file.txt'', ''OCTET'']) 0 =
     map bytes_of [''test_file.txt'', ''OCTET'']"
  by code_simp

lemma extract_two_strings_one_zero_length:
  "extract_c_strings_from_buffer (nul_strings [''test_file.txt'', '''']) 0 =
     map bytes_of [''test_file.txt'', '''']"
  by code_simp

lemma extract_two_strings_one_missing_null:
  "extract_c_strings_from_buffer (nul_strings [''this is''] @ bytes_of ''a test'') 0 =
     [bytes_of ''this is'']"
  by code_simp

lemma extract_strings_with_offset_at_start:
  "extract_c_strings_from_buffer (replicate 13 116 @
       nul_strings [''first string'', ''second string'', ''third string'', ''fourth string'']) 13 =
     map bytes_of [''first string'', ''second string'', ''third string'', ''fourth string'']"
  by code_simp

lemma extract_many_empty_strings:
  "extract_c_strings_from_buffer (nul_strings (replicate 50 '''')) 0 = replicate 50 []"
  by code_simp

subsection \<open>\<open>native_to_netascii\<close>, \<open>netascii_to_native\<close>\<close>

lemma to_netascii_empty: "native_to_netascii [] = []"
  by code_simp

lemma to_netascii_no_newline:
  "native_to_netascii (string_to_vector_null (bytes_of ''a string'')) =
     string_to_vector_null (bytes_of ''a string'')"
  by code_simp

lemma to_netascii_newline:
  "native_to_netascii (string_to_vector_null (bytes_of ''a string with a '' @ [LF])) =
     string_to_vector_null (bytes_of ''a string with a '' @ [CR, LF])"
  by code_simp

lemma to_netascii_multiple_newlines:
  "native_to_netascii (string_to_vector_null (bytes_of ''abc'' @ [LF] @ bytes_of ''def'' @ [LF, LF])) =
     string_to_vector_null (bytes_of ''abc'' @ [CR, LF] @ bytes_of ''def'' @ [CR, LF, CR, LF])"
  by code_simp

lemma to_native_empty: "netascii_to_native [] = Ret []"
  by code_simp

lemma to_native_no_newline:
  "netascii_to_native (string_to_vector_null (bytes_of ''a string'')) =
     Ret (string_to_vector_null (bytes_of ''a string''))"
  by code_simp

lemma to_native_throw_on_standalone_cr:
  "netascii_to_native (string_to_vector_null (bytes_of ''a '' @ [CR] @ bytes_of ''string'')) =
     Throw (Runtime_error ''Invalid character sequence : CR with no LF or NULL'')"
  by code_simp

lemma to_native_newline:
  "netascii_to_native (string_to_vector_null (bytes_of ''a string with a '' @ [CR, LF])) =
     Ret (string_to_vector_null (bytes_of ''a string with a '' @ [LF]))"
  by code_simp

lemma to_native_multinewline_and_cr:
  "netascii_to_native (bytes_of ''a'' @ [CR, 0] @ bytes_of '' string '' @ [CR, LF] @ bytes_of '' with a '' @
       [CR, LF, 0]) =
     Ret (string_to_vector_null (bytes_of ''a'' @ [CR] @ bytes_of '' string '' @ [LF] @ bytes_of '' with a '' @ [LF]))"
  by code_simp

lemma to_native_single_cr:
  "netascii_to_native [CR] = Throw (Runtime_error ''Invalid character sequence : EOL after CR'')"
  by code_simp

subsection \<open>\<open>deserialise_rw_packet\<close>\<close>

lemma good_rw_packet:
  "deserialise_rw_packet ([0, 1] @ nul_strings [''/root/dir'', ''octet'']) =
     Some \<lparr>rw_type = READ, rw_filename = bytes_of ''/root/dir'', rw_mode = OCTET, rw_options = []\<rparr>"
  "deserialise_rw_packet ([0, 1] @ nul_strings [''/root/dir'', ''netascii'']) =
     Some \<lparr>rw_type = READ, rw_filename = bytes_of ''/root/dir'', rw_mode = NETASCII, rw_options = []\<rparr>"
  by code_simp+

lemma bad_rw_packet:
  "deserialise_rw_packet ([0, 0] @ nul_strings [''/root/dir'', ''octet'']) = None"
  "deserialise_rw_packet ([0, 1] @ nul_strings [''/root/dir'', ''notamode'']) = None"
  "deserialise_rw_packet ([0, 1] @ nul_strings [''/root/dir'']) = None"
  "deserialise_rw_packet ([0, 1] @ bytes_of ''octet'') = None"
  by code_simp+

lemma rw_packet_with_1_options_pair:
  "deserialise_rw_packet ([0, 1] @
       nul_strings [''/root/path/to/a/directory'', ''netascii'', ''option_one'', ''test value'']) =
     Some \<lparr>rw_type = READ, rw_filename = bytes_of ''/root/path/to/a/directory'', rw_mode = NETASCII,
       rw_options = [(bytes_of ''OPTION_ONE'', bytes_of ''TEST VALUE'')]\<rparr>"
  by code_simp

lemma rw_packet_with_3_options_pair:
  "deserialise_rw_packet ([0, 1] @
       nul_strings [''/root/path/to/a/directory'', ''netascii'', ''option_one'', ''test value'',
         ''option_two'', ''A LONG OPTION VALUE'', ''option_tree'', ''0xCAFEBABE'']) =
     Some \<lparr>rw_type = READ, rw_filename = bytes_of ''/root/path/to/a/directory'', rw_mode = NETASCII,
       rw_options = [(bytes_of ''OPTION_ONE'', bytes_of ''TEST VALUE''),
         (bytes_of ''OPTION_TWO'', bytes_of ''A LONG OPTION VALUE''),
         (bytes_of ''OPTION_TREE'', bytes_of ''0XCAFEBABE'')]\<rparr>"
  by code_simp

end
