(* ===== verification/Spec2Isabelle.thy ===== *)
theory Spec2Isabelle
  imports Data_Props Session_Props End_To_End Shared_Download Flooded Release Unit_Tests
begin

text \<open>
  A model of \<open>cpp-tftp\<close>, a TFTP server and client in C++ (RFC 1350 with the options of RFC 2347,
  2348 and 2349), and the theorems that say what it does.  The program has three parts: \<open>src/common\<close>
  (packet formats, netascii, files, UDP socket, timer), \<open>src/server\<close> (an epoll loop over a handler
  of incoming requests and a list of client connections, each a state machine) and \<open>src/client\<close>
  (blocking \<open>get_file\<close> and \<open>send_file\<close>); server and client have a \<open>main\<close> each.  Every handler is a
  function from the state and the answers of the system calls it makes to an \<open>outcome\<close>: a result,
  an exception, undefined behaviour, or no return.

  The theories, in the order of the code:
  \<^item> \<open>Prelude\<close>: bytes and 16-bit fields in network order, \<open>outcome\<close> and its bind, collections of
    simplification rules.  \<open>Std_Text\<close>: the text functions of the standard and C libraries the source
    calls (\<open>std::stoul\<close>, \<open>std::to_string\<close>, \<open>inet_pton\<close>, \<open>inet_ntop\<close>).
  \<^item> \<open>Utils\<close> (\<open>common/utils.cpp\<close>): netascii in both directions, NUL-terminated strings of a buffer,
    \<open>is_subpath\<close> over path components, socket addresses.
  \<^item> \<open>Codec\<close>, \<open>Packets\<close> (\<open>common/tftp.cpp\<close>): the interface of a packet format, and the five formats,
    each an interpretation of it.
  \<^item> \<open>Block_Source\<close>, \<open>Stdio\<close>, \<open>Read_File\<close>, \<open>Write_File\<close> (\<open>common/tftp_read_file.cpp\<close>,
    \<open>common/tftp_write_file.cpp\<close>): C streams with their indicators, the two file classes with their
    loops, and the interfaces they implement: a source of blocks and a sink of bytes.
  \<^item> \<open>Udp\<close> (\<open>common/udp_connection.cpp\<close>, \<open>common/timer.cpp\<close>).
  \<^item> \<open>Connection\<close> (\<open>server/tftp_server_connection.cpp\<close>): the record \<open>tftp_server_connection\<close> holds the
    members of the class; \<open>new_connection\<close> is the constructor with \<open>is_operation_allowed\<close> and
    \<open>process_options\<close>, \<open>handle_read\<close> and \<open>handle_write\<close> the two handlers, split by state.
  \<^item> \<open>Runs\<close>, \<open>Session\<close>: a session as a transition system under arbitrary datagrams, send results,
    delays and hang-ups, the case rules of the handlers, the invariant of all sessions;
    \<open>Read_Session\<close> and \<open>Write_Session\<close>: the invariants of downloads and uploads, the first of which is
    a refinement: the 16-bit block number and the reader's state stand for an unbounded block
    index into the converted file; \<open>Construction\<close>: what the constructor establishes;
    \<open>Read_Transfer\<close>: downloads by a client that acknowledges; \<open>Timeouts\<close>: clients that do not;
    \<open>Losses\<close>: clients that lose some blocks.  \<open>Stop_And_Wait\<close>: the abstract sender, whose state is a
    block index or \<open>Failed\<close>, and the simulation of it by a download, step by step (\<open>simulation\<close> in
    \<open>Runs\<close>).  \<open>Read_Faults\<close>: devices that fail while a file is read, by comparison with the session
    over the mended device.
  \<^item> \<open>Queues\<close>, \<open>Handler\<close> (\<open>server/tftp_connection_handler.cpp\<close>): the FIFO interface and the request
    queue.
  \<^item> \<open>Server\<close> (\<open>server/tftp_server.cpp\<close>): the loop, with epoll as a map from descriptors to interests
    and list nodes named by identities, as the code names them by address; \<open>Server_Inv\<close>: its
    invariant, and the clean-up pass refined to a function on lists; \<open>Service\<close>: acceptance in order,
    isolation, when \<open>handle_write\<close> is called, starvation; \<open>Replies\<close>: laws of single connections lifted
    to the loop (\<open>served_sessions\<close>), and the formats of what the server sends; \<open>Confinement\<close>: every
    datagram of the loop is one of a session of a request that arrived, and data come only from
    granted \<open>READ\<close> requests; \<open>Interleaving\<close>: the loop as an interleaving of sessions, each a function of its own
    events and the time; \<open>Shared_Download\<close>: so a client that follows the protocol, in a trace of its own
    events (\<open>follows\<close>), gets its file whatever the others do; \<open>Flooded\<close>: a server full of
    connections that wait without a timer.  \<open>Destruction\<close>, \<open>Release\<close>: the destructors, and which handles they close.
  \<^item> \<open>Client\<close> (\<open>client/tftp_client.cpp\<close>): \<open>get_file\<close> and \<open>send_file\<close>, given one pair of a \<open>poll\<close> and a
    receive per wait, and their exchanges with a server that sends the blocks of a file or takes one;
    \<open>Client_Runs\<close>: \<open>get_file\<close> against any sender, and against one that repeats blocks.
  \<^item> \<open>Server_Main\<close> (\<open>server/main.cpp\<close>), \<open>Client_Main\<close> (\<open>client/main.cpp\<close>): the two programs, their
    arguments, the loop over the files, and the exit status; \<open>Program_Download\<close>: a whole download
    through the turns of the server program; \<open>Failures\<close>: exactly when, and with which exception, the
    loop fails.
  \<^item> \<open>Unit_Tests\<close> (\<open>tests/\<close>): the inputs and expected results of every unit test, evaluated on the definitions.
  \<^item> \<open>Demo\<close>: a concrete system for the witnesses; \<open>Data_Props\<close>, \<open>Session_Props\<close>, \<open>Program_Props\<close>,
    \<open>End_To_End\<close> (server and client against each other) and this theory: the properties,
    \<open>C1\<close> to \<open>C40\<close>, each with a witness where it has hypotheses.

  Bounds.  Block numbers, timeouts, block sizes and option values are words of the widths of the
  source, and the wrap of the block number is part of the theorems.  The recursions that stand
  for loops are total, by a measure or on the list of answers, except the octet write loop, which
  may not end and is a \<open>partial_function\<close> whose \<open>None\<close> becomes \<open>Diverges\<close>.  \<open>lockstep m\<close> and
  \<open>silent_rounds m\<close> bound a scenario by \<open>m\<close> rounds: a download needs one round per block and one for
  an OACK, a silent client four.  \<open>follows\<close> allows a block three timeouts, as \<open>MAX_TIMEOUTS\<close> does.

  Parameters.  What the kernel, the file system and the clock do is an argument: the record
  \<open>system\<close> during construction, a received datagram or error, the result of a send, the seconds
  that pass, the successive answers of \<open>getopt_long\<close>.  Documented behaviour is assumed where it is
  needed and named there: streams without a device error (\<open>open_infile\<close>, \<open>open_outfile None\<close>), and,
  for the writes of the event loop, that epoll reports only what was asked for (\<open>batch_ok\<close>).

  Not modelled: the log (spdlog and the macros around it, outside the sources but for whether it
  could be set up), \<open>sigaction\<close> (a signal is the boolean before a turn of the loop) and the client's
  signal handler, which only exits, failure of memory allocation, in the kernel too (so not the \<open>ENOMEM\<close> and
  \<open>ENOSPC\<close> of \<open>epoll_ctl\<close>, which \<open>tftp_server.cpp\<close> turns into the same exceptions), the texts of \<open>strerror\<close> (an
  exception carries the error number), and the length of the \<open>epoll_wait\<close> array.  The accessors of a
  connection and of its members (\<open>sd\<close>, \<open>timer_fd\<close>, \<open>fd\<close>, \<open>client\<close>) are the selectors of the records.  What is left
  of the source are declarations, comments and log statements.
\<close>

section \<open>The server\<close>

text \<open>
  C12: From a constructed server, any number of turns of the event loop keep the server's invariant:
  at most \<open>max_clients\<close> connections with distinct identities, each well-formed, and in epoll exactly
  the listening socket, and for each connection its timer and its socket with the interest its
  state calls for.
\<close>

theorem server_invariant:
  assumes "new_server interface port max_clients socket opt bind getfl setfl chdir epoll_create1 = Ret sv"
    and "server_start sys ws sv = Ret (sv', out)"
  shows "length (sv_client_connections sv') \<le> sv_max_clients sv' \<and>
    distinct (map fst (sv_client_connections sv')) \<and>
    sv_epoll sv' = registrations (sv_client_connections sv') \<and>
    (\<forall>(i, c) \<in> set (sv_client_connections sv'). session_inv c)"
proof -
  note start = server_inv_new [OF assms(1)]
  from assms(2) have "server_inv sv'"
    unfolding start(2) by (rule server_inv_loop [OF start(1)])
  then show ?thesis by (force simp: server_inv_def)
qed

theorem server_invariant_witness:
  "\<exists>sv sv' out c. construct_server demo_server_host (demo_args ! 0) (demo_args ! 1) = Ret sv \<and>
     server_start (\<lambda>_. demo_system True [1, 2, 3]) demo_turns sv = Ret (sv', out) \<and>
     sv_client_connections sv' = [(0, c)] \<and> session_inv c \<and> sv_epoll sv' = registrations [(0, c)]"
proof -
  obtain sv sv' c p where r: "construct_server demo_server_host (demo_args ! 0) (demo_args ! 1) = Ret sv"
    "server_start (\<lambda>_. demo_system True [1, 2, 3]) demo_turns sv = Ret (sv', [(demo_client, serialise_data_packet p)])"
    "alone sv' 0 c 512 [1, 2, 3] (c_oack_packet c) 1" by (rule demo_run)
  from server_invariant [OF r(1) [unfolded construct_server_def] r(2)] r show ?thesis
    by (auto simp: alone_def)
qed

text \<open>
  C23: The accept loop serves the request queue in order: as many of the oldest requests as there is
  room for become connections, one each and in their order, and the others stay queued.
\<close>

theorem requests_accepted_in_order:
  assumes "server_inv sv" and "accept_requests sys sv = Ret sv'"
  shows "let room = sv_max_clients sv - length (sv_client_connections sv);
      queue = h_request_queue (sv_conn_handler sv) in
    h_request_queue (sv_conn_handler sv') = drop room queue \<and>
    (\<exists>cs. sv_client_connections sv' = sv_client_connections sv @ cs \<and>
       map fst cs = [sv_next sv..<sv_next sv + length (take room queue)] \<and>
       list_all2 (\<lambda>r (i, c). new_connection (sys i) (request r) (client r) = Ret c) (take room queue) cs)"
  using accept_requests_fifo [OF assms] by (simp only: accepted_def Let_def)

theorem requests_accepted_in_order_witness:
  "\<exists>sv'. accept_requests (\<lambda>_. demo_system True [1])
       (demo_server 1 [\<lparr>request = demo_request READ OCTET [], client = demo_client\<rparr>,
                       \<lparr>request = demo_request READ NETASCII [], client = demo_client\<rparr>] []) = Ret sv' \<and>
     h_request_queue (sv_conn_handler sv') = [\<lparr>request = demo_request READ NETASCII [], client = demo_client\<rparr>] \<and>
     length (sv_client_connections sv') = 1"
proof -
  let ?sys = "\<lambda>_. demo_system True [1]"
  let ?r = "\<lparr>request = demo_request READ OCTET [], client = demo_client\<rparr>"
  let ?q = "[?r, \<lparr>request = demo_request READ NETASCII [], client = demo_client\<rparr>]"
  let ?sv = "demo_server 1 ?q []"
  have inv: "server_inv ?sv" by (rule demo_server_inv) simp_all
  obtain c where c: "new_connection (demo_system True [1]) (demo_request READ OCTET []) demo_client = Ret c"
    using demo_new(1) by blast
  have "accept_requests ?sys ?sv =
      Ret (?sv\<lparr>sv_conn_handler := (sv_conn_handler ?sv)\<lparr>h_request_queue := tl ?q\<rparr>,
        sv_client_connections := [(0, c)], sv_next := 1, sv_epoll := registrations [(0, c)]\<rparr>)"
    by (subst accept_one [OF inv, of ?r "tl ?q" _ c])
      (simp_all add: c demo_server_def accept_none)
  with requests_accepted_in_order [OF inv this] show ?thesis by (simp add: demo_server_def)
qed

text \<open>
  C24: A read event of the listening socket enqueues, in the order of arrival and with their senders,
  the requests among the datagrams it finds, up to the first empty datagram, and drops the rest.
\<close>

theorem requests_enqueued:
  assumes "\<forall>(sa, d) \<in> set ds. d \<noteq> []" and "drained_to tail rest"
  shows "\<exists>h'. handler_handle_read (map (\<lambda>(sa, d). Datagram_from sa d) ds @ tail) h = Ret (h', rest) \<and>
    h_request_queue h' = h_request_queue h @ List.map_filter (\<lambda>(sa, d).
      map_option (\<lambda>r. \<lparr>request = r, client = sa\<rparr>) (deserialise_rw_packet (take 2048 d))) ds"
  using handler_reads_arrivals [OF assms] by (simp add: parse_request_def) blast

theorem requests_enqueued_witness:
  "\<exists>h'. handler_handle_read
       [Datagram_from demo_client (serialise_rw_packet (demo_request READ OCTET [])),
        Datagram_from demo_client [9, 9], Datagram_from demo_client [], Datagram_from demo_client [1]]
       (sv_conn_handler (demo_server 1 [] [])) = Ret (h', [Datagram_from demo_client [1]]) \<and>
     h_request_queue h' = [\<lparr>request = demo_request READ OCTET [], client = demo_client\<rparr>]"
proof -
  let ?d = "serialise_rw_packet (demo_request READ OCTET [])"
  have "valid_rw (demo_request READ OCTET [])"
    by (simp add: valid_rw_def nul_free_def demo_request_def bytes_of_def)
  then have "deserialise_rw_packet ?d = Some (demo_request READ OCTET [])"
    by (rule deserialise_serialise_rw)
  moreover have "take 2048 ?d = ?d" "?d \<noteq> []"
    by (simp_all add: serialise_rw_packet_def demo_request_def bytes_of_def OCTET_MODE_STR_def)
  moreover have "deserialise_rw_packet [9, 9] = None"
    by (simp add: deserialise_rw_packet_def)
  ultimately show ?thesis
    using requests_enqueued [of "[(demo_client, ?d), (demo_client, [9, 9])]"
        "[Datagram_from demo_client [], Datagram_from demo_client [1]]" "[Datagram_from demo_client [1]]"
        "sv_conn_handler (demo_server 1 [] [])"]
    by (simp add: drained_to_def List.map_filter_def demo_server_def)
qed

text \<open>
  C22: \<open>handle_write\<close> throws exactly when it is called on a connection that waits, and the loop does not
  do that: in a batch that reports \<open>EPOLLOUT\<close> once at most per connection and only for sockets
  registered for it, the connection about to be written is in a sending state, whatever events
  were serviced before it.
\<close>

theorem writes_only_when_due:
  assumes "server_inv sv" and "batch_ok sv (es @ [Client_event i events ra sa])"
    and "ev_out events" and "\<not> ev_in events"
    and "service_events sys es sv = Ret (sv', out)"
  shows "\<exists>c. map_of (sv_client_connections sv') i = Some c \<and> (\<forall>a e. handle_write a c \<noteq> Throw e)"
  using writes_when_due [OF assms] by (auto simp: sending_def handle_write_throws_iff)

theorem writes_only_when_due_witness:
  "\<exists>c sv' out. service_events (\<lambda>_. demo_system True [1])
       [Client_event 0 (demo_event True False) (Recv_errno 11) (0, 11)] (demo_server 1 [] [demo_conn]) = Ret (sv', out) \<and>
     map_of (sv_client_connections sv') 0 = Some c \<and> (\<forall>a e. handle_write a c \<noteq> Throw e)"
proof -
  let ?sv = "demo_server 1 [] [demo_conn]"
  have inv: "server_inv ?sv" by (rule demo_server_inv) (simp_all add: demo_conn_inv)
  have c: "map_of (sv_client_connections ?sv) 0 = Some demo_conn" by (simp add: demo_server_def)
  have "handle_read (Recv_errno 11) demo_conn = Ret (timer_read demo_conn)"
    by (simp add: handle_read_eq demo_conn_def initial_connection_def)
  then have "\<exists>sv' out. service_events (\<lambda>_. demo_system True [1])
      [Client_event 0 (demo_event True False) (Recv_errno 11) (0, 11)] ?sv = Ret (sv', out)"
    by (subst service_events.simps, subst service_client_eq [OF inv c])
      (simp add: service_connection_def demo_event_def)
  then obtain sv' out where r: "service_events (\<lambda>_. demo_system True [1])
      [Client_event 0 (demo_event True False) (Recv_errno 11) (0, 11)] ?sv = Ret (sv', out)" by blast
  have "batch_ok ?sv ([Client_event 0 (demo_event True False) (Recv_errno 11) (0, 11)] @
      [Client_event 0 (demo_event False True) (Recv_errno 11) (1, 0)])"
    by (simp add: batch_ok_def demo_event_def demo_server_def interest_of_def wait_for_read_def
        demo_conn_def initial_connection_def)
  from writes_only_when_due [OF inv this _ _ r] r show ?thesis by (auto simp: demo_event_def)
qed

text \<open>
  C15: Sessions do not affect each other: over any run of the loop, a connection that is there before and
  after is in the state that its own events and the time that passed lead to by themselves, whatever
  happened to the others, and what it sent is part of the output, in its order and to its client.
\<close>

theorem sessions_independent:
  assumes "server_inv sv" and "\<not> sv_exit_requested sv" and "server_loop sys ws sv = Ret (sv', out)"
    and "map_of (sv_client_connections sv) i = Some c" and "map_of (sv_client_connections sv') i = Some c'"
  shows "\<exists>os. serve_alone i (takeWhile (\<lambda>turn. \<not> fst turn) ws) c = Ret (c', os) \<and>
    subseq (map (Pair (c_client c)) os) out"
  using assms by (rule loop_projects)

theorem sessions_independent_witness:
  "\<exists>sv' out c' os. server_loop (\<lambda>_. demo_system True [1]) [(False, 0, Wait_events
       [Client_event 1 (demo_event True False) (Recv_errno 11) (0, 11),
        Client_event 0 (demo_event False True) (Recv_errno 11) (1, 0)])]
       (demo_server 2 [] [demo_conn, demo_conn]) = Ret (sv', out) \<and>
     map_of (sv_client_connections sv') 1 = Some c' \<and>
     serve_alone 1 [(False, 0, Wait_events [Client_event 1 (demo_event True False) (Recv_errno 11) (0, 11),
        Client_event 0 (demo_event False True) (Recv_errno 11) (1, 0)])] demo_conn = Ret (c', os)"
proof -
  let ?sv = "demo_server 2 [] [demo_conn, demo_conn]"
  let ?ws = "[(False, 0, Wait_events [Client_event 1 (demo_event True False) (Recv_errno 11) (0, 11),
        Client_event 0 (demo_event False True) (Recv_errno 11) (1, 0)])]"
  have inv: "server_inv ?sv" by (rule demo_server_inv) (simp_all add: demo_conn_inv)
  have read: "handle_read (Recv_errno 11) demo_conn = Ret (timer_read demo_conn)"
    by (simp add: handle_read_eq demo_conn_def initial_connection_def)
  have sent: "handle_write (1, 0) demo_conn =
      Ret (demo_conn\<lparr>c_finished := True\<rparr>, [serialise_error_packet (c_error_pkt demo_conn)])"
    by (rule write_error_sent) (simp_all add: demo_conn_def initial_connection_def)
  have timer: "demo_conn\<lparr>c_timer := elapse 0 (c_timer demo_conn)\<rparr> = demo_conn"
    by (simp add: demo_conn_def initial_connection_def elapse_def)
  have unfinished: "\<not> c_finished demo_conn" by (simp add: demo_conn_def initial_connection_def)
  obtain sv' out c' where r: "server_loop (\<lambda>_. demo_system True [1]) ?ws ?sv = Ret (sv', out)"
    "map_of (sv_client_connections sv') 1 = Some c'"
    using unfinished
    by (simp add: demo_server_def elapse_all_def timer service_event_def service_connection_def
        demo_event_def read sent epoll_ctl_mod_def epoll_ctl_del_def clean_server_def
        c_is_finished_def timer_read_def)
  have "\<not> sv_exit_requested ?sv" "map_of (sv_client_connections ?sv) 1 = Some demo_conn"
    by (simp_all add: demo_server_def)
  from sessions_independent [OF inv this(1) r(1) this(2) r(2)] r show ?thesis by auto
qed

text \<open>
  C5: A client that does its part gets its file, whatever else the server does.  Let a download's own events,
  in any run of a loop that serves others too, be: its datagrams can be sent, and the ACK of each arrives
  in time or, up to three times for a block, the timeout is reported.  Then the session sends its OACK, if
  there is one, and the blocks of the file in order, none left out, each again after a timeout only; it
  stays in the server until the last block is acknowledged, and is finished then.
\<close>

theorem download_among_others:
  assumes "new_connection sysc req cl = Ret c" and "rw_type req = READ"
    and "is_operation_allowed sysc (rw_filename req) READ = Ret None"
    and "sys_fopen_r sysc (c_str (rw_filename req)) = Inr (open_infile content)" and "0 < block_len c"
    and "server_inv sv" and "\<not> sv_exit_requested sv" and "map_of (sv_client_connections sv) i = Some c"
    and "server_loop sys ws sv = Ret (sv', out)" and "\<forall>turn \<in> set ws. \<not> fst turn"
  defines "S \<equiv> rf_convert (rw_mode req) content" and "first \<equiv> if oack_options (c_oack_packet c) = [] then 1 else 0"
    and "n \<equiv> length (rf_convert (rw_mode req) content) div block_len c + 1"
  assumes "follows (unat (c_timeout_s c)) n (first, 0, Sending) (own_trace i ws) = Some ((k, r, w), ks)"
  shows "subseq (map (\<lambda>k. (c_client c, if k = 0 then serialise_oack_packet (c_oack_packet c)
        else serialise_data_packet (nth_data_packet (block_len c) S k))) ks) out \<and>
    remdups_adj ks = [first..<if r = 0 \<and> w = Sending then k else k + 1] \<and>
    (if k \<le> n then \<exists>c'. map_of (sv_client_connections sv') i = Some c' \<and> \<not> c_finished c' \<and> c_block_number c' = of_nat k
     else \<forall>c'. map_of (sv_client_connections sv') i = Some c' \<longrightarrow> c_finished c')"
proof -
  have "in_service i (c_client c) (block_len c) S (c_oack_packet c) (unat (c_timeout_s c)) n sv (first, 0, Sending)"
    using new_stands_at(1) [OF assms(1-4)] assms(8) by (auto simp: in_service_def S_def n_def first_def)
  from loop_follows [OF new_stands_at(2) [OF assms(1-4)] assms(5) _ assms(6,7) this assms(10,9,14)]
  have "in_service i (c_client c) (block_len c) S (c_oack_packet c) (unat (c_timeout_s c)) n sv' (k, r, w)"
    "subseq (map (\<lambda>k. (c_client c, datagram_of (block_len c) S (c_oack_packet c) k)) ks) out"
    by (simp_all add: n_def S_def)
  with in_service_end follows_in_order [OF assms(14)] show ?thesis
    unfolding datagram_of_def to_send_def by simp
qed

theorem download_among_others_witness:
  "\<exists>c ws sv' out d. new_connection (demo_system True [1, 2, 3]) (demo_request READ OCTET []) demo_client = Ret c \<and>
     server_loop (\<lambda>_. demo_system True [1]) ws (demo_server 2 [] [c, demo_conn]) = Ret (sv', out) \<and>
     d = serialise_data_packet \<lparr>pkt_data = [1, 2, 3], data_block_number = 1\<rparr> \<and> (demo_client, d) \<in> set out \<and>
     own_trace 1 ws \<noteq> [] \<and> (\<forall>c'. map_of (sv_client_connections sv') 0 = Some c' \<longrightarrow> c_finished c')"
proof -
  obtain c where c: "new_connection (demo_system True [1, 2, 3]) (demo_request READ OCTET []) demo_client = Ret c"
    using demo_new(1) by blast
  note start = new_read_session [OF c demo_simps(1) demo_allowed(1) demo_simps(4)]
  from start(8) have conn: "block_len c = 512" "oack_options (c_oack_packet c) = []" by simp_all
  let ?p = "\<lparr>pkt_data = [1, 2, 3], data_block_number = 1\<rparr>"
  let ?ack = "serialise_ack_packet \<lparr>ack_block_number = 1\<rparr>"
  have pkt: "nth_data_packet 512 [1, 2, 3] (Suc 0) = ?p" by (simp add: nth_data_packet_def chunk_def)
  from read_send [of 512 "[1, 2, 3]" "c_oack_packet c" 1 c "(1, 0)"] start(1-3) conn obtain c1 where c1:
    "handle_write (1, 0) c = Ret (c1, [serialise_data_packet ?p])"
    "read_inv_at 512 [1, 2, 3] (c_oack_packet c) 1 c1" "c_state c1 = WAIT_FOR_ACK" "c_pkt_ready c1"
    "c_timer c1 = arm_timer (unat (c_timeout_s c)) (c_timer c)" "\<not> c_finished c1"
    by (auto simp: rf_convert_def pkt)
  have T: "0 < unat (c_timeout_s c)" using new_stands_at(2) [OF c demo_simps(1) demo_allowed(1) demo_simps(4)] .
  from read_acked [OF c1(2-4) _ c1(6)] c1(5) obtain c2 where c2: "handle_read (Datagram ?ack) c1 = Ret c2" "c_finished c2"
    by (auto simp: pkt arm_timer_def chunk_def)
  let ?ws = "[(False, 0, Wait_events
       [Client_event 1 (demo_event True False) (Recv_errno 11) (0, 11),
        Client_event 0 (demo_event False True) (Recv_errno 11) (1, 0)]),
     (False, 0, Wait_events [Client_event 0 (demo_event True False) (Datagram ?ack) (0, 11)])]"
  let ?sv = "demo_server 2 [] [c, demo_conn]"
  have inv: "server_inv ?sv" by (rule demo_server_inv) (simp_all add: demo_conn_inv session_inv_new [OF c])
  have timers: "c\<lparr>c_timer := elapse 0 (c_timer c)\<rparr> = c" "demo_conn\<lparr>c_timer := elapse 0 (c_timer demo_conn)\<rparr> = demo_conn"
    "c1\<lparr>c_timer := elapse 0 (c_timer c1)\<rparr> = c1"
    using start(7) c1(5) T
    by (simp_all add: timer_unarmed_def elapse_def demo_conn_def initial_connection_def arm_timer_def)
  have other: "handle_read (Recv_errno 11) demo_conn = Ret demo_conn" "\<not> c_finished demo_conn"
    by (simp_all add: handle_read_eq demo_conn_def initial_connection_def timer_read_def)
  obtain sv' out where r: "server_loop (\<lambda>_. demo_system True [1]) ?ws ?sv = Ret (sv', out)"
    using c1(1,6) c2 start(3) other
    by (simp add: demo_server_def elapse_all_def timers service_event_def service_connection_def
        demo_event_def epoll_ctl_mod_def epoll_ctl_del_def clean_server_def c_is_finished_def)
  have "follows (unat (c_timeout_s c)) 1 (1, 0, Sending) (own_trace 0 ?ws) = Some ((2, 0, Sending), [1])"
    using T by (simp add: own_events_def demo_event_def)
  then have f: "follows (unat (c_timeout_s c)) (length (rf_convert (rw_mode (demo_request READ OCTET [])) [1, 2, 3]) div block_len c + 1)
      (if oack_options (c_oack_packet c) = [] then 1 else 0, 0, Sending) (own_trace 0 ?ws) = Some ((2, 0, Sending), [1])"
    by (simp add: conn rf_convert_def)
  have "0 < block_len c" "\<not> sv_exit_requested ?sv" "map_of (sv_client_connections ?sv) 0 = Some c"
    "\<forall>turn \<in> set ?ws. \<not> fst turn" by (simp_all add: conn demo_server_def)
  from download_among_others [OF c demo_simps(1) demo_allowed(1) demo_simps(4) this(1) inv this(2,3) r this(4) f]
  have "(c_client c, serialise_data_packet ?p) \<in> set out"
    "\<forall>c'. map_of (sv_client_connections sv') 0 = Some c' \<longrightarrow> c_finished c'"
    by (auto simp: conn rf_convert_def pkt dest: list_emb_set)
  moreover have "c_client c = demo_client" using new_connection_client [OF c] .
  ultimately show ?thesis using c r by (intro exI [of _ c] exI [of _ ?ws] exI [of _ sv'] exI [of _ out]) simp
qed

text \<open>
  C25: The clean-up pass is undefined exactly when the list ends in an odd number of finished connections.
  Otherwise it returns; it has then removed finished connections only and kept the order, and epoll
  holds exactly the descriptors of what remains.
\<close>

theorem clean_up_removes_finished:
  assumes "server_inv sv"
  shows "if odd (trailing_finished (sv_client_connections sv)) then clean_server sv = Undefined
    else \<exists>sv'. clean_server sv = Ret sv' \<and>
      subseq (sv_client_connections sv') (sv_client_connections sv) \<and>
      filter (\<lambda>x. \<not> c_is_finished (snd x)) (sv_client_connections sv') =
        filter (\<lambda>x. \<not> c_is_finished (snd x)) (sv_client_connections sv) \<and>
      sv_epoll sv' = registrations (sv_client_connections sv')"
proof (cases "clean_pass (sv_client_connections sv)")
  case None
  then show ?thesis
    using clean_pass_None_iff [of "sv_client_connections sv"] by (simp add: server_inv_clean [OF assms])
next
  case (Some conns)
  then show ?thesis
    using clean_pass_None_iff [of "sv_client_connections sv"] clean_pass_keeps [OF Some]
    by (simp add: server_inv_clean [OF assms])
qed

theorem clean_up_removes_finished_witness:
  "\<exists>sv'. clean_server (demo_server 2 [] [demo_conn\<lparr>c_finished := True\<rparr>, demo_conn]) = Ret sv' \<and>
     filter (\<lambda>x. \<not> c_is_finished (snd x)) (sv_client_connections sv') = [(1, demo_conn)]"
proof -
  let ?sv = "demo_server 2 [] [demo_conn\<lparr>c_finished := True\<rparr>, demo_conn]"
  have inv: "server_inv ?sv"
    by (rule demo_server_inv)
      (use demo_conn_inv in \<open>simp_all add: session_inv_def direction_ok_def\<close>)
  have fin: "\<not> c_finished demo_conn" by (simp add: demo_conn_def initial_connection_def)
  with clean_up_removes_finished [OF inv] show ?thesis
    by (auto simp: demo_server_def c_is_finished_def)
qed

text \<open>
  C30: A request left in the queue for lack of room is not looked at again until a datagram reaches
  the listening socket: turns of the loop without one accept nothing, even when connections end
  and make room.
\<close>

theorem pending_requests_wait:
  assumes "server_inv sv" and "\<forall>(stop, s, w) \<in> set ws. no_request w"
    and "server_loop sys ws sv = Ret (sv', out)"
  shows "h_request_queue (sv_conn_handler sv') = h_request_queue (sv_conn_handler sv) \<and>
    subseq (map fst (sv_client_connections sv')) (map fst (sv_client_connections sv))"
  using loop_starves [OF assms] by simp

theorem pending_requests_wait_witness:
  "\<exists>sv' out. server_loop (\<lambda>_. demo_system True [1]) [(False, 5, Wait_events []), (False, 60, Wait_errno 4)]
       (demo_server 1 [\<lparr>request = demo_request READ OCTET [], client = demo_client\<rparr>] []) = Ret (sv', out) \<and>
     h_request_queue (sv_conn_handler sv') = [\<lparr>request = demo_request READ OCTET [], client = demo_client\<rparr>]"
proof -
  let ?sv = "demo_server 1 [\<lparr>request = demo_request READ OCTET [], client = demo_client\<rparr>] []"
  let ?ws = "[(False, 5, Wait_events []), (False, 60, Wait_errno 4)]"
  have inv: "server_inv ?sv" by (rule demo_server_inv) simp_all
  have "\<exists>sv' out. server_loop (\<lambda>_. demo_system True [1]) ?ws ?sv = Ret (sv', out)"
    by (simp add: demo_server_def clean_server_def elapse_all_def)
  then obtain sv' out where r: "server_loop (\<lambda>_. demo_system True [1]) ?ws ?sv = Ret (sv', out)" by blast
  have "\<forall>(stop, s, w) \<in> set ?ws. no_request w" by (simp add: no_request_def)
  from pending_requests_wait [OF inv this r] r show ?thesis by (simp add: demo_server_def)
qed

text \<open>
  C29: Clients that ask for options and then say nothing block the server for good: once each of its
  \<open>max_clients\<close> connections has sent its OACK, then however much time passes, and whatever requests arrive,
  no connection ends, none is added and nothing is sent; the requests of all other clients pile up in the
  queue.
\<close>

theorem silent_oacks_block_server:
  assumes "server_inv sv" and "\<not> sv_exit_requested sv" and "length (sv_client_connections sv) = sv_max_clients sv"
    and "\<forall>(i, c) \<in> set (sv_client_connections sv). \<exists>sysc req cl c0 a.
      new_connection sysc req cl = Ret c0 \<and> c_state c0 = SEND_OACK \<and> 0 < fst a \<and>
      handle_write a c0 = Ret (c, [serialise_oack_packet (c_oack_packet c0)])"
    and "\<forall>(stop, s, w) \<in> set ws. \<not> stop \<and> quiet_wait w" and "server_loop sys ws sv = Ret (sv', out)"
  shows "sv_client_connections sv' = sv_client_connections sv \<and> out = [] \<and>
    prefix (h_request_queue (sv_conn_handler sv)) (h_request_queue (sv_conn_handler sv'))"
proof -
  have "flooded sv" using assms(3,4) oack_sent_stuck by (fastforce simp: flooded_def)
  from flooded_loop [OF assms(1,2) this assms(5,6)] show ?thesis by (auto simp: queue_grown_def)
qed

theorem silent_oacks_block_server_witness:
  "\<exists>c sv' out. server_loop (\<lambda>_. demo_system True [1])
       [(False, 86400, Wait_events [Client_event 0 (demo_event True False) (Recv_errno EAGAIN) (0, 11),
          Request_event [Datagram_from demo_client (demo_datagram READ OCTET)]])]
       (demo_server 1 [] [c]) = Ret (sv', out) \<and>
     sv_client_connections sv' = [(0, c)] \<and> out = [] \<and>
     h_request_queue (sv_conn_handler sv') = [\<lparr>request = demo_request READ OCTET [], client = demo_client\<rparr>]"
proof -
  let ?req = "demo_request READ OCTET [(BLKSIZE_OPT, to_string 100)]" and ?sys = "demo_system True [1, 2]"
  obtain c0 where c0: "new_connection ?sys ?req demo_client = Ret c0" using demo_new(1) by blast
  have opt: "c_str (fst (BLKSIZE_OPT, to_string 100)) = BLKSIZE_OPT"
    "stoul (snd (BLKSIZE_OPT, to_string 100)) = Ret 100"
    using stoul_to_string [of 100] by (simp_all add: c_str_def BLKSIZE_OPT_def bytes_of_def)
  have "is_operation_allowed ?sys (rw_filename ?req) (rw_type ?req) = Ret None" using demo_allowed(1) by simp
  from new_connection_blksize [OF c0 this demo_simps(3) opt] have "oack_options (c_oack_packet c0) \<noteq> []"
    by (simp add: Let_def)
  then have oack: "c_state c0 = SEND_OACK"
    using new_read_session(2) [OF c0 demo_simps(1) demo_allowed(1) demo_simps(4)] by simp
  from write_oack_waits [OF this new_oack_session(1) [OF c0 oack], of "(1, 0)"] obtain c where
    c: "handle_write (1, 0) c0 = Ret (c, [serialise_oack_packet (c_oack_packet c0)])" by auto
  have stuck: "stuck c" by (rule oack_sent_stuck [OF c0 oack _ c]) simp
  define sv where "sv = demo_server 1 [] [c]"
  let ?ws = "[(False, 86400, Wait_events [Client_event 0 (demo_event True False) (Recv_errno EAGAIN) (0, 11),
       Request_event [Datagram_from demo_client (demo_datagram READ OCTET)]])] :: (bool \<times> nat \<times> wait_answer) list"
  have "session_inv c" using session_inv_handle_write [OF session_inv_new [OF c0] c] by simp
  then have inv: "server_inv sv" unfolding sv_def by (intro demo_server_inv) simp_all
  have full: "flooded sv" using stuck by (simp add: flooded_def sv_def demo_server_def)
  from demo_datagram_parsed [of READ OCTET] have req: "demo_datagram READ OCTET \<noteq> []"
    "parse_request (demo_client, demo_datagram READ OCTET) = Some \<lparr>request = demo_request READ OCTET [], client = demo_client\<rparr>"
    by simp_all
  from handler_reads_arrivals [of "[(demo_client, demo_datagram READ OCTET)]" "[]" "[]" "sv_conn_handler sv"] req
  obtain h where h: "handler_handle_read [Datagram_from demo_client (demo_datagram READ OCTET)] (sv_conn_handler sv) = Ret (h, [])"
    "h_request_queue h = [\<lparr>request = demo_request READ OCTET [], client = demo_client\<rparr>]"
    by (auto simp: drained_to_def List.map_filter_def sv_def demo_server_def)
  have "map_of (sv_client_connections sv) 0 = Some c" by (simp add: sv_def demo_server_def)
  from service_client_eq [OF inv this, of _ "demo_event True False" "Recv_errno EAGAIN" "(0, 11)"]
  have serve: "service_event sysx (Client_event 0 (demo_event True False) (Recv_errno EAGAIN) (0, 11)) sv = Ret (sv, [])" for sysx
    using stuck_quiet [OF stuck] registered [OF inv] by (simp add: demo_event_def sv_def demo_server_def)
  have "accept_requests sysx (sv\<lparr>sv_conn_handler := h\<rparr>) = Ret (sv\<lparr>sv_conn_handler := h\<rparr>)" for sysx
    by (rule accept_none) (simp add: sv_def demo_server_def)
  then have arrive: "service_event sysx (Request_event [Datagram_from demo_client (demo_datagram READ OCTET)]) sv =
      Ret (sv\<lparr>sv_conn_handler := h\<rparr>, [])" for sysx
    using h(1) by (simp add: service_event_def)
  have clean: "clean_server (sv\<lparr>sv_conn_handler := h\<rparr>) = Ret (sv\<lparr>sv_conn_handler := h\<rparr>)"
    using stuck by (simp add: clean_server_def sv_def demo_server_def c_is_finished_def stuck_def)
  have run: "\<not> sv_exit_requested sv" "length (sv_client_connections sv) = sv_max_clients sv"
    by (simp_all add: sv_def demo_server_def)
  then obtain sv' out where r: "server_loop (\<lambda>_. demo_system True [1]) ?ws sv = Ret (sv', out)"
    "sv_conn_handler sv' = h"
    by (simp add: flooded_elapse [OF full] serve arrive clean)
  have sent: "\<forall>(i, c) \<in> set (sv_client_connections sv). \<exists>sysc req cl c0 a.
      new_connection sysc req cl = Ret c0 \<and> c_state c0 = SEND_OACK \<and> 0 < fst a \<and>
      handle_write a c0 = Ret (c, [serialise_oack_packet (c_oack_packet c0)])"
    using c0 oack c by (force simp: sv_def demo_server_def)
  have quiet: "\<forall>(stop, s, w) \<in> set ?ws. \<not> stop \<and> quiet_wait w" by (simp add: quiet_wait_def quiet_def demo_event_def)
  from silent_oacks_block_server [OF inv run sent quiet r(1)] r h(2) show ?thesis
    by (intro exI [of _ c] exI [of _ sv'] exI [of _ out]) (simp add: sv_def demo_server_def)
qed

end
